(* ===== verification/Prelude.thy ===== *)
theory Prelude
  imports Main "HOL-Library.Word"
begin

text \<open>
  The vocabulary every component shares: Rust's fixed-width integers and byte strings, the
  \<open>Result\<close> type with its \<open>?\<close> operator and the \<open>require!\<close> guard, the checked and saturating
  integer operations of the standard library, and little-endian byte encodings.
  The collection \<open>rust_simps\<close> holds the equations that unfold guarded code;
  \<open>checked_simps\<close> those that read a successful checked operation as an equation of naturals;
  \<open>unat_simps\<close> those that turn word arithmetic into natural-number arithmetic.
\<close>

named_theorems rust_simps
named_theorems checked_simps
named_theorems unat_simps

section \<open>Types\<close>

type_synonym u8 = "8 word"
type_synonym u32 = "32 word"
type_synonym u64 = "64 word"
type_synonym u128 = "128 word"

text \<open>A signed 64-bit integer is the 64-bit pattern, read with \<^const>\<open>sint\<close>.\<close>

type_synonym i64 = "64 word"
type_synonym bytes = "u8 list"

text \<open>A 32-byte Solana address (\<open>Pubkey\<close>) and a 32-byte array (\<open>[u8; 32]\<close>).\<close>

type_synonym pubkey = bytes
type_synonym bytes32 = bytes

section \<open>Result and option\<close>

datatype ('a, 'e) result = Ok 'a | Err 'e

fun and_then :: "('a, 'e) result \<Rightarrow> ('a \<Rightarrow> ('b, 'e) result) \<Rightarrow> ('b, 'e) result" where
  "and_then (Ok x) f = f x"
| "and_then (Err e) f = Err e"

definition require :: "bool \<Rightarrow> 'e \<Rightarrow> (unit, 'e) result" where
  "require P e = (if P then Ok () else Err e)"

definition ok_or :: "'a option \<Rightarrow> 'e \<Rightarrow> ('a, 'e) result" where
  "ok_or x e = (case x of None \<Rightarrow> Err e | Some v \<Rightarrow> Ok v)"

fun is_ok :: "('a, 'e) result \<Rightarrow> bool" where
  "is_ok (Ok x) = True"
| "is_ok (Err e) = False"

lemma and_then_eq_Ok [rust_simps]:
  "and_then m f = Ok y \<longleftrightarrow> (\<exists>x. m = Ok x \<and> f x = Ok y)"
  by (cases m) auto

lemma and_then_eq_Err:
  "and_then m f = Err e \<longleftrightarrow> m = Err e \<or> (\<exists>x. m = Ok x \<and> f x = Err e)"
  by (cases m) auto

lemma require_eq_Ok [rust_simps]: "require P e = Ok u \<longleftrightarrow> P"
  by (simp add: require_def)

lemma require_eq_Err: "require P e = Err e' \<longleftrightarrow> \<not> P \<and> e' = e"
  by (auto simp: require_def)

lemma require_True [simp]: "require True e = Ok ()"
  by (simp add: require_def)

lemma require_False [simp]: "require False e = Err e"
  by (simp add: require_def)

lemma ok_or_eq_Ok [rust_simps]: "ok_or x e = Ok v \<longleftrightarrow> x = Some v"
  by (cases x) (auto simp: ok_or_def)

lemma ok_or_Some [simp]: "ok_or (Some v) e = Ok v"
  by (simp add: ok_or_def)

lemma ok_or_None [simp]: "ok_or None e = Err e"
  by (simp add: ok_or_def)

lemma is_ok_iff: "is_ok m \<longleftrightarrow> (\<exists>x. m = Ok x)"
  by (cases m) auto

lemma is_ok_Err_iff: "\<not> is_ok m \<longleftrightarrow> (\<exists>e. m = Err e)"
  by (cases m) auto

section \<open>Checked and saturating integers\<close>

definition checked_add :: "'a::len word \<Rightarrow> 'a word \<Rightarrow> 'a word option" where
  "checked_add a b = (if unat a + unat b < 2 ^ LENGTH('a) then Some (a + b) else None)"

definition checked_sub :: "'a::len word \<Rightarrow> 'a word \<Rightarrow> 'a word option" where
  "checked_sub a b = (if b \<le> a then Some (a - b) else None)"

definition checked_mul :: "'a::len word \<Rightarrow> 'a word \<Rightarrow> 'a word option" where
  "checked_mul a b = (if unat a * unat b < 2 ^ LENGTH('a) then Some (a * b) else None)"

definition saturating_add :: "'a::len word \<Rightarrow> 'a word \<Rightarrow> 'a word" where
  "saturating_add a b = (if unat a + unat b < 2 ^ LENGTH('a) then a + b else - 1)"

definition saturating_sub :: "'a::len word \<Rightarrow> 'a word \<Rightarrow> 'a word" where
  "saturating_sub a b = (if b \<le> a then a - b else 0)"

definition saturating_mul :: "'a::len word \<Rightarrow> 'a word \<Rightarrow> 'a word" where
  "saturating_mul a b = (if unat a * unat b < 2 ^ LENGTH('a) then a * b else - 1)"

text \<open>\<open>i64::unsigned_abs\<close>: the magnitude of a signed value, as an unsigned one.\<close>

definition unsigned_abs :: "i64 \<Rightarrow> u64" where
  "unsigned_abs x = (if sint x < 0 then - x else x)"

lemma unat_bound: "unat (x :: 'a::len word) < 2 ^ LENGTH('a)"
  by (rule unsigned_less)

lemma unat_u64_bound: "unat (x :: u64) < 18446744073709551616"
  using unat_bound [of x] by simp

lemma unat_max_word [unat_simps]: "unat (- 1 :: 'a::len word) = 2 ^ LENGTH('a) - 1"
  by (simp add: unat_eq_nat_uint unsigned_minus_1_eq_mask mask_eq_exp_minus_1 nat_diff_distrib
      nat_power_eq)

lemma unat_plus_no_wrap:
  fixes a b :: "'a::len word"
  assumes "unat a + unat b < 2 ^ LENGTH('a)"
  shows "unat (a + b) = unat a + unat b"
  using assms by (simp add: unat_word_ariths(1))

lemma unat_minus_no_wrap:
  fixes a b :: "'a::len word"
  assumes "b \<le> a"
  shows "unat (a - b) = unat a - unat b"
  using assms by (simp add: unat_sub)

lemma unat_times_no_wrap:
  fixes a b :: "'a::len word"
  assumes "unat a * unat b < 2 ^ LENGTH('a)"
  shows "unat (a * b) = unat a * unat b"
  using assms by (simp add: unat_word_ariths(2))

lemma checked_add_eq_Some [checked_simps]:
  fixes a b c :: "'a::len word"
  shows "checked_add a b = Some c \<longleftrightarrow> unat c = unat a + unat b"
proof
  assume "checked_add a b = Some c"
  then show "unat c = unat a + unat b"
    by (auto simp: checked_add_def unat_plus_no_wrap split: if_splits)
next
  assume c: "unat c = unat a + unat b"
  then have "unat a + unat b < 2 ^ LENGTH('a)"
    using unat_bound [of c] by simp
  moreover from this c have "c = a + b"
    by (metis unat_plus_no_wrap word_unat_eq_iff)
  ultimately show "checked_add a b = Some c"
    by (simp add: checked_add_def)
qed

lemma checked_sub_eq_Some [checked_simps]:
  fixes a b c :: "'a::len word"
  shows "checked_sub a b = Some c \<longleftrightarrow> unat a = unat c + unat b"
proof
  assume "checked_sub a b = Some c"
  then show "unat a = unat c + unat b"
    by (auto simp: checked_sub_def unat_minus_no_wrap word_le_nat_alt split: if_splits)
next
  assume a: "unat a = unat c + unat b"
  then have "b \<le> a"
    by (simp add: word_le_nat_alt)
  moreover from this a have "c = a - b"
    by (simp add: word_unat_eq_iff unat_minus_no_wrap)
  ultimately show "checked_sub a b = Some c"
    by (simp add: checked_sub_def)
qed

lemma checked_mul_eq_Some [checked_simps]:
  fixes a b c :: "'a::len word"
  shows "checked_mul a b = Some c \<longleftrightarrow> unat c = unat a * unat b"
proof
  assume "checked_mul a b = Some c"
  then show "unat c = unat a * unat b"
    by (auto simp: checked_mul_def unat_times_no_wrap split: if_splits)
next
  assume c: "unat c = unat a * unat b"
  then have "unat a * unat b < 2 ^ LENGTH('a)"
    using unat_bound [of c] by simp
  moreover from this c have "c = a * b"
    by (metis unat_times_no_wrap word_unat_eq_iff)
  ultimately show "checked_mul a b = Some c"
    by (simp add: checked_mul_def)
qed

lemma checked_add_eq_None:
  "checked_add (a :: 'a::len word) b = None \<longleftrightarrow> 2 ^ LENGTH('a) \<le> unat a + unat b"
  by (auto simp: checked_add_def)

lemma unat_saturating_add [unat_simps]:
  "unat (saturating_add (a :: 'a::len word) b) = min (unat a + unat b) (2 ^ LENGTH('a) - 1)"
  by (auto simp: saturating_add_def unat_plus_no_wrap unat_max_word)

lemma unat_saturating_sub [unat_simps]:
  "unat (saturating_sub a b) = unat a - unat b"
  by (auto simp: saturating_sub_def unat_minus_no_wrap word_le_nat_alt)

lemma unat_saturating_mul [unat_simps]:
  "unat (saturating_mul (a :: 'a::len word) b) = min (unat a * unat b) (2 ^ LENGTH('a) - 1)"
  by (auto simp: saturating_mul_def unat_times_no_wrap unat_max_word)

lemma uint_uminus_of_negative:
  fixes x :: i64
  assumes "sint x < 0"
  shows "uint (- x) = - sint x"
proof -
  have lo: "- (2 ^ 63) \<le> sint x" using sint_ge [of x] by simp
  have "uint (- x) = (- uint x) mod 2 ^ 64"
    by (simp add: uint_word_ariths(4))
  also have "\<dots> = (- sint x) mod 2 ^ 64"
    by (simp add: uint_sint take_bit_eq_mod mod_minus_eq)
  also have "\<dots> = - sint x"
    using assms lo by (intro mod_pos_pos_trivial) auto
  finally show ?thesis .
qed

lemma uint_of_nonnegative:
  fixes x :: i64
  assumes "0 \<le> sint x"
  shows "uint x = sint x"
proof -
  have "sint x < 2 ^ 63" using sint_lt [of x] by simp
  then show ?thesis using assms
    by (simp add: uint_sint take_bit_eq_mod)
qed

lemma unat_unsigned_abs: "int (unat (unsigned_abs x)) = \<bar>sint x\<bar>"
  by (simp add: unsigned_abs_def uint_uminus_of_negative uint_of_nonnegative)

lemma unsigned_abs_bound: "unat (unsigned_abs x) \<le> 2 ^ 63"
proof -
  have "- (2 ^ 63) \<le> sint x" "sint x < 2 ^ 63"
    using sint_ge [of x] sint_lt [of x] by simp_all
  then have "int (unat (unsigned_abs x)) \<le> int (2 ^ 63)"
    unfolding unat_unsigned_abs by (auto simp: abs_if)
  then show ?thesis by (simp only: of_nat_le_iff)
qed

section \<open>Little-endian byte strings\<close>

primrec le_val :: "bytes \<Rightarrow> nat" where
  "le_val [] = 0"
| "le_val (b # bs) = unat b + 256 * le_val bs"

primrec le_bytes :: "nat \<Rightarrow> nat \<Rightarrow> bytes" where
  "le_bytes 0 x = []"
| "le_bytes (Suc n) x = of_nat (x mod 256) # le_bytes n (x div 256)"

lemma length_le_bytes [simp]: "length (le_bytes n x) = n"
  by (induction n arbitrary: x) auto

lemma le_val_bound: "le_val bs < 256 ^ length bs"
proof (induction bs)
  case Nil
  then show ?case by simp
next
  case (Cons b bs)
  have "unat b < 256" using unat_bound [of b] by simp
  moreover have "256 * le_val bs + 256 \<le> 256 * 256 ^ length bs"
    using Cons.IH by (metis Suc_leI mult.commute mult_Suc_right mult_le_mono2 add.commute)
  ultimately show ?case by simp
qed

lemma le_val_le_bytes: "le_val (le_bytes n x) = x mod 256 ^ n"
proof (induction n arbitrary: x)
  case 0
  then show ?case by simp
next
  case (Suc n)
  have "unat (of_nat (x mod 256) :: u8) = x mod 256"
    by (simp add: unat_of_nat take_bit_eq_mod)
  then show ?case
    by (simp add: Suc mod_mult2_eq)
qed

lemma le_bytes_le_val [simp]: "le_bytes (length bs) (le_val bs) = bs"
proof (induction bs)
  case Nil
  then show ?case by simp
next
  case (Cons b bs)
  have "unat b < 256" using unat_bound [of b] by simp
  then have "(unat b + 256 * le_val bs) mod 256 = unat b"
    and "(unat b + 256 * le_val bs) div 256 = le_val bs" by auto
  then show ?case using Cons.IH by simp
qed

lemma le_val_inject: "length xs = length ys \<Longrightarrow> le_val xs = le_val ys \<longleftrightarrow> xs = ys"
  by (metis le_bytes_le_val)

lemma le_bytes_inject:
  "x < 256 ^ n \<Longrightarrow> y < 256 ^ n \<Longrightarrow> le_bytes n x = le_bytes n y \<longleftrightarrow> x = y"
  by (metis le_val_le_bytes mod_less)

text \<open>\<open>u64::to_le_bytes\<close> and \<open>u64::from_le_bytes\<close> (and their \<open>i64\<close> and \<open>u32\<close> kin).\<close>

definition u64_to_le_bytes :: "u64 \<Rightarrow> bytes" where
  "u64_to_le_bytes x = le_bytes 8 (unat x)"

definition u64_from_le_bytes :: "bytes \<Rightarrow> u64" where
  "u64_from_le_bytes bs = of_nat (le_val bs)"

lemma u64_roundtrip [simp]: "u64_from_le_bytes (u64_to_le_bytes x) = x"
  using unat_bound [of x]
  by (simp add: u64_from_le_bytes_def u64_to_le_bytes_def le_val_le_bytes)

lemma length_u64_to_le_bytes [simp]: "length (u64_to_le_bytes x) = 8"
  by (simp add: u64_to_le_bytes_def)

lemma u64_to_le_bytes_inject [simp]: "u64_to_le_bytes x = u64_to_le_bytes y \<longleftrightarrow> x = y"
  by (metis u64_roundtrip)

text \<open>The bytes of an ASCII literal, \<open>b"..."\<close>.\<close>

definition ascii :: "string \<Rightarrow> bytes" where
  "ascii s = map (\<lambda>c. of_nat (of_char c)) s"

definition zero32 :: bytes32 where
  "zero32 = replicate 32 0"

lemma length_zero32 [simp]: "length zero32 = 32"
  by (simp add: zero32_def)

section \<open>Sums over finite maps\<close>

text \<open>The sum of a measure over the values of a map with finite domain.\<close>

definition map_sum :: "('v \<Rightarrow> nat) \<Rightarrow> ('k \<rightharpoonup> 'v) \<Rightarrow> nat" where
  "map_sum f m = (\<Sum>k\<in>dom m. f (the (m k)))"

lemma map_sum_empty [simp]: "map_sum f Map.empty = 0"
  by (simp add: map_sum_def)

lemma map_sum_upd_new:
  "finite (dom m) \<Longrightarrow> m k = None \<Longrightarrow> map_sum f (m(k \<mapsto> v)) = map_sum f m + f v"
proof -
  assume fin: "finite (dom m)" and new: "m k = None"
  have "(\<Sum>x\<in>dom m. f (the ((m(k \<mapsto> v)) x))) = (\<Sum>x\<in>dom m. f (the (m x)))"
    using new by (intro sum.cong) (auto simp: domIff)
  then show ?thesis using fin new by (simp add: map_sum_def domIff)
qed

lemma map_sum_remove:
  assumes "finite (dom m)" and "m k = Some v"
  shows "map_sum f m = map_sum f (m(k := None)) + f v"
proof -
  have "map_sum f ((m(k := None))(k \<mapsto> v)) = map_sum f (m(k := None)) + f v"
    using assms(1) by (intro map_sum_upd_new) simp_all
  moreover have "(m(k := None))(k \<mapsto> v) = m" using assms(2) by auto
  ultimately show ?thesis by simp
qed

lemma map_sum_upd_old:
  assumes "finite (dom m)" and "m k = Some v"
  shows "map_sum f (m(k \<mapsto> v')) + f v = map_sum f m + f v'"
proof -
  have "map_sum f ((m(k := None))(k \<mapsto> v')) = map_sum f (m(k := None)) + f v'"
    using assms(1) by (intro map_sum_upd_new) simp_all
  then show ?thesis using map_sum_remove [OF assms, of f] by simp
qed

lemma map_sum_member_le: "finite (dom m) \<Longrightarrow> m k = Some v \<Longrightarrow> f v \<le> map_sum f m"
  using map_sum_remove [of m k v f] by simp

end
