(* ===== verification/Program_Types.thy ===== *)
theory Program_Types
  imports Prelude
begin

text \<open>
  The data of the on-chain program (\<open>programs/paraloom/src/lib.rs\<close>): its constants, error
  codes, account structs and events. A struct is a record whose fields carry a short prefix
  (\<open>bs_\<close>, \<open>vr_\<close>, \<open>va_\<close>, \<open>ac_\<close>, \<open>na_\<close>, \<open>mt_\<close>) because several structs share field names.
\<close>

section \<open>Constants\<close>

definition MIN_VALIDATOR_STAKE :: u64 where
  "MIN_VALIDATOR_STAKE = 1000000000"

definition RECOMMENDED_MIN_TOKEN_STAKE :: u64 where
  "RECOMMENDED_MIN_TOKEN_STAKE = 1000000000000"

definition UNBONDING_SLOTS :: u64 where
  "UNBONDING_SLOTS = 216000"

definition MAX_PROOF_LEN :: nat where
  "MAX_PROOF_LEN = 256"

definition WITHDRAWAL_FEE_BPS :: u64 where
  "WITHDRAWAL_FEE_BPS = 25"

definition NATIVE_SOL_ASSET :: bytes32 where
  "NATIVE_SOL_ASSET = zero32"

definition TREE_DEPTH :: nat where
  "TREE_DEPTH = 32"

definition ROOT_HISTORY_SIZE :: nat where
  "ROOT_HISTORY_SIZE = 64"

section \<open>Errors\<close>

datatype BridgeError =
    BridgePaused
  | InvalidAmount
  | InvalidProof
  | ProofTooLarge
  | InsufficientFunds
  | NullifierAlreadyUsed
  | InsufficientStake
  | ValidatorNotActive
  | InvalidValidator
  | WithdrawalExpired
  | DuplicateNullifier
  | NonCanonicalNullifier
  | NonCanonicalFieldElement
  | UnauthorizedInit
  | QuorumNotMet
  | UnbondingNotElapsed
  | NothingUnbonding
  | PendingRewardsUnclaimed
  | UnknownMerkleRoot
  | DepositCapExceeded
  | InsufficientTokenStake
  | RegistryResetCountMismatch

text \<open>
  Why an instruction can fail besides the program's own codes: an Anchor account constraint
  declared on the accounts struct is violated, a called program (system, token) refuses, or
  the Rust code panics (checked arithmetic, a slice out of range). In every case the runtime
  discards the instruction's effects, so a handler returns no state with its error.
\<close>

datatype AnchorError =
    AccountNotInitialized
  | AccountAlreadyInUse
  | AccountNotSystemOwned
  | ConstraintHasOne
  | ConstraintAddress
  | ConstraintSeeds
  | ConstraintRaw
  | ConstraintTokenMint
  | ConstraintTokenOwner
  | AccountDidNotDeserialize

datatype error = Bridge BridgeError | Anchor AnchorError | Cpi | Panic

section \<open>Account structs\<close>

record BridgeState =
  bs_program_version :: u32
  bs_authority :: pubkey
  bs_total_deposited :: u64
  bs_total_withdrawn :: u64
  bs_deposit_count :: u64
  bs_withdrawal_count :: u64
  bs_paused :: bool
  bs_merkle_root :: bytes32
  bs_deposit_cap :: u64

record AssetConfig =
  ac_mint :: pubkey
  ac_deposit_cap :: u64
  ac_total_deposited :: u64
  ac_deposit_count :: u64
  ac_bump :: u8

record NullifierAccount =
  na_nullifier :: bytes32
  na_used_at :: i64
  na_withdrawal_id :: u64

record ValidatorRegistry =
  vr_authority :: pubkey
  vr_total_validators :: u64
  vr_active_validators :: u64
  vr_minimum_stake :: u64
  vr_total_active_stake :: u64
  vr_stake_mint :: pubkey
  vr_min_token_stake :: u64

record ValidatorAccount =
  va_validator :: pubkey
  va_stake_amount :: u64
  va_reputation_score :: u64
  va_total_tasks_verified :: u64
  va_successful_verifications :: u64
  va_registered_at :: i64
  va_last_active :: i64
  va_is_active :: bool
  va_pending_rewards :: u64
  va_total_earnings :: u64
  va_times_slashed :: u64
  va_unbonding_amount :: u64
  va_unbonding_slot :: u64
  va_token_stake_amount :: u64
  va_token_unbonding_amount :: u64

record IncrementalMerkleTree =
  mt_next_index :: u64
  mt_root_index :: u64
  mt_root :: bytes32
  mt_filled_subtrees :: "bytes32 list"
  mt_root_history :: "bytes32 list"

text \<open>\<open>#[derive(InitSpace)]\<close>: the serialised sizes of the fixed-size structs.\<close>

definition BridgeState_INIT_SPACE :: nat where
  "BridgeState_INIT_SPACE = 4 + 32 + 8 + 8 + 8 + 8 + 1 + 32 + 8"

definition AssetConfig_SPACE :: nat where
  "AssetConfig_SPACE = 8 + 32 + 8 + 8 + 8 + 1"

definition NullifierAccount_INIT_SPACE :: nat where
  "NullifierAccount_INIT_SPACE = 32 + 8 + 8"

definition ValidatorRegistry_INIT_SPACE :: nat where
  "ValidatorRegistry_INIT_SPACE = 32 + 8 + 8 + 8 + 8 + 32 + 8"

definition ValidatorAccount_INIT_SPACE :: nat where
  "ValidatorAccount_INIT_SPACE =
     32 + 8 + 8 + 8 + 8 + 8 + 8 + 1 + 8 + 8 + 8 + 8 + 8 + 8 + 8"

definition MERKLE_TREE_SIZE :: nat where
  "MERKLE_TREE_SIZE = 8 + 8 + 32 + 32 * TREE_DEPTH + 32 * ROOT_HISTORY_SIZE"

section \<open>Events\<close>

record DepositNoteEvent =
  de_depositor :: pubkey
  de_amount :: u64
  de_commitment :: bytes32
  de_leaf_index :: u64
  de_timestamp :: i64

record DepositNoteSplEvent =
  ds_depositor :: pubkey
  ds_mint :: pubkey
  ds_amount :: u64
  ds_commitment :: bytes32
  ds_leaf_index :: u64
  ds_timestamp :: i64

record TransactEvent =
  te_nullifier0 :: bytes32
  te_nullifier1 :: bytes32
  te_out_commitment0 :: bytes32
  te_out_commitment1 :: bytes32
  te_new_root :: bytes32
  te_ext_amount :: i64
  te_fee :: u64
  te_recipient :: pubkey
  te_timestamp :: i64
  te_settlement_id :: u64

record ValidatorSlashedEvent =
  vs_validator :: pubkey
  vs_slash_amount :: u64
  vs_slash_percentage :: u8
  vs_old_stake :: u64
  vs_new_stake :: u64
  vs_timestamp :: i64

datatype event =
    DepositNote DepositNoteEvent
  | DepositNoteSpl DepositNoteSplEvent
  | TransactSettled TransactEvent
  | ValidatorRegistered pubkey u64 i64
  | ValidatorUnregistered pubkey u64 i64
  | UnbondedStakeWithdrawn pubkey u64 i64
  | RegistryReset pubkey u64 u64 i64
  | ValidatorSlashed ValidatorSlashedEvent
  | RewardClaimed pubkey u64 i64
  | NoEvent

end
