(* ===== verification/Runtime.thy ===== *)
theory Runtime
  imports Program_Types
begin

text \<open>
  What the on-chain program runs on: the cryptographic primitives it calls (arkworks' BN254
  scalar field, the Poseidon, SHA-256 and \<open>alt_bn128\<close> syscalls), the Solana runtime (rent,
  program-derived addresses, the clock), the system and token programs it invokes, and the
  lamport effect of Anchor's \<open>init\<close> and \<open>close\<close> constraints. None of that code is part of the
  repository, so it is a parameter: a field of the record \<open>crypto\<close> or \<open>runtime\<close> that the
  handlers take. What the handlers rely on is stated as named predicates over the record
  (\<open>ark_fr_ok\<close>, \<open>zero_hashes_ok\<close>, \<open>system_program_ok\<close>, \<open>anchor_ok\<close>, \<open>token_program_ok\<close>,
  \<open>pda_ok\<close>, \<open>signer_ok\<close>) that restate the documented behaviour of those programs.

  The ledger (record \<open>chain\<close>) holds the accounts the program reads and writes. A
  program-derived account is stored under the seeds that pin its address (a validator account
  under its wallet, a nullifier account under the nullifier bytes); lamport balances, account
  owners and token accounts are stored by address.
\<close>

section \<open>Cryptographic primitives\<close>

text \<open>A BN254 scalar field element is its canonical representative below \<open>Fr::MODULUS\<close>.\<close>

definition fr_modulus :: nat where
  "fr_modulus =
     21888242871839275222246405745257275088548364400416034343698204186575808495617"

record crypto =
  fr_from_le_bytes_mod_order :: "bytes \<Rightarrow> nat"
  fr_from_u64 :: "u64 \<Rightarrow> nat"
  fr_neg :: "nat \<Rightarrow> nat"
  fr_to_bytes_le :: "nat \<Rightarrow> bytes"
  fr_to_bytes_be :: "nat \<Rightarrow> bytes"
  biguint_from_bytes_be :: "bytes \<Rightarrow> nat"
  poseidon_hashv :: "bytes list \<Rightarrow> bytes option"
  sha256_hashv :: "bytes list \<Rightarrow> bytes"
  alt_bn128_multiplication :: "bytes \<Rightarrow> bytes option"
  alt_bn128_addition :: "bytes \<Rightarrow> bytes option"
  alt_bn128_pairing :: "bytes \<Rightarrow> bytes option"

text \<open>
  \<open>ark_ff\<close>: \<open>from_le_bytes_mod_order\<close> reduces the little-endian number modulo the field order,
  \<open>From<u64>\<close> and negation are those of the field, and \<open>into_bigint().to_bytes_le/be()\<close>
  writes the representative in four 64-bit limbs, that is in 32 bytes.
\<close>

definition ark_fr_ok :: "'z crypto_scheme \<Rightarrow> bool" where
  "ark_fr_ok cr \<longleftrightarrow>
     (\<forall>bs. fr_from_le_bytes_mod_order cr bs = le_val bs mod fr_modulus) \<and>
     (\<forall>x. fr_from_u64 cr x = unat x) \<and>
     (\<forall>x < fr_modulus. fr_neg cr x = (fr_modulus - x) mod fr_modulus) \<and>
     (\<forall>x < fr_modulus. fr_to_bytes_le cr x = le_bytes 32 x) \<and>
     (\<forall>x < fr_modulus. fr_to_bytes_be cr x = rev (le_bytes 32 x))"

section \<open>The ledger\<close>

record token_account =
  ta_mint :: pubkey
  ta_owner :: pubkey
  ta_amount :: u64

type_synonym balances = "pubkey \<Rightarrow> u64"
type_synonym token_accounts = "pubkey \<rightharpoonup> token_account"

text \<open>The loader's \<open>ProgramData\<close> account, which records the program's upgrade authority.\<close>

record program_data_account =
  pd_owner :: pubkey
  pd_data :: bytes

record chain =
  lamports :: balances
  account_owner :: "pubkey \<Rightarrow> pubkey"
  tokens :: token_accounts
  mint_decimals :: "pubkey \<rightharpoonup> u8"
  program_data :: program_data_account
  bridge_state :: "BridgeState option"
  merkle_tree :: "IncrementalMerkleTree option"
  validator_registry :: "ValidatorRegistry option"
  validator_accounts :: "pubkey \<rightharpoonup> ValidatorAccount"
  nullifier_accounts :: "bytes32 \<rightharpoonup> NullifierAccount"
  asset_configs :: "pubkey \<rightharpoonup> AssetConfig"

record clock =
  slot :: u64
  unix_timestamp :: i64

text \<open>An entry of \<open>remaining_accounts\<close>, as the runtime hands it to the program.\<close>

record account_info =
  ai_key :: pubkey
  ai_is_signer :: bool
  ai_owner :: pubkey
  ai_data :: bytes

section \<open>The runtime and the programs it calls\<close>

record runtime = crypto +
  program_id :: pubkey
  system_program_id :: pubkey
  bpf_loader_upgradeable_id :: pubkey
  find_program_address :: "bytes list \<Rightarrow> pubkey \<Rightarrow> pubkey"
  find_program_bump :: "bytes list \<Rightarrow> pubkey \<Rightarrow> u8"
  minimum_balance :: "nat \<Rightarrow> u64"
  system_transfer :: "pubkey \<Rightarrow> pubkey \<Rightarrow> u64 \<Rightarrow> balances \<Rightarrow> balances option"
  anchor_init :: "pubkey \<Rightarrow> pubkey \<Rightarrow> nat \<Rightarrow> balances \<Rightarrow> balances option"
  anchor_close :: "pubkey \<Rightarrow> pubkey \<Rightarrow> balances \<Rightarrow> balances option"
  init_token_account ::
    "pubkey \<Rightarrow> pubkey \<Rightarrow> pubkey \<Rightarrow> pubkey \<Rightarrow> balances \<times> token_accounts
       \<Rightarrow> (balances \<times> token_accounts) option"
  transfer_checked ::
    "pubkey \<Rightarrow> pubkey \<Rightarrow> pubkey \<Rightarrow> pubkey \<Rightarrow> u64 \<Rightarrow> u8 \<Rightarrow> token_accounts \<Rightarrow> token_accounts option"
  token_burn :: "pubkey \<Rightarrow> pubkey \<Rightarrow> pubkey \<Rightarrow> u64 \<Rightarrow> token_accounts \<Rightarrow> token_accounts option"
  registry_discriminator :: bytes
  validator_discriminator :: bytes
  validator_try_deserialize :: "bytes \<Rightarrow> ValidatorAccount option"

text \<open>The addresses pinned by the \<open>seeds\<close> constraints.\<close>

definition pda :: "runtime \<Rightarrow> bytes list \<Rightarrow> pubkey" where
  "pda rt seeds = find_program_address rt seeds (program_id rt)"

definition bridge_state_key :: "runtime \<Rightarrow> pubkey" where
  "bridge_state_key rt = pda rt [ascii ''bridge_state'']"

definition bridge_vault_key :: "runtime \<Rightarrow> pubkey" where
  "bridge_vault_key rt = pda rt [ascii ''bridge_vault'']"

definition merkle_tree_key :: "runtime \<Rightarrow> pubkey" where
  "merkle_tree_key rt = pda rt [ascii ''merkle_tree'']"

definition validator_registry_key :: "runtime \<Rightarrow> pubkey" where
  "validator_registry_key rt = pda rt [ascii ''validator_registry'']"

definition validator_key :: "runtime \<Rightarrow> pubkey \<Rightarrow> pubkey" where
  "validator_key rt wallet = pda rt [ascii ''validator'', wallet]"

definition nullifier_key :: "runtime \<Rightarrow> bytes32 \<Rightarrow> pubkey" where
  "nullifier_key rt nullifier = pda rt [ascii ''nullifier'', nullifier]"

definition slashed_funds_vault_key :: "runtime \<Rightarrow> pubkey" where
  "slashed_funds_vault_key rt = pda rt [ascii ''slashed_funds_vault'']"

definition stake_token_vault_key :: "runtime \<Rightarrow> pubkey" where
  "stake_token_vault_key rt = pda rt [ascii ''stake_token_vault'']"

definition stake_vault_authority_key :: "runtime \<Rightarrow> pubkey" where
  "stake_vault_authority_key rt = pda rt [ascii ''stake_vault_authority'']"

definition asset_vault_key :: "runtime \<Rightarrow> pubkey \<Rightarrow> pubkey" where
  "asset_vault_key rt mint = pda rt [ascii ''asset_vault'', mint]"

definition asset_vault_authority_key :: "runtime \<Rightarrow> pubkey" where
  "asset_vault_authority_key rt = pda rt [ascii ''asset_vault_authority'']"

definition asset_config_key :: "runtime \<Rightarrow> pubkey \<Rightarrow> pubkey" where
  "asset_config_key rt mint = pda rt [ascii ''asset_config'', mint]"

section \<open>Documented behaviour of the called programs\<close>

text \<open>A system transfer debits the source and credits the destination, without overdraft.\<close>

definition system_program_ok :: "runtime \<Rightarrow> bool" where
  "system_program_ok rt \<longleftrightarrow>
     (\<forall>from to amount lam lam'. system_transfer rt from to amount lam = Some lam' \<longrightarrow>
        amount \<le> lam from \<and>
        (from = to \<longrightarrow> lam' = lam) \<and>
        (from \<noteq> to \<longrightarrow> unat (lam to) + unat amount < 2 ^ 64 \<and>
           lam' = lam(from := lam from - amount, to := lam to + amount)))"

text \<open>
  Anchor's \<open>init\<close> funds the new account up to its rent-exempt minimum out of the payer (an
  account that already holds lamports is only topped up) and touches no other balance;
  \<open>close\<close> moves the whole balance to the destination.
\<close>

definition anchor_init_ok :: "runtime \<Rightarrow> bool" where
  "anchor_init_ok rt \<longleftrightarrow>
     (\<forall>payer acct space lam lam'. payer \<noteq> acct \<longrightarrow>
        anchor_init rt payer acct space lam = Some lam' \<longrightarrow>
        minimum_balance rt space \<le> lam' acct \<and> lam acct \<le> lam' acct \<and>
        unat (lam' payer) + unat (lam' acct) = unat (lam payer) + unat (lam acct) \<and>
        (\<forall>k. k \<noteq> payer \<longrightarrow> k \<noteq> acct \<longrightarrow> lam' k = lam k))"

definition anchor_close_ok :: "runtime \<Rightarrow> bool" where
  "anchor_close_ok rt \<longleftrightarrow>
     (\<forall>acct dest lam lam'. acct \<noteq> dest \<longrightarrow> anchor_close rt acct dest lam = Some lam' \<longrightarrow>
        unat (lam acct) + unat (lam dest) < 2 ^ 64 \<and>
        lam' = lam(acct := 0, dest := lam dest + lam acct))"

definition anchor_ok :: "runtime \<Rightarrow> bool" where
  "anchor_ok rt \<longleftrightarrow> anchor_init_ok rt \<and> anchor_close_ok rt"

text \<open>
  A token transfer between two accounts of the mint debits exactly the amount and credits at
  most the amount (a Token-2022 mint may withhold a fee); a burn debits exactly the amount.
  Neither touches another account, nor the mint or owner of any account. Creating a token
  account leaves it empty and debits nobody but the payer.
\<close>

definition token_meta :: "token_accounts \<Rightarrow> pubkey \<rightharpoonup> pubkey \<times> pubkey" where
  "token_meta ts k = map_option (\<lambda>a. (ta_mint a, ta_owner a)) (ts k)"

definition token_balance :: "token_accounts \<Rightarrow> pubkey \<Rightarrow> nat" where
  "token_balance ts k = (case ts k of None \<Rightarrow> 0 | Some a \<Rightarrow> unat (ta_amount a))"

definition transfer_checked_ok :: "runtime \<Rightarrow> bool" where
  "transfer_checked_ok rt \<longleftrightarrow>
     (\<forall>from mint to authority amount decimals ts ts'. from \<noteq> to \<longrightarrow>
        transfer_checked rt from mint to authority amount decimals ts = Some ts' \<longrightarrow>
        token_meta ts' = token_meta ts \<and>
        token_balance ts from = token_balance ts' from + unat amount \<and>
        token_balance ts to \<le> token_balance ts' to \<and>
        token_balance ts' to \<le> token_balance ts to + unat amount \<and>
        (\<forall>k. k \<noteq> from \<longrightarrow> k \<noteq> to \<longrightarrow> ts' k = ts k))"

definition token_burn_ok :: "runtime \<Rightarrow> bool" where
  "token_burn_ok rt \<longleftrightarrow>
     (\<forall>mint from authority amount ts ts'.
        token_burn rt mint from authority amount ts = Some ts' \<longrightarrow>
        token_meta ts' = token_meta ts \<and>
        token_balance ts from = token_balance ts' from + unat amount \<and>
        (\<forall>k. k \<noteq> from \<longrightarrow> ts' k = ts k))"

definition init_token_account_ok :: "runtime \<Rightarrow> bool" where
  "init_token_account_ok rt \<longleftrightarrow>
     (\<forall>payer acct mint authority lam lam' ts ts'.
        init_token_account rt payer acct mint authority (lam, ts) = Some (lam', ts') \<longrightarrow>
        ts' = ts(acct \<mapsto> \<lparr> ta_mint = mint, ta_owner = authority, ta_amount = 0 \<rparr>) \<and>
        (\<forall>k. k \<noteq> payer \<longrightarrow> lam k \<le> lam' k))"

definition token_program_ok :: "runtime \<Rightarrow> bool" where
  "token_program_ok rt \<longleftrightarrow>
     transfer_checked_ok rt \<and> token_burn_ok rt \<and> init_token_account_ok rt"

text \<open>
  Program-derived addresses: distinct seeds of the program give distinct addresses, no such
  address is the key of a signature (they lie off the curve), and the program is not the system
  program.
\<close>

definition pda_ok :: "runtime \<Rightarrow> bool" where
  "pda_ok rt \<longleftrightarrow>
     inj (validator_key rt) \<and>
     (\<forall>w. validator_key rt w \<noteq> bridge_vault_key rt) \<and>
     (\<forall>w. validator_key rt w \<noteq> slashed_funds_vault_key rt) \<and>
     (\<forall>w n. validator_key rt w \<noteq> nullifier_key rt n) \<and>
     (\<forall>n. nullifier_key rt n \<noteq> bridge_vault_key rt) \<and>
     slashed_funds_vault_key rt \<noteq> bridge_vault_key rt \<and>
     program_id rt \<noteq> system_program_id rt"

definition signer_ok :: "runtime \<Rightarrow> pubkey \<Rightarrow> bool" where
  "signer_ok rt k \<longleftrightarrow> (\<forall>seeds. pda rt seeds \<noteq> k)"

lemma system_transferD:
  assumes "system_program_ok rt" and "system_transfer rt from to amount lam = Some lam'"
  shows "amount \<le> lam from"
    and "from = to \<Longrightarrow> lam' = lam"
    and "from \<noteq> to \<Longrightarrow> unat (lam' from) + unat amount = unat (lam from)"
    and "from \<noteq> to \<Longrightarrow> unat (lam' to) = unat (lam to) + unat amount"
    and "k \<noteq> from \<Longrightarrow> k \<noteq> to \<Longrightarrow> lam' k = lam k"
proof -
  from assms have law: "amount \<le> lam from" "from = to \<Longrightarrow> lam' = lam"
    "from \<noteq> to \<Longrightarrow> unat (lam to) + unat amount < 2 ^ 64"
    "from \<noteq> to \<Longrightarrow> lam' = lam(from := lam from - amount, to := lam to + amount)"
    unfolding system_program_ok_def by blast+
  show "amount \<le> lam from" by (fact law(1))
  show "from = to \<Longrightarrow> lam' = lam" by (fact law(2))
  show "from \<noteq> to \<Longrightarrow> unat (lam' from) + unat amount = unat (lam from)"
    using law by (simp add: unat_minus_no_wrap word_le_nat_alt)
  show "from \<noteq> to \<Longrightarrow> unat (lam' to) = unat (lam to) + unat amount"
    using law by (simp add: unat_plus_no_wrap)
  show "k \<noteq> from \<Longrightarrow> k \<noteq> to \<Longrightarrow> lam' k = lam k"
    using law(2,4) by (cases "from = to") auto
qed

text \<open>The effect of a transfer of \<open>n\<close> lamports on the balances.\<close>

definition moved :: "pubkey \<Rightarrow> pubkey \<Rightarrow> nat \<Rightarrow> balances \<Rightarrow> balances \<Rightarrow> bool" where
  "moved src dst n lam lam' \<longleftrightarrow>
     (src = dst \<longrightarrow> lam' = lam) \<and>
     (src \<noteq> dst \<longrightarrow> unat (lam src) = unat (lam' src) + n \<and> unat (lam' dst) = unat (lam dst) + n) \<and>
     (\<forall>k. k \<noteq> src \<longrightarrow> k \<noteq> dst \<longrightarrow> lam' k = lam k)"

lemma moved_zero [simp]: "moved src dst 0 lam lam"
  by (simp add: moved_def)

lemma system_transfer_moved:
  assumes "system_program_ok rt" and "system_transfer rt src dst amount lam = Some lam'"
  shows "moved src dst (unat amount) lam lam'"
  using system_transferD [OF assms] unfolding moved_def by (cases "src = dst") simp_all

lemma moved_src_le: "moved src dst n lam lam' \<Longrightarrow> k \<noteq> src \<Longrightarrow> lam k \<le> lam' k"
  unfolding moved_def by (cases "src = dst"; cases "k = dst") (simp_all add: word_le_nat_alt)

definition runtime_ok :: "runtime \<Rightarrow> bool" where
  "runtime_ok rt \<longleftrightarrow>
     system_program_ok rt \<and> anchor_ok rt \<and> token_program_ok rt \<and> pda_ok rt"

lemma runtime_okD:
  assumes "runtime_ok rt"
  shows "system_program_ok rt" and "pda_ok rt" and "anchor_init_ok rt" and "anchor_close_ok rt"
    and "transfer_checked_ok rt" and "token_burn_ok rt" and "init_token_account_ok rt"
  using assms by (simp_all add: runtime_ok_def anchor_ok_def token_program_ok_def)

lemma anchor_initD:
  assumes "runtime_ok rt" and "payer \<noteq> acct"
    and "anchor_init rt payer acct space lam = Some lam'"
  shows "minimum_balance rt space \<le> lam' acct" and "lam acct \<le> lam' acct"
    and "unat (lam' payer) + unat (lam' acct) = unat (lam payer) + unat (lam acct)"
    and "k \<noteq> payer \<Longrightarrow> k \<noteq> acct \<Longrightarrow> lam' k = lam k"
    and "k \<noteq> payer \<Longrightarrow> lam k \<le> lam' k"
proof -
  note law = runtime_okD(3) [OF assms(1), unfolded anchor_init_ok_def, rule_format, OF assms(2,3)]
  then show "minimum_balance rt space \<le> lam' acct" "lam acct \<le> lam' acct"
    "unat (lam' payer) + unat (lam' acct) = unat (lam payer) + unat (lam acct)"
    "k \<noteq> payer \<Longrightarrow> k \<noteq> acct \<Longrightarrow> lam' k = lam k" by simp_all
  show "k \<noteq> payer \<Longrightarrow> lam k \<le> lam' k" using law by (cases "k = acct") simp_all
qed

lemma anchor_closeD:
  assumes "runtime_ok rt" and "acct \<noteq> dest" and "anchor_close rt acct dest lam = Some lam'"
  shows "lam' acct = 0" and "unat (lam' dest) = unat (lam dest) + unat (lam acct)"
    and "k \<noteq> acct \<Longrightarrow> k \<noteq> dest \<Longrightarrow> lam' k = lam k"
proof -
  note law = runtime_okD(4) [OF assms(1), unfolded anchor_close_ok_def, rule_format, OF assms(2,3)]
  then have "unat (lam dest) + unat (lam acct) < 2 ^ 64" by (simp only: add.commute)
  then show "unat (lam' dest) = unat (lam dest) + unat (lam acct)"
    using law by (simp add: unat_plus_no_wrap)
  show "lam' acct = 0" "k \<noteq> acct \<Longrightarrow> k \<noteq> dest \<Longrightarrow> lam' k = lam k"
    using law assms(2) by simp_all
qed

lemma transfer_checkedD:
  assumes "runtime_ok rt" and "src \<noteq> dst"
    and "transfer_checked rt src mint dst authority amount decimals ts = Some ts'"
  shows "token_meta ts' = token_meta ts"
    and "token_balance ts src = token_balance ts' src + unat amount"
    and "token_balance ts dst \<le> token_balance ts' dst"
    and "token_balance ts' dst \<le> token_balance ts dst + unat amount"
    and "k \<noteq> src \<Longrightarrow> k \<noteq> dst \<Longrightarrow> ts' k = ts k"
  using runtime_okD(5) [OF assms(1), unfolded transfer_checked_ok_def, rule_format, OF assms(2,3)]
  by simp_all

lemma token_burnD:
  assumes "runtime_ok rt" and "token_burn rt mint src authority amount ts = Some ts'"
  shows "token_meta ts' = token_meta ts"
    and "token_balance ts src = token_balance ts' src + unat amount"
    and "k \<noteq> src \<Longrightarrow> ts' k = ts k"
  using runtime_okD(6) [OF assms(1), unfolded token_burn_ok_def, rule_format, OF assms(2)]
  by simp_all

lemma init_token_accountD:
  assumes "runtime_ok rt"
    and "init_token_account rt payer acct mint authority (lam, ts) = Some (lam', ts')"
  shows "ts' = ts(acct \<mapsto> \<lparr> ta_mint = mint, ta_owner = authority, ta_amount = 0 \<rparr>)"
    and "k \<noteq> payer \<Longrightarrow> lam k \<le> lam' k"
  using runtime_okD(7) [OF assms(1), unfolded init_token_account_ok_def, rule_format, OF assms(2)]
  by simp_all

lemma pda_okD:
  assumes "runtime_ok rt"
  shows "validator_key rt w = validator_key rt w' \<longleftrightarrow> w = w'"
    and "validator_key rt w \<noteq> bridge_vault_key rt" and "bridge_vault_key rt \<noteq> validator_key rt w"
    and "validator_key rt w \<noteq> slashed_funds_vault_key rt"
    and "slashed_funds_vault_key rt \<noteq> validator_key rt w"
    and "validator_key rt w \<noteq> nullifier_key rt n" and "nullifier_key rt n \<noteq> validator_key rt w"
    and "nullifier_key rt n \<noteq> bridge_vault_key rt" and "bridge_vault_key rt \<noteq> nullifier_key rt n"
    and "slashed_funds_vault_key rt \<noteq> bridge_vault_key rt"
    and "bridge_vault_key rt \<noteq> slashed_funds_vault_key rt"
    and "program_id rt \<noteq> system_program_id rt"
  using runtime_okD(2) [OF assms] unfolding pda_ok_def by (simp_all add: inj_eq not_sym)

lemma signer_ok_keys [simp]:
  assumes "signer_ok rt k"
  shows "validator_key rt w \<noteq> k" "bridge_vault_key rt \<noteq> k" "slashed_funds_vault_key rt \<noteq> k"
    "k \<noteq> validator_key rt w" "k \<noteq> bridge_vault_key rt" "k \<noteq> slashed_funds_vault_key rt"
    "nullifier_key rt n \<noteq> k" "k \<noteq> nullifier_key rt n"
  using assms
  by (auto simp: signer_ok_def validator_key_def bridge_vault_key_def
      slashed_funds_vault_key_def nullifier_key_def)

text \<open>
  The constraints an accounts struct declares, as guards: \<open>Account<T>\<close> must be initialised,
  \<open>SystemAccount\<close> must be owned by the system program, \<open>init\<close> creates an account that must not
  exist yet and assigns it to the program, \<open>close\<close> drains it and returns it to the system
  program.
\<close>

definition load_account :: "'a option \<Rightarrow> ('a, error) result" where
  "load_account x = ok_or x (Anchor AccountNotInitialized)"

definition require_system_account :: "runtime \<Rightarrow> chain \<Rightarrow> pubkey \<Rightarrow> (unit, error) result" where
  "require_system_account rt c k =
     require (account_owner c k = system_program_id rt) (Anchor AccountNotSystemOwned)"

definition require_fresh :: "'a option \<Rightarrow> (unit, error) result" where
  "require_fresh x = require (x = None) (Anchor AccountAlreadyInUse)"

definition init_pda ::
  "runtime \<Rightarrow> pubkey \<Rightarrow> pubkey \<Rightarrow> nat \<Rightarrow> chain \<Rightarrow> (chain, error) result" where
  "init_pda rt payer k space c =
     and_then (ok_or (anchor_init rt payer k space (lamports c)) Cpi) (\<lambda>lam.
       Ok (c\<lparr>lamports := lam, account_owner := (account_owner c)(k := program_id rt)\<rparr>))"

definition close_pda :: "runtime \<Rightarrow> pubkey \<Rightarrow> pubkey \<Rightarrow> chain \<Rightarrow> (chain, error) result" where
  "close_pda rt k dest c =
     and_then (ok_or (anchor_close rt k dest (lamports c)) Cpi) (\<lambda>lam.
       Ok (c\<lparr>lamports := lam, account_owner := (account_owner c)(k := system_program_id rt)\<rparr>))"

definition init_token_pda ::
  "runtime \<Rightarrow> pubkey \<Rightarrow> pubkey \<Rightarrow> pubkey \<Rightarrow> pubkey \<Rightarrow> chain \<Rightarrow> (chain, error) result" where
  "init_token_pda rt payer k mint authority c =
     and_then (ok_or (init_token_account rt payer k mint authority (lamports c, tokens c)) Cpi)
       (\<lambda>(lam, ts). Ok (c\<lparr>lamports := lam, tokens := ts\<rparr>))"

definition transfer_lamports ::
  "runtime \<Rightarrow> pubkey \<Rightarrow> pubkey \<Rightarrow> u64 \<Rightarrow> chain \<Rightarrow> (chain, error) result" where
  "transfer_lamports rt src dst amount c =
     and_then (ok_or (system_transfer rt src dst amount (lamports c)) Cpi)
       (\<lambda>lam. Ok (c\<lparr>lamports := lam\<rparr>))"

text \<open>
  Direct lamport arithmetic on an account the program owns (\<open>-=\<close> and \<open>+=\<close> on
  \<open>try_borrow_mut_lamports\<close>); the program is built with \<open>overflow-checks\<close>, so it panics instead of
  wrapping.
\<close>

definition debit_lamports :: "pubkey \<Rightarrow> u64 \<Rightarrow> chain \<Rightarrow> (chain, error) result" where
  "debit_lamports k amount c =
     and_then (ok_or (checked_sub (lamports c k) amount) Panic) (\<lambda>v.
     Ok (c\<lparr>lamports := (lamports c)(k := v)\<rparr>))"

definition credit_lamports :: "pubkey \<Rightarrow> u64 \<Rightarrow> chain \<Rightarrow> (chain, error) result" where
  "credit_lamports k amount c =
     and_then (ok_or (checked_add (lamports c k) amount) Panic) (\<lambda>v.
     Ok (c\<lparr>lamports := (lamports c)(k := v)\<rparr>))"

lemma init_pda_Ok [rust_simps]:
  "init_pda rt payer k space c = Ok c' \<longleftrightarrow>
     (\<exists>lam. anchor_init rt payer k space (lamports c) = Some lam \<and>
        c' = c\<lparr>lamports := lam, account_owner := (account_owner c)(k := program_id rt)\<rparr>)"
  by (auto simp: init_pda_def and_then_eq_Ok ok_or_eq_Ok)

lemma close_pda_Ok [rust_simps]:
  "close_pda rt k dest c = Ok c' \<longleftrightarrow>
     (\<exists>lam. anchor_close rt k dest (lamports c) = Some lam \<and>
        c' = c\<lparr>lamports := lam,
               account_owner := (account_owner c)(k := system_program_id rt)\<rparr>)"
  by (auto simp: close_pda_def and_then_eq_Ok ok_or_eq_Ok)

lemma init_token_pda_Ok [rust_simps]:
  "init_token_pda rt payer k mint authority c = Ok c' \<longleftrightarrow>
     (\<exists>lam ts. init_token_account rt payer k mint authority (lamports c, tokens c) = Some (lam, ts) \<and>
        c' = c\<lparr>lamports := lam, tokens := ts\<rparr>)"
  by (auto simp: init_token_pda_def and_then_eq_Ok ok_or_eq_Ok)

lemma transfer_lamports_Ok [rust_simps]:
  "transfer_lamports rt src dst amount c = Ok c' \<longleftrightarrow>
     (\<exists>lam. system_transfer rt src dst amount (lamports c) = Some lam \<and> c' = c\<lparr>lamports := lam\<rparr>)"
  by (auto simp: transfer_lamports_def and_then_eq_Ok ok_or_eq_Ok)

lemma debit_lamports_Ok [rust_simps]:
  "debit_lamports k amount c = Ok c' \<longleftrightarrow>
     (\<exists>v. checked_sub (lamports c k) amount = Some v \<and> c' = c\<lparr>lamports := (lamports c)(k := v)\<rparr>)"
  by (auto simp: debit_lamports_def and_then_eq_Ok ok_or_eq_Ok)

lemma credit_lamports_Ok [rust_simps]:
  "credit_lamports k amount c = Ok c' \<longleftrightarrow>
     (\<exists>v. checked_add (lamports c k) amount = Some v \<and> c' = c\<lparr>lamports := (lamports c)(k := v)\<rparr>)"
  by (auto simp: credit_lamports_def and_then_eq_Ok ok_or_eq_Ok)

lemma load_account_Ok [rust_simps]: "load_account x = Ok v \<longleftrightarrow> x = Some v"
  by (simp add: load_account_def rust_simps)

lemma load_account_Some [simp]: "load_account (Some v) = Ok v"
  by (simp add: load_account_def)

lemma load_account_None [simp]: "load_account None = Err (Anchor AccountNotInitialized)"
  by (simp add: load_account_def)

lemma require_system_account_Ok [rust_simps]:
  "require_system_account rt c k = Ok u \<longleftrightarrow> account_owner c k = system_program_id rt"
  by (simp add: require_system_account_def rust_simps)

lemma require_fresh_Ok [rust_simps]: "require_fresh x = Ok u \<longleftrightarrow> x = None"
  by (simp add: require_fresh_def rust_simps)

end
