(* ===== verification/Zero_Hashes.thy ===== *)
theory Zero_Hashes
  imports Program_Types
begin

text \<open>
  The table \<open>ZERO_HASHES\<close> of \<open>programs/paraloom/src/merkle_tree.rs\<close>, byte for byte: entry
  \<open>k\<close> is the hash of an empty subtree of height \<open>k\<close>.
\<close>

definition ZERO_HASHES :: "bytes32 list" where
  "ZERO_HASHES =
    [
     [0, 0, 0, 0, 0, 0, 0, 0, 0, 0, 0, 0, 0, 0, 0, 0, 0, 0, 0, 0, 0, 0, 0, 0, 0, 0, 0, 0, 0,
      0, 0, 0],
     [100, 72, 182, 70, 132, 238, 57, 168, 35, 213, 254, 95, 213, 36, 49, 220, 129, 228, 129,
      123, 242, 195, 234, 60, 171, 158, 35, 158, 251, 245, 152, 32],
     [225, 241, 177, 96, 68, 119, 164, 103, 240, 141, 198, 157, 203, 68, 26, 38, 236, 167,
      132, 245, 111, 26, 48, 223, 99, 34, 177, 205, 61, 103, 105, 16],
     [56, 210, 86, 184, 178, 126, 213, 40, 213, 29, 55, 80, 234, 110, 124, 70, 6, 33, 247, 80,
      141, 117, 61, 46, 175, 226, 126, 83, 49, 51, 244, 24],
     [42, 149, 188, 157, 85, 151, 172, 202, 101, 130, 86, 26, 87, 40, 183, 241, 69, 35, 165,
      59, 233, 255, 32, 99, 211, 176, 23, 203, 55, 216, 249, 7],
     [85, 63, 24, 57, 22, 236, 92, 123, 77, 173, 178, 148, 140, 197, 153, 166, 7, 41, 243, 93,
      76, 31, 99, 201, 245, 179, 70, 135, 94, 207, 148, 43],
     [120, 157, 160, 46, 163, 221, 17, 29, 97, 83, 185, 81, 105, 30, 215, 254, 188, 225, 169,
      204, 34, 125, 234, 70, 150, 69, 102, 166, 197, 147, 238, 45],
     [157, 52, 135, 60, 190, 170, 164, 168, 127, 172, 181, 140, 168, 21, 5, 139, 123, 89, 57,
      182, 30, 96, 207, 130, 233, 132, 43, 162, 229, 149, 130, 7],
     [97, 204, 243, 153, 58, 190, 76, 68, 26, 33, 65, 74, 39, 46, 107, 97, 42, 71, 100, 69,
      134, 236, 27, 80, 166, 39, 96, 143, 241, 229, 165, 47],
     [71, 215, 252, 20, 166, 86, 33, 62, 171, 40, 226, 227, 204, 122, 94, 228, 102, 31, 148,
      158, 56, 128, 183, 236, 33, 253, 216, 208, 118, 67, 136, 14],
     [242, 10, 25, 218, 229, 117, 97, 222, 51, 53, 113, 87, 249, 146, 88, 249, 105, 180, 46,
      165, 209, 122, 113, 40, 30, 79, 73, 114, 218, 1, 114, 27],
     [54, 118, 125, 206, 250, 107, 188, 190, 181, 8, 8, 101, 228, 225, 230, 166, 25, 152, 36,
      1, 178, 192, 0, 82, 56, 54, 94, 114, 34, 136, 141, 31],
     [90, 248, 181, 113, 4, 154, 135, 208, 168, 136, 207, 42, 161, 176, 98, 97, 251, 252, 140,
      186, 137, 21, 112, 185, 175, 75, 145, 108, 246, 130, 93, 44],
     [208, 191, 191, 224, 112, 242, 88, 100, 100, 244, 19, 161, 170, 196, 245, 78, 19, 161,
      63, 223, 90, 127, 149, 32, 184, 11, 148, 160, 72, 65, 197, 20],
     [12, 232, 235, 244, 75, 142, 17, 22, 212, 137, 173, 140, 88, 37, 190, 17, 175, 185, 216,
      68, 238, 192, 16, 30, 150, 111, 152, 47, 177, 51, 13, 25],
     [146, 108, 224, 37, 147, 100, 179, 165, 10, 81, 175, 150, 101, 174, 103, 17, 237, 115,
      173, 20, 73, 53, 23, 172, 82, 65, 112, 206, 169, 138, 249, 34],
     [35, 115, 186, 139, 211, 83, 183, 248, 238, 204, 110, 198, 41, 111, 82, 90, 87, 106, 191,
      114, 141, 34, 111, 159, 11, 136, 229, 108, 155, 124, 124, 42],
     [146, 185, 54, 63, 100, 221, 117, 77, 149, 139, 152, 194, 201, 67, 0, 71, 252, 63, 70,
      77, 193, 249, 122, 198, 193, 142, 105, 88, 229, 134, 129, 46],
     [15, 241, 31, 28, 157, 36, 70, 53, 39, 146, 115, 100, 173, 110, 239, 138, 148, 174, 13,
      5, 207, 200, 226, 73, 171, 78, 154, 30, 87, 197, 87, 15],
     [202, 44, 247, 52, 97, 227, 156, 60, 228, 70, 125, 105, 16, 227, 120, 254, 28, 14, 128,
      136, 67, 61, 246, 213, 74, 85, 251, 181, 103, 238, 48, 24],
     [62, 31, 25, 34, 223, 182, 113, 211, 249, 18, 247, 234, 70, 30, 10, 136, 238, 132, 143,
      221, 225, 43, 108, 24, 171, 26, 210, 197, 106, 231, 52, 33],
     [177, 165, 145, 219, 243, 141, 143, 143, 168, 58, 238, 88, 201, 216, 81, 192, 176, 89,
      56, 243, 102, 216, 235, 254, 79, 188, 78, 132, 236, 144, 223, 25],
     [43, 229, 239, 34, 247, 5, 140, 100, 180, 18, 73, 239, 147, 14, 175, 116, 45, 133, 132,
      253, 174, 105, 30, 152, 135, 7, 92, 107, 166, 162, 204, 24],
     [141, 83, 210, 73, 69, 100, 5, 223, 250, 131, 173, 239, 242, 56, 131, 98, 58, 71, 79,
      213, 210, 4, 19, 77, 27, 13, 35, 21, 148, 144, 136, 35],
     [64, 213, 158, 82, 228, 115, 230, 150, 29, 11, 141, 156, 44, 175, 162, 102, 232, 77, 41,
      181, 67, 245, 232, 233, 192, 108, 123, 169, 180, 31, 23, 39],
     [33, 174, 230, 221, 150, 150, 213, 248, 229, 131, 37, 57, 185, 48, 178, 220, 40, 13, 252,
      116, 188, 160, 17, 87, 253, 41, 246, 64, 5, 101, 246, 47],
     [24, 21, 97, 206, 48, 38, 147, 105, 86, 215, 173, 246, 104, 81, 173, 224, 162, 120, 119,
      39, 245, 247, 2, 89, 233, 145, 212, 67, 241, 88, 12, 18],
     [149, 55, 72, 121, 210, 101, 214, 162, 29, 162, 101, 165, 160, 149, 196, 30, 7, 3, 219,
      229, 213, 83, 248, 123, 176, 33, 63, 13, 183, 254, 33, 31],
     [210, 114, 138, 225, 221, 161, 177, 139, 150, 158, 138, 6, 104, 231, 38, 168, 35, 134,
      106, 246, 192, 140, 99, 76, 225, 53, 19, 167, 95, 144, 190, 36],
     [109, 194, 218, 83, 229, 116, 76, 116, 40, 195, 101, 29, 130, 243, 126, 89, 205, 212, 87,
      173, 222, 234, 12, 197, 145, 116, 209, 46, 182, 102, 134, 15],
     [239, 89, 25, 14, 35, 42, 26, 61, 180, 140, 224, 106, 63, 122, 122, 78, 89, 65, 28, 26,
      74, 63, 65, 52, 176, 152, 45, 245, 107, 212, 24, 9],
     [242, 95, 92, 55, 173, 19, 133, 18, 101, 90, 252, 10, 13, 249, 38, 46, 250, 77, 64, 94,
      100, 23, 105, 231, 205, 158, 71, 76, 27, 176, 190, 27],
     [217, 234, 52, 151, 76, 24, 142, 172, 213, 25, 177, 42, 146, 185, 96, 213, 30, 85, 245,
      223, 97, 108, 122, 161, 66, 126, 37, 142, 197, 161, 104, 47]
    ]"

lemma length_ZERO_HASHES [simp]: "length ZERO_HASHES = TREE_DEPTH + 1"
  by (simp add: ZERO_HASHES_def TREE_DEPTH_def)

lemma ZERO_HASHES_0 [simp]: "ZERO_HASHES ! 0 = zero32"
  by (simp add: ZERO_HASHES_def zero32_def eval_nat_numeral)

lemma ZERO_HASHES_length32: "k \<le> TREE_DEPTH \<Longrightarrow> length (ZERO_HASHES ! k) = 32"
proof -
  have "\<forall>z \<in> set ZERO_HASHES. length z = 32" by (simp add: ZERO_HASHES_def)
  then show "k \<le> TREE_DEPTH \<Longrightarrow> length (ZERO_HASHES ! k) = 32" by (simp add: nth_mem)
qed

lemma distinct_ZERO_HASHES: "distinct ZERO_HASHES"
  by code_simp

end
