(* ===== verification/Reference_Runtime.thy ===== *)
theory Reference_Runtime
  imports Runtime Zero_Hashes
begin

text \<open>
  A concrete, executable runtime that satisfies every documented law of \<open>Runtime\<close>: exact
  system and token transfers, rent of one lamport per byte, addresses that spell out their
  seeds, the real field arithmetic, and simple stand-ins for the hash functions and the
  pairing. It shows that the laws are consistent and serves the concrete examples.
\<close>

section \<open>The instance\<close>

definition ref_poseidon :: "bytes list \<Rightarrow> bytes option" where
  "ref_poseidon xs =
     Some (case xs of
        [a, b] \<Rightarrow>
          (if a = b then
             (case map_of (zip (butlast ZERO_HASHES) (tl ZERO_HASHES)) a of
                Some z \<Rightarrow> z | None \<Rightarrow> le_bytes 32 ((3 * le_val a + 7) mod fr_modulus))
           else le_bytes 32 ((2 * le_val a + le_val b + 5) mod fr_modulus))
      | _ \<Rightarrow> le_bytes 32 (sum_list (map le_val xs) mod fr_modulus))"

definition ref_system_transfer :: "pubkey \<Rightarrow> pubkey \<Rightarrow> u64 \<Rightarrow> balances \<Rightarrow> balances option" where
  "ref_system_transfer from to amount lam =
     (if amount \<le> lam from then
        if from = to then Some lam
        else (case checked_add (lam to) amount of
                None \<Rightarrow> None
              | Some v \<Rightarrow> Some (lam(from := lam from - amount, to := v)))
      else None)"

definition ref_anchor_init :: "pubkey \<Rightarrow> pubkey \<Rightarrow> nat \<Rightarrow> balances \<Rightarrow> balances option" where
  "ref_anchor_init payer acct space lam =
     (let missing = saturating_sub (of_nat space) (lam acct)
      in ref_system_transfer payer acct missing lam)"

definition ref_anchor_close :: "pubkey \<Rightarrow> pubkey \<Rightarrow> balances \<Rightarrow> balances option" where
  "ref_anchor_close acct dest lam = ref_system_transfer acct dest (lam acct) lam"

definition ref_init_token_account ::
  "pubkey \<Rightarrow> pubkey \<Rightarrow> pubkey \<Rightarrow> pubkey \<Rightarrow> balances \<times> token_accounts
     \<Rightarrow> (balances \<times> token_accounts) option" where
  "ref_init_token_account payer acct mint owner st =
     (case ref_anchor_init payer acct 165 (fst st) of
        None \<Rightarrow> None
      | Some lam \<Rightarrow>
          Some (lam, (snd st)(acct \<mapsto> \<lparr> ta_mint = mint, ta_owner = owner, ta_amount = 0 \<rparr>)))"

definition ref_transfer_checked ::
  "pubkey \<Rightarrow> pubkey \<Rightarrow> pubkey \<Rightarrow> pubkey \<Rightarrow> u64 \<Rightarrow> u8 \<Rightarrow> token_accounts \<Rightarrow> token_accounts option" where
  "ref_transfer_checked from mint to authority amount decimals ts =
     (case (ts from, ts to) of
        (Some a, Some b) \<Rightarrow>
          if ta_mint a = mint \<and> ta_mint b = mint \<and> ta_owner a = authority \<and>
             amount \<le> ta_amount a
          then if from = to then Some ts
               else (case checked_add (ta_amount b) amount of
                       None \<Rightarrow> None
                     | Some v \<Rightarrow> Some (ts(from \<mapsto> a\<lparr>ta_amount := ta_amount a - amount\<rparr>,
                                          to \<mapsto> b\<lparr>ta_amount := v\<rparr>)))
          else None
      | _ \<Rightarrow> None)"

definition ref_token_burn ::
  "pubkey \<Rightarrow> pubkey \<Rightarrow> pubkey \<Rightarrow> u64 \<Rightarrow> token_accounts \<Rightarrow> token_accounts option" where
  "ref_token_burn mint from authority amount ts =
     (case ts from of
        Some a \<Rightarrow>
          if ta_mint a = mint \<and> ta_owner a = authority \<and> amount \<le> ta_amount a
          then Some (ts(from \<mapsto> a\<lparr>ta_amount := ta_amount a - amount\<rparr>)) else None
      | None \<Rightarrow> None)"

text \<open>The serialised validator account: an 8-byte tag, then the fields in order, integers as
  eight little-endian bytes.\<close>

definition ref_validator_discriminator :: bytes where
  "ref_validator_discriminator = replicate 8 7"

definition ref_validator_serialize :: "ValidatorAccount \<Rightarrow> bytes" where
  "ref_validator_serialize va =
     ref_validator_discriminator @ va_validator va @
     u64_to_le_bytes (va_stake_amount va) @ u64_to_le_bytes (va_reputation_score va) @
     u64_to_le_bytes (va_total_tasks_verified va) @
     u64_to_le_bytes (va_successful_verifications va) @
     u64_to_le_bytes (va_registered_at va) @ u64_to_le_bytes (va_last_active va) @
     [if va_is_active va then 1 else 0] @
     u64_to_le_bytes (va_pending_rewards va) @ u64_to_le_bytes (va_total_earnings va) @
     u64_to_le_bytes (va_times_slashed va) @ u64_to_le_bytes (va_unbonding_amount va) @
     u64_to_le_bytes (va_unbonding_slot va) @ u64_to_le_bytes (va_token_stake_amount va) @
     u64_to_le_bytes (va_token_unbonding_amount va)"

definition u64_at :: "nat \<Rightarrow> bytes \<Rightarrow> u64" where
  "u64_at i data = u64_from_le_bytes (take 8 (drop i data))"

definition ref_validator_try_deserialize :: "bytes \<Rightarrow> ValidatorAccount option" where
  "ref_validator_try_deserialize data =
     (if length data = 8 + ValidatorAccount_INIT_SPACE \<and> take 8 data = ref_validator_discriminator
      then Some \<lparr> va_validator = take 32 (drop 8 data), va_stake_amount = u64_at 40 data,
        va_reputation_score = u64_at 48 data, va_total_tasks_verified = u64_at 56 data,
        va_successful_verifications = u64_at 64 data, va_registered_at = u64_at 72 data,
        va_last_active = u64_at 80 data, va_is_active = (data ! 88 = 1),
        va_pending_rewards = u64_at 89 data, va_total_earnings = u64_at 97 data,
        va_times_slashed = u64_at 105 data, va_unbonding_amount = u64_at 113 data,
        va_unbonding_slot = u64_at 121 data, va_token_stake_amount = u64_at 129 data,
        va_token_unbonding_amount = u64_at 137 data \<rparr>
      else None)"

lemma ref_validator_roundtrip:
  assumes "length (va_validator va) = 32"
  shows "ref_validator_try_deserialize (ref_validator_serialize va) = Some va"
  using assms
  by (simp add: ref_validator_try_deserialize_def ref_validator_serialize_def u64_at_def
      ref_validator_discriminator_def ValidatorAccount_INIT_SPACE_def nth_append)

definition ref_runtime :: runtime where
  "ref_runtime =
     \<lparr> fr_from_le_bytes_mod_order = (\<lambda>bs. le_val bs mod fr_modulus),
       fr_from_u64 = unat,
       fr_neg = (\<lambda>x. (fr_modulus - x) mod fr_modulus),
       fr_to_bytes_le = le_bytes 32,
       fr_to_bytes_be = (\<lambda>x. rev (le_bytes 32 x)),
       biguint_from_bytes_be = (\<lambda>bs. le_val (rev bs)),
       poseidon_hashv = ref_poseidon,
       sha256_hashv = (\<lambda>xs. le_bytes 32 (le_val (concat xs))),
       alt_bn128_multiplication = (\<lambda>bs. Some (take 64 bs)),
       alt_bn128_addition = (\<lambda>bs. Some (take 64 bs)),
       alt_bn128_pairing = (\<lambda>bs. Some (replicate 31 0 @ [1])),
       program_id = replicate 32 9,
       system_program_id = zero32,
       bpf_loader_upgradeable_id = replicate 32 8,
       find_program_address = (\<lambda>seeds prog. 255 # concat seeds),
       find_program_bump = (\<lambda>seeds prog. 255),
       minimum_balance = (\<lambda>space. of_nat space),
       system_transfer = ref_system_transfer,
       anchor_init = ref_anchor_init,
       anchor_close = ref_anchor_close,
       init_token_account = ref_init_token_account,
       transfer_checked = ref_transfer_checked,
       token_burn = ref_token_burn,
       registry_discriminator = replicate 8 5,
       validator_discriminator = ref_validator_discriminator,
       validator_try_deserialize = ref_validator_try_deserialize \<rparr>"

lemma ref_runtime_sel [simp]:
  "fr_from_le_bytes_mod_order ref_runtime = (\<lambda>bs. le_val bs mod fr_modulus)"
  "fr_from_u64 ref_runtime = unat"
  "fr_neg ref_runtime = (\<lambda>x. (fr_modulus - x) mod fr_modulus)"
  "fr_to_bytes_le ref_runtime = le_bytes 32"
  "fr_to_bytes_be ref_runtime = (\<lambda>x. rev (le_bytes 32 x))"
  "biguint_from_bytes_be ref_runtime = (\<lambda>bs. le_val (rev bs))"
  "poseidon_hashv ref_runtime = ref_poseidon"
  "sha256_hashv ref_runtime = (\<lambda>xs. le_bytes 32 (le_val (concat xs)))"
  "alt_bn128_multiplication ref_runtime = (\<lambda>bs. Some (take 64 bs))"
  "alt_bn128_addition ref_runtime = (\<lambda>bs. Some (take 64 bs))"
  "alt_bn128_pairing ref_runtime = (\<lambda>bs. Some (replicate 31 0 @ [1]))"
  "program_id ref_runtime = replicate 32 9"
  "system_program_id ref_runtime = zero32"
  "bpf_loader_upgradeable_id ref_runtime = replicate 32 8"
  "find_program_address ref_runtime = (\<lambda>seeds prog. 255 # concat seeds)"
  "find_program_bump ref_runtime = (\<lambda>seeds prog. 255)"
  "minimum_balance ref_runtime = (\<lambda>space. of_nat space)"
  "system_transfer ref_runtime = ref_system_transfer"
  "anchor_init ref_runtime = ref_anchor_init"
  "anchor_close ref_runtime = ref_anchor_close"
  "init_token_account ref_runtime = ref_init_token_account"
  "transfer_checked ref_runtime = ref_transfer_checked"
  "token_burn ref_runtime = ref_token_burn"
  "validator_discriminator ref_runtime = ref_validator_discriminator"
  "validator_try_deserialize ref_runtime = ref_validator_try_deserialize"
  by (simp_all add: ref_runtime_def)

section \<open>It satisfies the laws\<close>

lemma ref_ark_fr_ok [simp]: "ark_fr_ok ref_runtime"
proof -
  have "unat x < fr_modulus" for x :: u64
    using unat_u64_bound [of x] by (simp add: fr_modulus_def)
  then show ?thesis by (simp add: ark_fr_ok_def)
qed

lemma ref_system_program_ok [simp]: "system_program_ok ref_runtime"
  unfolding system_program_ok_def
proof (intro allI impI)
  fix src dst amount and lam lam' :: balances
  assume "system_transfer ref_runtime src dst amount lam = Some lam'"
  then show "amount \<le> lam src \<and> (src = dst \<longrightarrow> lam' = lam) \<and>
      (src \<noteq> dst \<longrightarrow> unat (lam dst) + unat amount < 2 ^ 64 \<and>
        lam' = lam(src := lam src - amount, dst := lam dst + amount))"
    by (auto simp: ref_system_transfer_def checked_add_def split: if_splits option.splits)
qed

lemma ref_system_transferD:
  assumes "ref_system_transfer src dst amount lam = Some lam'" and "src \<noteq> dst"
  shows "unat (lam' src) + unat amount = unat (lam src)"
    and "unat (lam' dst) = unat (lam dst) + unat amount"
    and "k \<noteq> src \<Longrightarrow> k \<noteq> dst \<Longrightarrow> lam' k = lam k"
  using system_transferD [of ref_runtime src dst amount lam lam'] assms by simp_all

lemma ref_anchor_ok [simp]: "anchor_ok ref_runtime"
proof -
  have init: "(of_nat space :: u64) \<le> lam' acct \<and> lam acct \<le> lam' acct \<and>
      unat (lam' payer) + unat (lam' acct) = unat (lam payer) + unat (lam acct) \<and>
      (\<forall>k. k \<noteq> payer \<longrightarrow> k \<noteq> acct \<longrightarrow> lam' k = lam k)"
    if "payer \<noteq> acct" "ref_anchor_init payer acct space lam = Some lam'"
    for payer acct space and lam lam' :: balances
    using ref_system_transferD [OF that(2) [unfolded ref_anchor_init_def Let_def] that(1)]
    by (auto simp: word_le_nat_alt unat_saturating_sub)
  have close: "unat (lam acct) + unat (lam dest) < 2 ^ 64 \<and>
      lam' = lam(acct := 0, dest := lam dest + lam acct)"
    if "acct \<noteq> dest" "ref_anchor_close acct dest lam = Some lam'"
    for acct dest and lam lam' :: balances
  proof -
    have "unat (lam dest) + unat (lam acct) < 2 ^ 64 \<and>
        lam' = lam(acct := lam acct - lam acct, dest := lam dest + lam acct)"
      using ref_system_program_ok that
      unfolding ref_anchor_close_def system_program_ok_def ref_runtime_sel by blast
    then show ?thesis by (simp add: add.commute)
  qed
  show ?thesis unfolding anchor_ok_def anchor_init_ok_def anchor_close_ok_def
    using init close by simp
qed

lemma ref_token_program_ok [simp]: "token_program_ok ref_runtime"
proof -
  have transfer: "token_meta ts' = token_meta ts \<and>
      token_balance ts src = token_balance ts' src + unat amount \<and>
      token_balance ts dst \<le> token_balance ts' dst \<and>
      token_balance ts' dst \<le> token_balance ts dst + unat amount \<and>
      (\<forall>k. k \<noteq> src \<longrightarrow> k \<noteq> dst \<longrightarrow> ts' k = ts k)"
    if "src \<noteq> dst" "ref_transfer_checked src mint dst auth amount dec ts = Some ts'"
    for src mint dst auth amount dec ts ts'
    using that
    by (auto simp: ref_transfer_checked_def token_meta_def token_balance_def checked_simps
        unat_minus_no_wrap word_le_nat_alt intro!: ext split: option.splits if_splits)
  have burn: "token_meta ts' = token_meta ts \<and>
      token_balance ts src = token_balance ts' src + unat amount \<and>
      (\<forall>k. k \<noteq> src \<longrightarrow> ts' k = ts k)"
    if "ref_token_burn mint src auth amount ts = Some ts'" for mint src auth amount ts ts'
    using that
    by (auto simp: ref_token_burn_def token_meta_def token_balance_def
        unat_minus_no_wrap word_le_nat_alt intro!: ext split: option.splits if_splits)
  have init: "ts' = ts(acct \<mapsto> \<lparr> ta_mint = mint, ta_owner = auth, ta_amount = 0 \<rparr>) \<and>
      (\<forall>k. k \<noteq> payer \<longrightarrow> lam k \<le> lam' k)"
    if "ref_init_token_account payer acct mint auth (lam, ts) = Some (lam', ts')"
    for payer acct mint auth and lam lam' :: balances and ts ts'
  proof -
    from that obtain miss where t: "ref_system_transfer payer acct miss lam = Some lam'"
      and ts': "ts' = ts(acct \<mapsto> \<lparr> ta_mint = mint, ta_owner = auth, ta_amount = 0 \<rparr>)"
      by (auto simp: ref_init_token_account_def ref_anchor_init_def Let_def split: option.splits)
    have "lam k \<le> lam' k" if "k \<noteq> payer" for k
      using that system_transferD [of ref_runtime payer acct miss lam lam'] t
      by (cases "payer = acct"; cases "k = acct") (auto simp: word_le_nat_alt)
    then show ?thesis using ts' by simp
  qed
  show ?thesis
    unfolding token_program_ok_def transfer_checked_ok_def token_burn_ok_def init_token_account_ok_def
    using transfer burn init by simp
qed

lemma ref_pda: "pda ref_runtime seeds = 255 # concat seeds"
  by (simp add: pda_def)

lemma ref_pda_ok [simp]: "pda_ok ref_runtime"
  by (simp add: pda_ok_def zero32_def inj_def validator_key_def bridge_vault_key_def
      slashed_funds_vault_key_def nullifier_key_def ref_pda ascii_def)

lemma ref_runtime_ok [simp]: "runtime_ok ref_runtime"
  by (simp add: runtime_ok_def)

lemma ref_signer_ok: "hd k \<noteq> 255 \<Longrightarrow> signer_ok ref_runtime k"
  by (auto simp: signer_ok_def ref_pda)

lemma ref_zero_hashes:
  assumes "k < TREE_DEPTH"
  shows "ref_poseidon [ZERO_HASHES ! k, ZERO_HASHES ! k] = Some (ZERO_HASHES ! (k + 1))"
proof -
  let ?ks = "butlast ZERO_HASHES" and ?vs = "tl ZERO_HASHES"
  have d: "distinct ?ks" using distinct_ZERO_HASHES by (rule distinct_butlast)
  have "map_of (zip ?ks ?vs) (?ks ! k) = Some (?vs ! k)"
    using assms by (intro map_of_zip_nth d) simp_all
  then show ?thesis using assms by (simp add: ref_poseidon_def nth_butlast nth_tl)
qed

end
