(* ===== verification/Field_Encoding.thy ===== *)
theory Field_Encoding
  imports Reference_Runtime
begin

text \<open>
  The byte encodings at the boundary between the ledger and the circuit
  (\<open>lib.rs\<close>: \<open>require_canonical_field\<close>, \<open>require_canonical_nullifier\<close>,
  \<open>transact_ext_data_hash\<close>, \<open>public_amount_bytes\<close>; \<open>transact_verifier.rs\<close>: \<open>fr_to_be\<close>).
  The ledger keys nullifiers on raw bytes while the proof sees them modulo the field order;
  the lemmas show that the canonicity guard makes the two views agree.
\<close>

section \<open>Definitions\<close>

text \<open>
  \<open>out[..s.len()].copy_from_slice(s)\<close> and \<open>out[n - s.len()..].copy_from_slice(s)\<close> on a zeroed
  \<open>n\<close>-byte array; \<open>None\<close> is the panic on a slice that does not fit.
\<close>

definition copy_to_front :: "nat \<Rightarrow> bytes \<Rightarrow> bytes option" where
  "copy_to_front n s = (if length s \<le> n then Some (s @ replicate (n - length s) 0) else None)"

definition copy_to_back :: "nat \<Rightarrow> bytes \<Rightarrow> bytes option" where
  "copy_to_back n s = (if length s \<le> n then Some (replicate (n - length s) 0 @ s) else None)"

definition require_canonical_field ::
  "'z crypto_scheme \<Rightarrow> bytes32 \<Rightarrow> BridgeError \<Rightarrow> (unit, error) result" where
  "require_canonical_field cr value error =
     (let reduced = fr_from_le_bytes_mod_order cr value;
          canonical = fr_to_bytes_le cr reduced
      in if canonical \<noteq> value then Err (Bridge error) else Ok ())"

definition require_canonical_nullifier ::
  "'z crypto_scheme \<Rightarrow> bytes32 \<Rightarrow> (unit, error) result" where
  "require_canonical_nullifier cr nullifier =
     require_canonical_field cr nullifier NonCanonicalNullifier"

definition transact_ext_data_hash :: "'z crypto_scheme \<Rightarrow> pubkey \<Rightarrow> i64 \<Rightarrow> bytes32" where
  "transact_ext_data_hash cr recipient ext_amount =
     sha256_hashv cr [recipient, u64_to_le_bytes ext_amount]"

definition public_amount_bytes :: "'z crypto_scheme \<Rightarrow> i64 \<Rightarrow> bytes option" where
  "public_amount_bytes cr ext_amount =
     (let magnitude = fr_from_u64 cr (unsigned_abs ext_amount);
          field = (if sint ext_amount < 0 then fr_neg cr magnitude else magnitude)
      in copy_to_front 32 (fr_to_bytes_le cr field))"

definition fr_to_be :: "'z crypto_scheme \<Rightarrow> nat \<Rightarrow> bytes option" where
  "fr_to_be cr f = copy_to_back 32 (fr_to_bytes_be cr f)"

section \<open>The field order\<close>

lemma fr_modulus_pos [simp]: "0 < fr_modulus"
  by (simp add: fr_modulus_def)

lemma fr_modulus_lt_2_256: "fr_modulus < 256 ^ 32"
  by (simp add: fr_modulus_def)

lemma u64_lt_fr_modulus: "unat (x :: u64) < fr_modulus"
  using unat_u64_bound [of x] by (simp add: fr_modulus_def)

lemma ark_frD:
  assumes "ark_fr_ok cr"
  shows "fr_from_le_bytes_mod_order cr bs = le_val bs mod fr_modulus"
    and "fr_from_u64 cr x = unat x"
    and "y < fr_modulus \<Longrightarrow> fr_neg cr y = (fr_modulus - y) mod fr_modulus"
    and "y < fr_modulus \<Longrightarrow> fr_to_bytes_le cr y = le_bytes 32 y"
    and "y < fr_modulus \<Longrightarrow> fr_to_bytes_be cr y = rev (le_bytes 32 y)"
  using assms by (simp_all add: ark_fr_ok_def)

lemma le_val_le_bytes_field: "x < fr_modulus \<Longrightarrow> le_val (le_bytes 32 x) = x"
  using fr_modulus_lt_2_256 by (simp add: le_val_le_bytes)

lemma canonical_encoding_iff:
  "le_bytes 32 (le_val v mod fr_modulus) = v \<longleftrightarrow> length v = 32 \<and> le_val v < fr_modulus"
proof
  assume *: "le_bytes 32 (le_val v mod fr_modulus) = v"
  have "le_val v = le_val v mod fr_modulus"
    by (subst *[symmetric]) (simp add: le_val_le_bytes_field)
  also have "\<dots> < fr_modulus" by simp
  finally have "le_val v < fr_modulus" .
  moreover from * have "length v = 32" by (metis length_le_bytes)
  ultimately show "length v = 32 \<and> le_val v < fr_modulus" by simp
next
  assume "length v = 32 \<and> le_val v < fr_modulus"
  then show "le_bytes 32 (le_val v mod fr_modulus) = v"
    using le_bytes_le_val [of v] by simp
qed

text \<open>Canonicity as a test, before anything is known of the field functions.\<close>

definition canonical_bytes :: "'z crypto_scheme \<Rightarrow> bytes32 \<Rightarrow> bool" where
  "canonical_bytes cr v \<longleftrightarrow> fr_to_bytes_le cr (fr_from_le_bytes_mod_order cr v) = v"

lemma require_canonical_field_eq_Ok [rust_simps]:
  "require_canonical_field cr v e = Ok u \<longleftrightarrow> canonical_bytes cr v"
  by (simp add: require_canonical_field_def canonical_bytes_def Let_def)

lemma require_canonical_nullifier_eq_Ok [rust_simps]:
  "require_canonical_nullifier cr v = Ok u \<longleftrightarrow> canonical_bytes cr v"
  by (simp add: require_canonical_nullifier_def rust_simps)

lemma canonical_bytes_iff:
  "ark_fr_ok cr \<Longrightarrow> canonical_bytes cr v \<longleftrightarrow> length v = 32 \<and> le_val v < fr_modulus"
  using canonical_encoding_iff [of v] by (simp add: canonical_bytes_def ark_frD)

lemma require_canonical_field_Ok:
  assumes "ark_fr_ok cr"
  shows "require_canonical_field cr v e = Ok u \<longleftrightarrow> length v = 32 \<and> le_val v < fr_modulus"
  using canonical_encoding_iff [of v] assms
  by (simp add: require_canonical_field_def ark_frD [OF assms] Let_def)

lemma require_canonical_field_Err:
  assumes "ark_fr_ok cr" and "\<not> (length v = 32 \<and> le_val v < fr_modulus)"
  shows "require_canonical_field cr v e = Err (Bridge e)"
  using canonical_encoding_iff [of v] assms
  by (simp add: require_canonical_field_def ark_frD [OF assms(1)] Let_def)

lemma require_canonical_nullifier_Ok:
  assumes "ark_fr_ok cr"
  shows "require_canonical_nullifier cr v = Ok u \<longleftrightarrow> length v = 32 \<and> le_val v < fr_modulus"
  by (simp add: require_canonical_nullifier_def require_canonical_field_Ok [OF assms])

lemma public_amount_bytes_value:
  assumes "ark_fr_ok cr"
  shows "\<exists>bs. public_amount_bytes cr a = Some bs \<and> length bs = 32 \<and> le_val bs < fr_modulus \<and>
    int (le_val bs) = sint a mod int fr_modulus"
proof -
  note fr = ark_frD [OF assms]
  let ?m = "unat (unsigned_abs a)"
  have m: "?m < fr_modulus" by (rule u64_lt_fr_modulus)
  have abs: "int ?m = \<bar>sint a\<bar>" by (rule unat_unsigned_abs)
  show ?thesis
  proof (cases "sint a < 0")
    case True
    define f where "f = (fr_modulus - ?m) mod fr_modulus"
    have "int f = (int fr_modulus - int ?m) mod int fr_modulus"
      using m by (simp add: f_def zmod_int of_nat_diff)
    also have "\<dots> = sint a mod int fr_modulus"
      using True abs by (simp add: mod_diff_left_eq)
    finally have val: "int f = sint a mod int fr_modulus" .
    have f: "f < fr_modulus" by (simp add: f_def)
    have "public_amount_bytes cr a = Some (le_bytes 32 f)"
      using True f m by (simp add: public_amount_bytes_def fr copy_to_front_def Let_def f_def)
    with f val show ?thesis by (simp add: le_val_le_bytes_field)
  next
    case False
    have "public_amount_bytes cr a = Some (le_bytes 32 ?m)"
      using False m by (simp add: public_amount_bytes_def fr copy_to_front_def Let_def)
    moreover have "int ?m = sint a mod int fr_modulus"
    proof -
      have "sint a = int ?m" using False abs by simp
      then show ?thesis using m by (simp only: zmod_int [symmetric] mod_less)
    qed
    ultimately show ?thesis using m by (simp add: le_val_le_bytes_field)
  qed
qed

lemma sint_cong_modulus_imp_eq:
  assumes "sint (a :: i64) mod int fr_modulus = sint b mod int fr_modulus"
  shows "a = b"
proof -
  have range: "- (2 ^ 63) \<le> sint x \<and> sint x < 2 ^ 63" for x :: i64
    using sint_range_size [of x] by (simp add: word_size)
  have "int fr_modulus dvd sint a - sint b"
    using assms by (simp add: mod_eq_dvd_iff)
  moreover have "\<bar>sint a - sint b\<bar> < int fr_modulus"
    using range [of a] range [of b] unfolding fr_modulus_def by (simp add: abs_less_iff)
  ultimately have "sint a - sint b = 0"
    using dvd_imp_le_int [of "sint a - sint b" "int fr_modulus"] by force
  then have "word_of_int (sint a) = (word_of_int (sint b) :: i64)" by simp
  then show ?thesis by (simp only: of_int_sint scast_id)
qed

lemma fr_to_be_value:
  assumes "ark_fr_ok cr" and "f < fr_modulus"
  shows "fr_to_be cr f = Some (rev (le_bytes 32 f))"
  using assms by (simp add: fr_to_be_def ark_frD copy_to_back_def)

section \<open>Properties\<close>

text \<open>The canonicity guard \<open>require_canonical_field\<close> accepts a value exactly when it is a
  32-byte little-endian number below the BN254 scalar field order, and otherwise rejects it
  with the error code the caller passed.\<close>

theorem canonical_guard_exact:
  assumes "ark_fr_ok cr"
  shows "require_canonical_field cr v e =
    (if length v = 32 \<and> le_val v < fr_modulus then Ok () else Err (Bridge e))"
  using require_canonical_field_Ok [OF assms, of v e "()"]
    require_canonical_field_Err [OF assms, of v e] by simp

theorem canonical_guard_exact_witness:
  "ark_fr_ok ref_runtime \<and>
   require_canonical_field ref_runtime (le_bytes 32 7) NonCanonicalFieldElement = Ok () \<and>
   require_canonical_field ref_runtime (le_bytes 32 fr_modulus) NonCanonicalFieldElement =
     Err (Bridge NonCanonicalFieldElement)"
  using canonical_guard_exact [of ref_runtime "le_bytes 32 7" NonCanonicalFieldElement]
    canonical_guard_exact [of ref_runtime "le_bytes 32 fr_modulus" NonCanonicalFieldElement]
  by (simp add: le_val_le_bytes fr_modulus_def)

text \<open>No replay through the non-injective field lift: two nullifiers that both pass
  \<open>require_canonical_nullifier\<close> and that the proof cannot tell apart (they reduce to the same
  field element) are the same bytes, so they name the same nullifier account.\<close>

theorem canonical_nullifier_no_alias:
  assumes "ark_fr_ok cr"
    and "require_canonical_nullifier cr n = Ok ()"
    and "require_canonical_nullifier cr m = Ok ()"
    and "fr_from_le_bytes_mod_order cr n = fr_from_le_bytes_mod_order cr m"
  shows "n = m \<and> nullifier_key rt n = nullifier_key rt m"
proof -
  from assms have "length n = length m" and "le_val n = le_val m"
    by (simp_all add: require_canonical_nullifier_Ok ark_frD)
  then show ?thesis by (simp add: le_val_inject)
qed

theorem canonical_nullifier_no_alias_witness:
  "let n = le_bytes 32 12345 in
   require_canonical_nullifier ref_runtime n = Ok () \<and>
   fr_from_le_bytes_mod_order ref_runtime n =
     fr_from_le_bytes_mod_order ref_runtime (le_bytes 32 (12345 + fr_modulus)) \<and>
   require_canonical_nullifier ref_runtime (le_bytes 32 (12345 + fr_modulus)) \<noteq> Ok ()"
proof -
  have "le_bytes 32 (12345 + fr_modulus) \<noteq> le_bytes 32 12345"
    by (simp add: le_bytes_inject fr_modulus_def)
  moreover have "require_canonical_nullifier ref_runtime (le_bytes 32 12345) = Ok ()"
    by (simp add: require_canonical_nullifier_Ok le_val_le_bytes fr_modulus_def)
  moreover have "fr_from_le_bytes_mod_order ref_runtime (le_bytes 32 12345) =
      fr_from_le_bytes_mod_order ref_runtime (le_bytes 32 (12345 + fr_modulus))"
    by (simp add: le_val_le_bytes fr_modulus_def)
  ultimately show ?thesis
    using canonical_nullifier_no_alias
      [of ref_runtime "le_bytes 32 12345" "le_bytes 32 (12345 + fr_modulus)"] by auto
qed

text \<open>The public amount derived on chain binds the funds moved to the proof: for every
  signed amount the encoding exists, is canonical, has the value of the amount modulo the
  field order (a withdrawal of \<open>x\<close> is \<open>p - x\<close>), and two amounts share an encoding only if they
  are equal.\<close>

theorem public_amount_binds:
  assumes "ark_fr_ok cr"
  shows "(\<exists>bs. public_amount_bytes cr a = Some bs \<and>
            require_canonical_field cr bs e = Ok () \<and>
            int (le_val bs) = sint a mod int fr_modulus) \<and>
         (public_amount_bytes cr a = public_amount_bytes cr b \<longleftrightarrow> a = b)"
proof -
  from public_amount_bytes_value [OF assms, of a]
  obtain bs where a: "public_amount_bytes cr a = Some bs" "length bs = 32"
    "le_val bs < fr_modulus" "int (le_val bs) = sint a mod int fr_modulus" by blast
  from public_amount_bytes_value [OF assms, of b]
  obtain bs' where b: "public_amount_bytes cr b = Some bs'"
    "int (le_val bs') = sint b mod int fr_modulus" by blast
  have "a = b" if "public_amount_bytes cr a = public_amount_bytes cr b"
    using that a b by (intro sint_cong_modulus_imp_eq) simp
  with a show ?thesis by (auto simp: require_canonical_field_Ok [OF assms])
qed

theorem public_amount_binds_witness:
  "(\<exists>bs. public_amount_bytes ref_runtime (- 5) = Some bs \<and>
      int (le_val bs) = int fr_modulus - 5) \<and>
   public_amount_bytes ref_runtime (- 5) \<noteq> public_amount_bytes ref_runtime 5"
  using public_amount_binds [of ref_runtime "- 5" InvalidAmount 5]
  by (auto simp: fr_modulus_def)

end
