(* ===== verification/Merkle_Hash.thy ===== *)
theory Merkle_Hash
  imports Prelude
begin

text \<open>
  Fixed-depth Merkle trees, independent of the hash. \<open>tree_level\<close> and \<open>tree_root\<close> fold the
  leaves level by level and pad an absent sibling with the empty-subtree hash of its level;
  \<open>full_root\<close> is the mathematical tree over all \<open>2 ^ d\<close> positions. The locale
  \<open>merkle_hasher\<close> states what the two trees of the repository (the on-chain incremental tree
  and the pool's tree) need of their hash, and proves once that the two readings agree, how a
  leaf append changes each level, and that a sibling path reproduces the root.
  The locale \<open>accumulator\<close> is the contract a commitment tree offers to its clients.
\<close>

section \<open>Level-by-level and mathematical roots\<close>

fun pair_up :: "('a \<Rightarrow> 'a \<Rightarrow> 'a) \<Rightarrow> 'a \<Rightarrow> 'a list \<Rightarrow> 'a list" where
  "pair_up node e [] = []"
| "pair_up node e [x] = [node x e]"
| "pair_up node e (x # y # zs) = node x y # pair_up node e zs"

primrec tree_level :: "('a \<Rightarrow> 'a \<Rightarrow> 'a) \<Rightarrow> (nat \<Rightarrow> 'a) \<Rightarrow> nat \<Rightarrow> 'a list \<Rightarrow> 'a list" where
  "tree_level node zero 0 xs = xs"
| "tree_level node zero (Suc k) xs = pair_up node (zero k) (tree_level node zero k xs)"

definition tree_root :: "('a \<Rightarrow> 'a \<Rightarrow> 'a) \<Rightarrow> (nat \<Rightarrow> 'a) \<Rightarrow> nat \<Rightarrow> 'a list \<Rightarrow> 'a" where
  "tree_root node zero d xs =
     (case tree_level node zero d xs of [] \<Rightarrow> zero d | r # _ \<Rightarrow> r)"

primrec full_root :: "('a \<Rightarrow> 'a \<Rightarrow> 'a) \<Rightarrow> nat \<Rightarrow> (nat \<Rightarrow> 'a) \<Rightarrow> 'a" where
  "full_root node 0 f = f 0"
| "full_root node (Suc d) f =
     node (full_root node d f) (full_root node d (\<lambda>i. f (i + 2 ^ d)))"

text \<open>The nodes on the path of a newly appended leaf.\<close>

primrec spine :: "('a \<Rightarrow> 'a \<Rightarrow> 'a) \<Rightarrow> (nat \<Rightarrow> 'a) \<Rightarrow> nat \<Rightarrow> 'a list \<Rightarrow> 'a \<Rightarrow> 'a" where
  "spine node zero 0 xs x = x"
| "spine node zero (Suc k) xs x =
     (let m = length xs div 2 ^ k; c = spine node zero k xs x
      in if even m then node c (zero k) else node (tree_level node zero k xs ! (m - 1)) c)"

text \<open>The sibling of position \<open>i\<close> at a level, the empty-subtree hash if it is absent.\<close>

definition sibling_index :: "nat \<Rightarrow> nat" where
  "sibling_index i = (if odd i then i - 1 else i + 1)"

definition get_or :: "'a \<Rightarrow> 'a list \<Rightarrow> nat \<Rightarrow> 'a" where
  "get_or e xs i = (if i < length xs then xs ! i else e)"

section \<open>Pairing up a level\<close>

lemma div_2_power_Suc: "n div 2 ^ Suc k = n div 2 ^ k div (2 :: nat)"
  by (simp only: power_Suc2 div_mult2_eq)

lemma length_pair_up [simp]: "length (pair_up node e xs) = (length xs + 1) div 2"
  by (induction node e xs rule: pair_up.induct) auto

lemma nth_pair_up:
  "i < (length xs + 1) div 2 \<Longrightarrow>
   pair_up node e xs ! i = node (get_or e xs (2 * i)) (get_or e xs (2 * i + 1))"
proof (induction node e xs arbitrary: i rule: pair_up.induct)
  case (3 node e x y zs)
  then show ?case by (cases i) (auto simp: get_or_def)
qed (auto simp: get_or_def)

lemma pair_up_conv_map:
  "pair_up node e xs =
     map (\<lambda>j. node (get_or e xs (2 * j)) (get_or e xs (2 * j + 1))) [0..<(length xs + 1) div 2]"
  by (rule nth_equalityI) (auto simp: nth_pair_up)

lemma tree_level_Nil [simp]: "tree_level node zero k [] = []"
  by (induction k) auto

lemma tree_root_Nil [simp]: "tree_root node zero d [] = zero d"
  by (simp add: tree_root_def)

lemma length_tree_level_ge: "length xs div 2 ^ k \<le> length (tree_level node zero k xs)"
proof (induction k)
  case (Suc k)
  have "length xs div 2 ^ Suc k = length xs div 2 ^ k div 2"
    by (rule div_2_power_Suc)
  also have "\<dots> \<le> (length (tree_level node zero k xs) + 1) div 2"
    using Suc by (intro div_le_mono) simp
  finally show ?case by simp
qed simp

lemma length_tree_level_le: "length xs \<le> 2 ^ d * c \<Longrightarrow> length (tree_level node zero d xs) \<le> c"
proof (induction d arbitrary: c)
  case (Suc d)
  then have "length (tree_level node zero d xs) \<le> 2 * c" by (simp add: mult.assoc mult.left_commute)
  then show ?case by simp
qed simp

lemma tree_level_index:
  "i < length xs \<Longrightarrow> i div 2 ^ k < length (tree_level node zero k xs)"
proof (induction k)
  case (Suc k)
  have "i div 2 ^ Suc k = i div 2 ^ k div 2" by (rule div_2_power_Suc)
  with Suc show ?case by auto
qed simp

lemma tree_root_conv_nth:
  assumes "i < length xs" and "length xs \<le> 2 ^ d"
  shows "tree_root node zero d xs = tree_level node zero d xs ! (i div 2 ^ d)"
proof -
  have "i div 2 ^ d = 0" using assms by simp
  moreover have "0 < length (tree_level node zero d xs)"
    using tree_level_index [OF assms(1), of d node zero] by linarith
  ultimately show ?thesis by (cases "tree_level node zero d xs") (auto simp: tree_root_def)
qed

section \<open>Appending a leaf\<close>

lemma pair_up_append_even:
  "even (length xs) \<Longrightarrow> pair_up node e (xs @ ys) = pair_up node e xs @ pair_up node e ys"
  by (induction node e xs rule: pair_up.induct) auto

lemma take_pair_up_even:
  assumes "even m" and "m \<le> length ys"
  shows "take (m div 2) (pair_up node e ys) = pair_up node e (take m ys)"
proof -
  have "pair_up node e ys = pair_up node e (take m ys) @ pair_up node e (drop m ys)"
    using assms pair_up_append_even [of "take m ys" node e "drop m ys"] by simp
  moreover have "length (pair_up node e (take m ys)) = m div 2" using assms by auto
  ultimately show ?thesis by simp
qed

lemma pair_up_snoc_even:
  assumes "even m" and "m \<le> length ys"
  shows "pair_up node e (take m ys @ [c]) = take (m div 2) (pair_up node e ys) @ [node c e]"
  using assms by (simp add: take_pair_up_even pair_up_append_even)

lemma pair_up_snoc_odd:
  assumes "odd m" and "m \<le> length ys"
  shows "pair_up node e (take m ys @ [c]) =
    take (m div 2) (pair_up node e ys) @ [node (ys ! (m - 1)) c]"
proof -
  from assms(1) obtain j where j: "m = Suc (2 * j)" by (auto elim: oddE)
  have "take m ys @ [c] = take (2 * j) ys @ [ys ! (2 * j), c]"
    using assms(2) j by (simp add: take_Suc_conv_app_nth)
  then show ?thesis
    using assms(2) j take_pair_up_even [of "2 * j" ys node e]
    by (simp add: pair_up_append_even)
qed

lemma tree_level_snoc:
  "tree_level node zero k (xs @ [x]) =
     take (length xs div 2 ^ k) (tree_level node zero k xs) @ [spine node zero k xs x]"
proof (induction k)
  case (Suc k)
  let ?m = "length xs div 2 ^ k" and ?ys = "tree_level node zero k xs"
  have m: "length xs div 2 ^ Suc k = ?m div 2" by (rule div_2_power_Suc)
  have "?m \<le> length ?ys" by (rule length_tree_level_ge)
  then show ?case
    using Suc unfolding m
    by (cases "even ?m") (simp_all add: pair_up_snoc_even pair_up_snoc_odd Let_def)
qed simp

lemma tree_root_snoc:
  assumes "length xs < 2 ^ d"
  shows "tree_root node zero d (xs @ [x]) = spine node zero d xs x"
  using assms by (simp add: tree_root_def tree_level_snoc)

lemma tree_level_snoc_nth:
  assumes "0 < length xs div 2 ^ k"
  shows "tree_level node zero k (xs @ [x]) ! (length xs div 2 ^ k - 1) =
    tree_level node zero k xs ! (length xs div 2 ^ k - 1)"
  using assms length_tree_level_ge [of xs k node zero] by (simp add: tree_level_snoc nth_append)

lemma tree_level_snoc_last:
  "tree_level node zero k (xs @ [x]) ! (length xs div 2 ^ k) = spine node zero k xs x"
  using length_tree_level_ge [of xs k node zero] by (simp add: tree_level_snoc nth_append)

section \<open>Sibling paths\<close>

text \<open>One step up a path: the parent of the node at \<open>i\<close>, from the node and its sibling.\<close>

lemma tree_level_step:
  fixes node :: "'a \<Rightarrow> 'a \<Rightarrow> 'a" and zero :: "nat \<Rightarrow> 'a"
  defines "lvl \<equiv> tree_level node zero"
  assumes "i < length (lvl k xs)"
  shows "lvl (Suc k) xs ! (i div 2) =
    (if odd i then node (get_or (zero k) (lvl k xs) (sibling_index i)) (lvl k xs ! i)
     else node (lvl k xs ! i) (get_or (zero k) (lvl k xs) (sibling_index i)))"
proof -
  have "i div 2 < (length (lvl k xs) + 1) div 2" using assms(2) by auto
  then show ?thesis using assms(2) unfolding lvl_def
    by (auto simp: nth_pair_up get_or_def sibling_index_def elim!: oddE evenE)
qed

section \<open>What the trees need of their hash\<close>

lemma full_root_pairs:
  "full_root node (Suc d) f = full_root node d (\<lambda>i. node (f (2 * i)) (f (2 * i + 1)))"
proof (induction d arbitrary: f)
  case 0
  then show ?case by simp
next
  case (Suc d)
  have "full_root node (Suc (Suc d)) f =
      node (full_root node (Suc d) f) (full_root node (Suc d) (\<lambda>i. f (i + 2 ^ Suc d)))"
    by (rule full_root.simps(2))
  also have "\<dots> = node (full_root node d (\<lambda>i. node (f (2 * i)) (f (2 * i + 1))))
      (full_root node d (\<lambda>i. node (f (2 * i + 2 ^ Suc d)) (f (2 * i + 1 + 2 ^ Suc d))))"
    by (simp only: Suc.IH)
  also have "\<dots> = full_root node (Suc d) (\<lambda>i. node (f (2 * i)) (f (2 * i + 1)))"
    by (simp add: algebra_simps)
  finally show ?case .
qed

locale merkle_hasher =
  fixes node :: "'a \<Rightarrow> 'a \<Rightarrow> 'a" and zero :: "nat \<Rightarrow> 'a"
  assumes zero_Suc: "zero (Suc k) = node (zero k) (zero k)"
begin

lemma full_root_level:
  "length xs \<le> 2 ^ (k + d) \<Longrightarrow>
   full_root node d (get_or (zero k) (tree_level node zero k xs)) =
     tree_root node zero (k + d) xs"
proof (induction d arbitrary: k)
  case 0
  have "length (tree_level node zero k xs) \<le> 1"
    using 0 by (intro length_tree_level_le) simp
  then show ?case
    by (cases "tree_level node zero k xs") (auto simp: tree_root_def get_or_def)
next
  case (Suc d)
  have "(\<lambda>i. node (get_or (zero k) (tree_level node zero k xs) (2 * i))
           (get_or (zero k) (tree_level node zero k xs) (2 * i + 1))) =
      get_or (zero (Suc k)) (tree_level node zero (Suc k) xs)"
    by (rule ext) (auto simp: get_or_def nth_pair_up zero_Suc)
  then show ?case using Suc.IH [of "Suc k"] Suc.prems
    unfolding full_root_pairs by simp
qed

text \<open>The padded level-by-level fold is the root of the complete tree in which every unused
  position holds the empty leaf.\<close>

lemma tree_root_full:
  "length xs \<le> 2 ^ d \<Longrightarrow> tree_root node zero d xs = full_root node d (get_or (zero 0) xs)"
  using full_root_level [of xs 0 d] by simp

text \<open>Explicit empty leaves at the end are indistinguishable from unused positions.\<close>

lemma tree_root_padding:
  assumes "length xs + j \<le> 2 ^ d"
  shows "tree_root node zero d (xs @ replicate j (zero 0)) = tree_root node zero d xs"
proof -
  have "get_or (zero 0) (xs @ replicate j (zero 0)) = get_or (zero 0) xs"
    by (rule ext) (auto simp: get_or_def nth_append)
  then show ?thesis using assms by (simp add: tree_root_full)
qed

end

section \<open>The contract of a commitment tree\<close>

text \<open>
  \<open>repr s xs\<close>: the tree state \<open>s\<close> commits to the leaves \<open>xs\<close>. An append that succeeds adds
  one leaf at the end; the root is a function of the leaves alone.
\<close>

locale accumulator =
  fixes repr :: "'s \<Rightarrow> 'a list \<Rightarrow> bool"
    and append_leaf :: "'a \<Rightarrow> 's \<Rightarrow> 's option"
    and current_root :: "'s \<Rightarrow> 'a"
    and root_of :: "'a list \<Rightarrow> 'a"
  assumes append_repr: "repr s xs \<Longrightarrow> append_leaf x s = Some s' \<Longrightarrow> repr s' (xs @ [x])"
    and root_repr: "repr s xs \<Longrightarrow> current_root s = root_of xs"
begin

primrec append_all :: "'a list \<Rightarrow> 's \<Rightarrow> 's option" where
  "append_all [] s = Some s"
| "append_all (x # xs) s = Option.bind (append_leaf x s) (append_all xs)"

lemma append_all_repr:
  "repr s xs \<Longrightarrow> append_all ys s = Some s' \<Longrightarrow> repr s' (xs @ ys)"
proof (induction ys arbitrary: s xs)
  case (Cons y ys)
  then obtain t where t: "append_leaf y s = Some t" "append_all ys t = Some s'"
    by (auto simp: bind_eq_Some_conv)
  from Cons.IH [OF append_repr [OF Cons.prems(1) t(1)] t(2)] show ?case by simp
qed simp

lemma append_all_root:
  "repr s xs \<Longrightarrow> append_all ys s = Some s' \<Longrightarrow> current_root s' = root_of (xs @ ys)"
  by (rule root_repr [OF append_all_repr])

text \<open>Two histories that append the same leaves end at the same root.\<close>

lemma same_leaves_same_root:
  "repr s xs \<Longrightarrow> repr t xs \<Longrightarrow> append_all ys s = Some s' \<Longrightarrow> append_all ys t = Some t' \<Longrightarrow>
   current_root s' = current_root t'"
  by (simp add: append_all_root)

end

end
