(* ===== verification/Incremental_Tree.thy ===== *)
theory Incremental_Tree
  imports Field_Encoding Merkle_Hash
begin

text \<open>
  The on-chain commitment tree (\<open>programs/paraloom/src/merkle_tree.rs\<close>): an append-only tree
  of depth 32 that stores one left sibling per level instead of the leaves, with a ring buffer
  of the last 64 roots. The lemmas relate it to the list of appended leaves: its root is the
  root of the full tree over them, and the ring buffer holds exactly the roots of the last 64
  prefixes.
\<close>

section \<open>Definitions\<close>

definition poseidon2 :: "'z crypto_scheme \<Rightarrow> bytes32 \<Rightarrow> bytes32 \<Rightarrow> (bytes32, error) result" where
  "poseidon2 cr left right = ok_or (poseidon_hashv cr [left, right]) (Bridge InvalidProof)"

definition commitment ::
  "'z crypto_scheme \<Rightarrow> u64 \<Rightarrow> bytes32 \<Rightarrow> bytes32 \<Rightarrow> bytes32 \<Rightarrow> (bytes32, error) result" where
  "commitment cr amount pubkey blinding asset =
     (let amount_le = u64_to_le_bytes amount @ replicate 24 0
      in ok_or (poseidon_hashv cr [amount_le, pubkey, blinding, asset]) (Bridge InvalidProof))"

definition mint_to_asset :: "'z crypto_scheme \<Rightarrow> pubkey \<Rightarrow> (bytes32, error) result" where
  "mint_to_asset cr mint =
     (let lo = take 16 mint @ replicate 16 0;
          hi = drop 16 mint @ replicate 16 0
      in poseidon2 cr lo hi)"

definition initialize_tree :: IncrementalMerkleTree where
  "initialize_tree =
     \<lparr> mt_next_index = 0,
       mt_root_index = 0,
       mt_root = ZERO_HASHES ! TREE_DEPTH,
       mt_filled_subtrees = take TREE_DEPTH ZERO_HASHES,
       mt_root_history = (replicate ROOT_HISTORY_SIZE zero32)[0 := ZERO_HASHES ! TREE_DEPTH] \<rparr>"

text \<open>The loop of \<open>append\<close>: \<open>n\<close> levels remain, \<open>i\<close> is the level reached.\<close>

fun append_loop ::
  "'z crypto_scheme \<Rightarrow> nat \<Rightarrow> nat \<Rightarrow> u64 \<Rightarrow> bytes32 \<Rightarrow> bytes32 list
     \<Rightarrow> (bytes32 \<times> bytes32 list, error) result" where
  "append_loop cr 0 i current_index current_hash filled = Ok (current_hash, filled)"
| "append_loop cr (Suc n) i current_index current_hash filled =
     (if current_index mod 2 = 0
      then and_then (poseidon2 cr current_hash (ZERO_HASHES ! i))
             (\<lambda>h. append_loop cr n (i + 1) (current_index div 2) h (filled[i := current_hash]))
      else and_then (poseidon2 cr (filled ! i) current_hash)
             (\<lambda>h. append_loop cr n (i + 1) (current_index div 2) h filled))"

definition tree_append ::
  "'z crypto_scheme \<Rightarrow> IncrementalMerkleTree \<Rightarrow> bytes32
     \<Rightarrow> (IncrementalMerkleTree \<times> bytes32, error) result" where
  "tree_append cr t leaf =
     and_then (require ((ucast (mt_next_index t) :: u128) < push_bit TREE_DEPTH 1)
                 (Bridge InvalidProof)) (\<lambda>_.
     and_then (append_loop cr TREE_DEPTH 0 (mt_next_index t) leaf (mt_filled_subtrees t))
       (\<lambda>(current_hash, filled).
     and_then (ok_or (checked_add (mt_next_index t) 1) (Bridge InvalidProof)) (\<lambda>next.
     and_then (ok_or (checked_add (mt_root_index t) 1) Panic) (\<lambda>bumped.
       let root_index = bumped mod of_nat ROOT_HISTORY_SIZE
       in Ok (\<lparr> mt_next_index = next,
                mt_root_index = root_index,
                mt_root = current_hash,
                mt_filled_subtrees = filled,
                mt_root_history = (mt_root_history t)[unat root_index := current_hash] \<rparr>,
              current_hash)))))"

text \<open>
  The scan of \<open>is_known_root\<close> walks the ring backwards from \<open>start\<close>. \<open>None\<close> is the panic of an
  index outside the array; the scan begins at \<open>i = start\<close>, so an out-of-range \<open>start\<close> panics at
  once.
\<close>

function is_known_root_loop :: "bytes32 list \<Rightarrow> bytes32 \<Rightarrow> nat \<Rightarrow> nat \<Rightarrow> bool option" where
  "is_known_root_loop history root start i =
     (if i < ROOT_HISTORY_SIZE \<and> start < ROOT_HISTORY_SIZE then
        if history ! i = root then Some True
        else
          let j = (if i = 0 then ROOT_HISTORY_SIZE - 1 else i - 1)
          in if j = start then Some False else is_known_root_loop history root start j
      else None)"
  by pat_completeness auto

text \<open>The number of slots left to visit decreases.\<close>

termination
  by (relation "measure (\<lambda>(history, root, start, i).
        if i \<le> start then i + (ROOT_HISTORY_SIZE - 1) - start else i - start - 1)")
    (auto simp: ROOT_HISTORY_SIZE_def split: if_splits)

declare is_known_root_loop.simps [simp del]

definition is_known_root :: "IncrementalMerkleTree \<Rightarrow> bytes32 \<Rightarrow> bool option" where
  "is_known_root t root =
     (if root = zero32 then Some False
      else let start = unat (mt_root_index t)
           in is_known_root_loop (mt_root_history t) root start start)"

section \<open>The hash of the tree\<close>

text \<open>The syscall as a total function (a failing hash is unused: \<open>append\<close> then fails).\<close>

definition poseidon_node :: "'z crypto_scheme \<Rightarrow> bytes32 \<Rightarrow> bytes32 \<Rightarrow> bytes32" where
  "poseidon_node cr l r = (case poseidon_hashv cr [l, r] of Some h \<Rightarrow> h | None \<Rightarrow> zero32)"

primrec zero_chain :: "'z crypto_scheme \<Rightarrow> nat \<Rightarrow> bytes32" where
  "zero_chain cr 0 = zero32"
| "zero_chain cr (Suc k) = poseidon_node cr (zero_chain cr k) (zero_chain cr k)"

interpretation onchain: merkle_hasher "poseidon_node cr" "zero_chain cr" for cr
  by unfold_locales simp

text \<open>The table of constants is the Poseidon chain of empty subtrees (the unit test
  \<open>zero_hashes_const_matches_recompute\<close> checks it against the hash).\<close>

definition zero_hashes_ok :: "'z crypto_scheme \<Rightarrow> bool" where
  "zero_hashes_ok cr \<longleftrightarrow>
     (\<forall>k < TREE_DEPTH. poseidon_hashv cr [ZERO_HASHES ! k, ZERO_HASHES ! k] =
        Some (ZERO_HASHES ! (k + 1)))"

lemma ref_zero_hashes_ok [simp]: "zero_hashes_ok ref_runtime"
  by (simp add: zero_hashes_ok_def ref_zero_hashes)

lemma poseidon2_Ok: "poseidon2 cr l r = Ok h \<Longrightarrow> h = poseidon_node cr l r"
  by (simp add: poseidon2_def poseidon_node_def rust_simps)

lemma zero_chain_table:
  assumes "zero_hashes_ok cr" and "k \<le> TREE_DEPTH"
  shows "ZERO_HASHES ! k = zero_chain cr k"
  using assms(2)
proof (induction k)
  case (Suc k)
  then have "poseidon_hashv cr [ZERO_HASHES ! k, ZERO_HASHES ! k] = Some (ZERO_HASHES ! Suc k)"
    using assms(1) unfolding zero_hashes_ok_def by (metis Suc_eq_plus1 Suc_le_lessD)
  then show ?case using Suc by (simp add: poseidon_node_def)
qed simp

abbreviation onchain_level :: "'z crypto_scheme \<Rightarrow> nat \<Rightarrow> bytes32 list \<Rightarrow> bytes32 list" where
  "onchain_level cr \<equiv> tree_level (poseidon_node cr) (zero_chain cr)"

abbreviation onchain_spine :: "'z crypto_scheme \<Rightarrow> nat \<Rightarrow> bytes32 list \<Rightarrow> bytes32 \<Rightarrow> bytes32" where
  "onchain_spine cr \<equiv> spine (poseidon_node cr) (zero_chain cr)"

text \<open>The root of the tree over \<open>leaves\<close>, recomputed from scratch.\<close>

definition onchain_root :: "'z crypto_scheme \<Rightarrow> bytes32 list \<Rightarrow> bytes32" where
  "onchain_root cr = tree_root (poseidon_node cr) (zero_chain cr) TREE_DEPTH"

section \<open>Representation\<close>

text \<open>
  \<open>filled_subtrees\<close>: where the number of complete subtrees at a level is odd, the stored hash
  is the last of them, the left sibling the next leaf will pair with.
\<close>

definition frontier_ok :: "'z crypto_scheme \<Rightarrow> bytes32 list \<Rightarrow> bytes32 list \<Rightarrow> bool" where
  "frontier_ok cr filled xs \<longleftrightarrow>
     length filled = TREE_DEPTH \<and>
     (\<forall>j < TREE_DEPTH. odd (length xs div 2 ^ j) \<longrightarrow>
        filled ! j = onchain_level cr j xs ! (length xs div 2 ^ j - 1))"

definition history_ok :: "'z crypto_scheme \<Rightarrow> IncrementalMerkleTree \<Rightarrow> bytes32 list \<Rightarrow> bool" where
  "history_ok cr t xs \<longleftrightarrow>
     length (mt_root_history t) = ROOT_HISTORY_SIZE \<and>
     unat (mt_root_index t) = length xs mod ROOT_HISTORY_SIZE \<and>
     (\<forall>i \<le> length xs. length xs < i + ROOT_HISTORY_SIZE \<longrightarrow>
        mt_root_history t ! (i mod ROOT_HISTORY_SIZE) = onchain_root cr (take i xs)) \<and>
     (\<forall>j < ROOT_HISTORY_SIZE. length xs < j \<longrightarrow> mt_root_history t ! j = zero32)"

definition tree_repr :: "'z crypto_scheme \<Rightarrow> IncrementalMerkleTree \<Rightarrow> bytes32 list \<Rightarrow> bool" where
  "tree_repr cr t xs \<longleftrightarrow>
     zero_hashes_ok cr \<and> length xs \<le> 2 ^ TREE_DEPTH \<and>
     unat (mt_next_index t) = length xs \<and> mt_root t = onchain_root cr xs \<and>
     frontier_ok cr (mt_filled_subtrees t) xs \<and> history_ok cr t xs"

lemma tree_repr_initialize:
  assumes "zero_hashes_ok cr"
  shows "tree_repr cr initialize_tree []"
  using assms zero_chain_table [OF assms, of TREE_DEPTH]
  by (simp add: tree_repr_def initialize_tree_def frontier_ok_def history_ok_def onchain_root_def
      ROOT_HISTORY_SIZE_def)

section \<open>Appending\<close>

lemma append_loop_spine:
  assumes "append_loop cr k i idx cur filled = Ok (h, filled')"
    and "zero_hashes_ok cr" and "i + k = TREE_DEPTH" and "length filled = TREE_DEPTH"
    and "unat idx = length xs div 2 ^ i" and "cur = onchain_spine cr i xs x"
    and "\<And>j. i \<le> j \<Longrightarrow> j < TREE_DEPTH \<Longrightarrow> odd (length xs div 2 ^ j) \<Longrightarrow>
           filled ! j = onchain_level cr j xs ! (length xs div 2 ^ j - 1)"
  shows "h = onchain_spine cr TREE_DEPTH xs x \<and> length filled' = TREE_DEPTH \<and>
    (\<forall>j < TREE_DEPTH. filled' ! j =
       (if i \<le> j \<and> even (length xs div 2 ^ j) then onchain_spine cr j xs x else filled ! j))"
  using assms
proof (induction cr k i idx cur filled arbitrary: h filled' rule: append_loop.induct)
  case (1 cr i idx cur filled)
  then show ?case by auto
next
  case (2 cr n i idx cur filled)
  have i: "i < TREE_DEPTH" using "2.prems"(3) by simp
  have idx': "unat (idx div 2) = length xs div 2 ^ Suc i"
    using "2.prems"(5) by (simp only: div_2_power_Suc) (simp add: unat_div)
  have parity: "idx mod 2 = 0 \<longleftrightarrow> even (length xs div 2 ^ i)"
  proof -
    have "idx mod 2 = 0 \<longleftrightarrow> unat (idx mod 2) = 0" by (simp add: unat_eq_zero)
    then show ?thesis using "2.prems"(5) by (simp add: unat_mod even_iff_mod_2_eq_zero)
  qed
  show ?case
  proof (cases "even (length xs div 2 ^ i)")
    case True
    then obtain p where p: "poseidon2 cr cur (ZERO_HASHES ! i) = Ok p"
      and rec: "append_loop cr n (i + 1) (idx div 2) p (filled[i := cur]) = Ok (h, filled')"
      using "2.prems"(1) parity by (auto simp: rust_simps)
    have "p = onchain_spine cr (Suc i) xs x"
      using True poseidon2_Ok [OF p] "2.prems"(6) i
      by (simp add: zero_chain_table [OF "2.prems"(2)] Let_def)
    moreover have "(filled[i := cur]) ! j = onchain_level cr j xs ! (length xs div 2 ^ j - 1)"
      if "i + 1 \<le> j" "j < TREE_DEPTH" "odd (length xs div 2 ^ j)" for j
      using that "2.prems"(7) by (simp add: nth_list_update)
    ultimately have "h = onchain_spine cr TREE_DEPTH xs x \<and> length filled' = TREE_DEPTH \<and>
        (\<forall>j < TREE_DEPTH. filled' ! j =
          (if i + 1 \<le> j \<and> even (length xs div 2 ^ j) then onchain_spine cr j xs x
           else (filled[i := cur]) ! j))"
      using "2.prems"(2,3,4) idx' True parity by (intro "2.IH"(1) [OF _ rec]) simp_all
    then show ?thesis using True "2.prems"(4,6) i
      by (auto simp: nth_list_update Suc_le_eq le_less)
  next
    case False
    then obtain p where p: "poseidon2 cr (filled ! i) cur = Ok p"
      and rec: "append_loop cr n (i + 1) (idx div 2) p filled = Ok (h, filled')"
      using "2.prems"(1) parity by (auto simp: rust_simps)
    have "p = onchain_spine cr (Suc i) xs x"
      using False poseidon2_Ok [OF p] "2.prems"(6,7) i by (simp add: Let_def)
    then have "h = onchain_spine cr TREE_DEPTH xs x \<and> length filled' = TREE_DEPTH \<and>
        (\<forall>j < TREE_DEPTH. filled' ! j =
          (if i + 1 \<le> j \<and> even (length xs div 2 ^ j) then onchain_spine cr j xs x
           else filled ! j))"
      using "2.prems"(2,3,4,7) idx' False parity by (intro "2.IH"(2) [OF _ rec]) simp_all
    then show ?thesis using False by (auto simp: Suc_le_eq le_less)
  qed
qed

lemma frontier_ok_snoc:
  assumes "frontier_ok cr filled xs" and "length filled' = TREE_DEPTH"
    and "\<forall>j < TREE_DEPTH. filled' ! j =
       (if even (length xs div 2 ^ j) then onchain_spine cr j xs x else filled ! j)"
  shows "frontier_ok cr filled' (xs @ [x])"
  unfolding frontier_ok_def
proof (intro conjI allI impI)
  fix j assume j: "j < TREE_DEPTH" and odd: "odd (length (xs @ [x]) div 2 ^ j)"
  let ?m = "length xs div 2 ^ j" and ?m' = "length (xs @ [x]) div 2 ^ j"
  have "?m' = ?m \<or> ?m' = Suc ?m" by (simp add: div_Suc)
  then show "filled' ! j = onchain_level cr j (xs @ [x]) ! (?m' - 1)"
  proof
    assume "?m' = ?m"
    moreover from this odd have "odd ?m" by simp
    moreover from this have "0 < ?m" by (rule odd_pos)
    ultimately show ?thesis using assms j tree_level_snoc_nth [of xs j "poseidon_node cr" "zero_chain cr" x]
      by (simp add: frontier_ok_def del: length_append)
  next
    assume "?m' = Suc ?m"
    moreover from this odd have "even ?m" by simp
    ultimately show ?thesis using assms j by (simp add: tree_level_snoc_last del: length_append)
  qed
qed (use assms(2) in simp)

lemma history_ok_snoc:
  assumes "history_ok cr t xs" and "r = onchain_root cr (xs @ [x])"
    and "unat idx = Suc (length xs) mod ROOT_HISTORY_SIZE"
    and "mt_root_history t' = (mt_root_history t)[unat idx := r]" and "mt_root_index t' = idx"
  shows "history_ok cr t' (xs @ [x])"
  unfolding history_ok_def
proof (intro conjI allI impI)
  let ?n = "length xs" and ?S = ROOT_HISTORY_SIZE
  have S: "0 < ?S" by (simp add: ROOT_HISTORY_SIZE_def)
  have hist: "mt_root_history t' ! j = (if j = Suc ?n mod ?S then r else mt_root_history t ! j)"
    if "j < ?S" for j
    using assms that by (simp add: history_ok_def nth_list_update)
  show "length (mt_root_history t') = ?S" "unat (mt_root_index t') = length (xs @ [x]) mod ?S"
    using assms by (simp_all add: history_ok_def)
  fix i
  {
    assume le: "i \<le> length (xs @ [x])" and gt: "length (xs @ [x]) < i + ?S"
    show "mt_root_history t' ! (i mod ?S) = onchain_root cr (take i (xs @ [x]))"
    proof (cases "i = Suc ?n")
      case True
      then show ?thesis using S assms(2) by (simp add: hist)
    next
      case False
      then have i: "i \<le> ?n" "Suc ?n < i + ?S" using le gt by simp_all
      have "i mod ?S \<noteq> Suc ?n mod ?S"
      proof
        assume "i mod ?S = Suc ?n mod ?S"
        then have "?S dvd Suc ?n - i"
          using i(1) mod_eq_dvd_iff_nat [of i "Suc ?n" ?S] by simp
        then show False using i by (auto dest: dvd_imp_le)
      qed
      then show ?thesis using i assms(1) S by (simp add: hist history_ok_def)
    qed
  }
  assume "i < ?S" and "length (xs @ [x]) < i"
  then show "mt_root_history t' ! i = zero32"
    using assms(1) by (simp add: hist history_ok_def)
qed

lemma tree_append_OkD:
  assumes "tree_append cr t leaf = Ok (t', r)"
  obtains filled bumped where
    "append_loop cr TREE_DEPTH 0 (mt_next_index t) leaf (mt_filled_subtrees t) = Ok (r, filled)"
    "unat (mt_next_index t) < 2 ^ TREE_DEPTH"
    "unat (mt_next_index t') = unat (mt_next_index t) + 1"
    "unat bumped = unat (mt_root_index t) + 1"
    "mt_root_index t' = bumped mod of_nat ROOT_HISTORY_SIZE"
    "mt_root t' = r" "mt_filled_subtrees t' = filled"
    "mt_root_history t' = (mt_root_history t)[unat (bumped mod of_nat ROOT_HISTORY_SIZE) := r]"
proof -
  have "unat (mt_next_index t) < 2 ^ TREE_DEPTH"
    if "(ucast (mt_next_index t) :: u128) < push_bit TREE_DEPTH 1"
    using that unat_bound [of "mt_next_index t"]
    by (simp add: word_less_nat_alt TREE_DEPTH_def push_bit_eq_mult unsigned_ucast_eq
        take_bit_nat_eq_self)
  then show ?thesis
    using assms that
    by (auto simp: tree_append_def rust_simps checked_simps Let_def split: prod.splits)
qed

lemma tree_append_repr:
  assumes "tree_repr cr t xs" and "tree_append cr t x = Ok (t', r)"
  shows "tree_repr cr t' (xs @ [x]) \<and> r = onchain_root cr (xs @ [x])"
proof -
  from assms(1) have zh: "zero_hashes_ok cr" and n: "unat (mt_next_index t) = length xs"
    and fr: "frontier_ok cr (mt_filled_subtrees t) xs" and hist: "history_ok cr t xs"
    by (simp_all add: tree_repr_def)
  from assms(2) obtain filled bumped where
    loop: "append_loop cr TREE_DEPTH 0 (mt_next_index t) x (mt_filled_subtrees t) = Ok (r, filled)"
    and lt: "unat (mt_next_index t) < 2 ^ TREE_DEPTH"
    and next': "unat (mt_next_index t') = unat (mt_next_index t) + 1"
    and bumped: "unat bumped = unat (mt_root_index t) + 1"
    and upd: "mt_root_index t' = bumped mod of_nat ROOT_HISTORY_SIZE"
      "mt_root t' = r" "mt_filled_subtrees t' = filled"
      "mt_root_history t' = (mt_root_history t)[unat (bumped mod of_nat ROOT_HISTORY_SIZE) := r]"
    by (rule tree_append_OkD)
  have spine: "r = onchain_spine cr TREE_DEPTH xs x" and filled: "length filled = TREE_DEPTH"
    "\<forall>j < TREE_DEPTH. filled ! j = (if even (length xs div 2 ^ j) then onchain_spine cr j xs x
       else mt_filled_subtrees t ! j)"
    using append_loop_spine [OF loop zh, of xs x] n fr by (simp_all add: frontier_ok_def)
  have r: "r = onchain_root cr (xs @ [x])"
    using lt n spine by (simp add: onchain_root_def tree_root_snoc)
  have "unat (bumped mod of_nat ROOT_HISTORY_SIZE) = Suc (length xs) mod ROOT_HISTORY_SIZE"
    using bumped hist by (simp add: unat_mod history_ok_def ROOT_HISTORY_SIZE_def mod_Suc_eq)
  then have "history_ok cr t' (xs @ [x])"
    using hist r upd by (intro history_ok_snoc) simp_all
  moreover have "frontier_ok cr filled (xs @ [x])" by (rule frontier_ok_snoc [OF fr filled])
  ultimately show ?thesis using zh lt n next' upd r by (simp add: tree_repr_def)
qed

definition append_tree ::
  "'z crypto_scheme \<Rightarrow> bytes32 \<Rightarrow> IncrementalMerkleTree \<Rightarrow> IncrementalMerkleTree option" where
  "append_tree cr x t = (case tree_append cr t x of Ok (t', _) \<Rightarrow> Some t' | Err _ \<Rightarrow> None)"

lemma append_tree_repr:
  assumes "tree_repr cr t xs" and "append_tree cr x t = Some t'"
  shows "tree_repr cr t' (xs @ [x])"
  using assms tree_append_repr [OF assms(1), of x t']
  by (auto simp: append_tree_def split: result.splits)

interpretation onchain_tree: accumulator "tree_repr cr" "append_tree cr" mt_root "onchain_root cr"
  for cr
  by (unfold_locales, rule append_tree_repr, assumption+, simp add: tree_repr_def)

section \<open>Known roots\<close>

text \<open>The slots the backward scan visits from \<open>i\<close> on.\<close>

definition scan_slots :: "nat \<Rightarrow> nat \<Rightarrow> nat set" where
  "scan_slots start i =
     (if i \<le> start then {0..i} \<union> {start<..<ROOT_HISTORY_SIZE} else {start<..i})"

lemma scan_slots_step:
  assumes "start < ROOT_HISTORY_SIZE" and "i < ROOT_HISTORY_SIZE"
    and "j = (if i = 0 then ROOT_HISTORY_SIZE - 1 else i - 1)"
  shows "scan_slots start i = (if j = start then {i} else insert i (scan_slots start j))"
  using assms by (auto simp: scan_slots_def ROOT_HISTORY_SIZE_def split: if_splits)

lemma known_root_loop_scan:
  assumes "start < ROOT_HISTORY_SIZE" and "i < ROOT_HISTORY_SIZE"
  shows "is_known_root_loop history root start i =
    Some (\<exists>j \<in> scan_slots start i. history ! j = root)"
  using assms
proof (induction history root start i rule: is_known_root_loop.induct)
  case (1 history root start i)
  define j where "j = (if i = 0 then ROOT_HISTORY_SIZE - 1 else i - 1)"
  have j: "j < ROOT_HISTORY_SIZE" using 1(3) by (auto simp: j_def)
  show ?case
    using 1 j scan_slots_step [OF 1(2,3) j_def]
    by (subst is_known_root_loop.simps) (auto simp: Let_def j_def)
qed

lemma is_known_root_history:
  assumes "length (mt_root_history t) = ROOT_HISTORY_SIZE"
    and "unat (mt_root_index t) < ROOT_HISTORY_SIZE"
  shows "is_known_root t root = Some (root \<noteq> zero32 \<and> root \<in> set (mt_root_history t))"
proof -
  let ?s = "unat (mt_root_index t)"
  have "scan_slots ?s ?s = {..<ROOT_HISTORY_SIZE}"
    using assms(2) by (auto simp: scan_slots_def)
  then show ?thesis
    using assms known_root_loop_scan [of ?s ?s "mt_root_history t" root]
    by (auto simp: is_known_root_def Let_def in_set_conv_nth)
qed

lemma history_set:
  assumes "history_ok cr t xs" and "root \<noteq> zero32"
  shows "root \<in> set (mt_root_history t) \<longleftrightarrow>
    (\<exists>i \<le> length xs. length xs < i + ROOT_HISTORY_SIZE \<and> root = onchain_root cr (take i xs))"
proof
  let ?S = ROOT_HISTORY_SIZE and ?n = "length xs"
  have S: "0 < ?S" by (simp add: ROOT_HISTORY_SIZE_def)
  assume "root \<in> set (mt_root_history t)"
  then obtain j where j: "j < ?S" "root = mt_root_history t ! j"
    using assms(1) by (auto simp: in_set_conv_nth history_ok_def)
  have "j \<le> ?n" using assms j by (auto simp: history_ok_def not_le)
  define i where "i = ?n - (?n - j) mod ?S"
  have "(?n - j) mod ?S \<le> ?n - j" by simp
  then have "i = j + ?S * ((?n - j) div ?S)"
    using \<open>j \<le> ?n\<close> mult_div_mod_eq [of ?S "?n - j"] unfolding i_def by linarith
  then have "i mod ?S = j" using j(1) by simp
  moreover have "i \<le> ?n" "?n < i + ?S"
    using S mod_less_divisor [OF S, of "?n - j"] unfolding i_def by linarith+
  ultimately show "\<exists>i \<le> ?n. ?n < i + ?S \<and> root = onchain_root cr (take i xs)"
    using assms(1) j(2) by (auto simp: history_ok_def)
next
  let ?S = ROOT_HISTORY_SIZE
  assume "\<exists>i \<le> length xs. length xs < i + ?S \<and> root = onchain_root cr (take i xs)"
  then obtain i where "i \<le> length xs" "length xs < i + ?S" "root = onchain_root cr (take i xs)"
    by blast
  then have "root = mt_root_history t ! (i mod ?S)" using assms(1) by (simp add: history_ok_def)
  moreover have "i mod ?S < length (mt_root_history t)"
    using assms(1) by (simp add: history_ok_def ROOT_HISTORY_SIZE_def)
  ultimately show "root \<in> set (mt_root_history t)" by simp
qed

section \<open>Appends succeed\<close>

definition canonical :: "bytes32 \<Rightarrow> bool" where
  "canonical v \<longleftrightarrow> length v = 32 \<and> le_val v < fr_modulus"

text \<open>The documented contract of the Poseidon syscall: canonical inputs are hashed, and the
  digest is canonical.\<close>

definition poseidon_ok :: "'z crypto_scheme \<Rightarrow> bool" where
  "poseidon_ok cr \<longleftrightarrow>
     (\<forall>l r. canonical l \<longrightarrow> canonical r \<longrightarrow>
        (\<exists>h. poseidon_hashv cr [l, r] = Some h \<and> canonical h))"

lemma ZERO_HASHES_canonical: "k \<le> TREE_DEPTH \<Longrightarrow> canonical (ZERO_HASHES ! k)"
proof -
  have "\<forall>z \<in> set ZERO_HASHES. le_val z < fr_modulus"
    by (simp add: ZERO_HASHES_def fr_modulus_def)
  then show "k \<le> TREE_DEPTH \<Longrightarrow> canonical (ZERO_HASHES ! k)"
    by (simp add: canonical_def ZERO_HASHES_length32 nth_mem)
qed

lemma poseidon2_succeeds:
  "poseidon_ok cr \<Longrightarrow> canonical l \<Longrightarrow> canonical r \<Longrightarrow>
   \<exists>h. poseidon2 cr l r = Ok h \<and> canonical h"
  unfolding poseidon_ok_def poseidon2_def by (metis ok_or_Some)

lemma length_append_loop:
  "append_loop cr k i idx cur filled = Ok (h, filled') \<Longrightarrow> length filled' = length filled"
  by (induction cr k i idx cur filled rule: append_loop.induct)
    (auto simp: rust_simps split: if_splits)

lemma append_loop_succeeds:
  assumes "poseidon_ok cr" and "canonical cur" and "\<forall>z \<in> set filled. canonical z"
    and "length filled = TREE_DEPTH" and "i + k \<le> TREE_DEPTH"
  shows "\<exists>h filled'. append_loop cr k i idx cur filled = Ok (h, filled') \<and> canonical h \<and>
    (\<forall>z \<in> set filled'. canonical z)"
  using assms
proof (induction cr k i idx cur filled rule: append_loop.induct)
  case (2 cr n i idx cur filled)
  have zero: "canonical (ZERO_HASHES ! i)" and left: "canonical (filled ! i)"
    using 2 by (simp_all add: ZERO_HASHES_canonical)
  have upd: "\<forall>z \<in> set (filled[i := cur]). canonical z"
    using 2 by (auto dest!: set_update_subset_insert [THEN subsetD])
  show ?case
  proof (cases "idx mod 2 = 0")
    case True
    obtain h where "poseidon2 cr cur (ZERO_HASHES ! i) = Ok h" "canonical h"
      using poseidon2_succeeds [OF 2(3,4) zero] by blast
    then show ?thesis using 2(1) [OF True, of h] True upd 2 by simp
  next
    case False
    obtain h where "poseidon2 cr (filled ! i) cur = Ok h" "canonical h"
      using poseidon2_succeeds [OF 2(3) left 2(4)] by blast
    then show ?thesis using 2(2) [OF False, of h] False 2 by simp
  qed
qed simp

text \<open>A tree all of whose stored siblings are canonical; kept by every append.\<close>

definition tree_canonical :: "IncrementalMerkleTree \<Rightarrow> bool" where
  "tree_canonical t \<longleftrightarrow>
     length (mt_filled_subtrees t) = TREE_DEPTH \<and>
     unat (mt_root_index t) < ROOT_HISTORY_SIZE \<and>
     (\<forall>z \<in> set (mt_filled_subtrees t). canonical z)"

lemma tree_append_succeeds:
  assumes "poseidon_ok cr" and "tree_canonical t" and "canonical x"
    and "unat (mt_next_index t) < 2 ^ TREE_DEPTH"
  shows "\<exists>t' r. tree_append cr t x = Ok (t', r) \<and> tree_canonical t' \<and> canonical r"
proof -
  obtain h filled' where
    loop: "append_loop cr TREE_DEPTH 0 (mt_next_index t) x (mt_filled_subtrees t) = Ok (h, filled')"
    and can: "canonical h" "\<forall>z \<in> set filled'. canonical z"
    using append_loop_succeeds [OF assms(1,3), of "mt_filled_subtrees t" 0 TREE_DEPTH
        "mt_next_index t"] assms(2)
    by (auto simp: tree_canonical_def)
  have len: "length filled' = TREE_DEPTH"
    using length_append_loop [OF loop] assms(2) by (simp add: tree_canonical_def)
  have guard: "(ucast (mt_next_index t) :: u128) < push_bit TREE_DEPTH 1"
    using assms(4) unat_bound [of "mt_next_index t"]
    by (simp add: word_less_nat_alt TREE_DEPTH_def push_bit_eq_mult unsigned_ucast_eq
        take_bit_nat_eq_self)
  obtain n b where "checked_add (mt_next_index t) 1 = Some n"
    "checked_add (mt_root_index t) 1 = Some b"
    using assms(2,4)
    by (simp add: checked_add_def tree_canonical_def TREE_DEPTH_def ROOT_HISTORY_SIZE_def)
  moreover have "unat (b mod of_nat ROOT_HISTORY_SIZE) < ROOT_HISTORY_SIZE"
    by (simp add: unat_mod ROOT_HISTORY_SIZE_def)
  ultimately show ?thesis
    using loop guard can len by (simp add: tree_append_def Let_def tree_canonical_def)
qed

lemma tree_canonical_initialize: "tree_canonical initialize_tree"
  by (auto simp: tree_canonical_def initialize_tree_def ROOT_HISTORY_SIZE_def in_set_conv_nth
      ZERO_HASHES_canonical)

lemma ref_poseidon_ok [simp]: "poseidon_ok ref_runtime"
proof -
  have "canonical z" if "map_of (zip (butlast ZERO_HASHES) (tl ZERO_HASHES)) a = Some z" for a z
  proof -
    from that have "z \<in> set (tl ZERO_HASHES)"
      by (auto dest!: map_of_SomeD set_zip_rightD)
    then have "z \<in> set ZERO_HASHES" by (metis list.set_sel(2) tl_Nil)
    then show ?thesis by (auto simp: in_set_conv_nth ZERO_HASHES_canonical)
  qed
  then show ?thesis
    by (auto simp: poseidon_ok_def ref_poseidon_def canonical_def le_val_le_bytes_field
        split: option.split)
qed

section \<open>Runs of appends\<close>

fun run_appends ::
  "'z crypto_scheme \<Rightarrow> bytes32 list \<Rightarrow> IncrementalMerkleTree
     \<Rightarrow> (IncrementalMerkleTree, error) result" where
  "run_appends cr [] t = Ok t"
| "run_appends cr (x # xs) t = and_then (tree_append cr t x) (\<lambda>(t', _). run_appends cr xs t')"

lemma run_appends_append_all:
  "run_appends cr xs t = Ok t' \<Longrightarrow> accumulator.append_all (append_tree cr) xs t = Some t'"
  by (induction cr xs t rule: run_appends.induct)
    (auto simp: append_tree_def rust_simps onchain_tree.append_all.simps)

lemma run_appends_repr:
  assumes "zero_hashes_ok cr" and "run_appends cr xs initialize_tree = Ok t"
  shows "tree_repr cr t xs"
  using onchain_tree.append_all_repr
    [OF tree_repr_initialize [OF assms(1)] run_appends_append_all [OF assms(2)]]
  by simp

lemma run_appends_succeeds:
  assumes "poseidon_ok cr" and "tree_canonical t" and "\<forall>x \<in> set xs. canonical x"
    and "unat (mt_next_index t) + length xs \<le> 2 ^ TREE_DEPTH"
  shows "\<exists>t'. run_appends cr xs t = Ok t'"
  using assms
proof (induction xs arbitrary: t)
  case (Cons x xs)
  obtain t' r where t': "tree_append cr t x = Ok (t', r)" "tree_canonical t'"
    using tree_append_succeeds [OF Cons.prems(1,2), of x] Cons.prems by auto
  moreover have "unat (mt_next_index t') = unat (mt_next_index t) + 1"
    using t'(1) by (auto elim: tree_append_OkD)
  ultimately show ?case using Cons by simp
qed simp

lemma known_root_iff:
  assumes "tree_repr cr t xs"
  shows "is_known_root t root = Some (root \<noteq> zero32 \<and>
    (\<exists>i \<le> length xs. length xs < i + 64 \<and> root = onchain_root cr (take i xs)))"
proof -
  have h: "history_ok cr t xs" using assms by (simp add: tree_repr_def)
  then show ?thesis
    using is_known_root_history [of t root] history_set [OF h, of root]
    by (auto simp: history_ok_def ROOT_HISTORY_SIZE_def)
qed

section \<open>Properties\<close>

text \<open>C5. The incremental root is the real root: after initialising the tree and appending any
  leaves, the stored root is the root of the complete depth-32 Poseidon tree that holds those
  leaves at positions 0, 1, ... and the empty leaf everywhere else, the next index counts them,
  and there are at most \<open>2 ^ 32\<close> of them.\<close>

theorem append_root_is_full_root:
  assumes "zero_hashes_ok cr" and "run_appends cr xs initialize_tree = Ok t"
  shows "mt_root t = full_root (poseidon_node cr) 32 (get_or zero32 xs) \<and>
    unat (mt_next_index t) = length xs \<and> length xs \<le> 2 ^ 32"
  using run_appends_repr [OF assms] onchain.tree_root_full [of xs 32 cr]
  by (simp add: tree_repr_def onchain_root_def TREE_DEPTH_def)

text \<open>Which roots a settlement may name: after appending \<open>xs\<close>, \<open>is_known_root\<close> never
  panics and accepts exactly the non-zero roots the tree had after one of its last 64 states,
  so a root that was never published, or that is older, is rejected.\<close>

theorem known_roots_are_recent_roots:
  assumes "zero_hashes_ok cr" and "run_appends cr xs initialize_tree = Ok t"
  shows "is_known_root t root = Some (root \<noteq> zero32 \<and>
    (\<exists>i \<le> length xs. length xs < i + 64 \<and> root = onchain_root cr (take i xs)))"
  using run_appends_repr [OF assms] by (rule known_root_iff)

text \<open>Appending never gets stuck before the tree is full: with the documented Poseidon
  syscall, any list of at most \<open>2 ^ 32\<close> canonical leaves is appended without error.\<close>

theorem appends_never_stuck:
  assumes "poseidon_ok cr" and "\<forall>x \<in> set xs. canonical x" and "length xs \<le> 2 ^ TREE_DEPTH"
  shows "\<exists>t. run_appends cr xs initialize_tree = Ok t"
  using run_appends_succeeds [OF assms(1) tree_canonical_initialize assms(2)] assms(3)
  by (simp add: initialize_tree_def)

section \<open>Examples\<close>

lemma example_leaves: "\<exists>t. run_appends ref_runtime [le_bytes 32 5, le_bytes 32 6] initialize_tree = Ok t"
  using run_appends_succeeds [OF ref_poseidon_ok tree_canonical_initialize,
      of "[le_bytes 32 5, le_bytes 32 6]"]
  by (simp add: canonical_def le_val_le_bytes fr_modulus_def initialize_tree_def TREE_DEPTH_def)

theorem append_root_is_full_root_witness:
  "\<exists>t. run_appends ref_runtime [le_bytes 32 5, le_bytes 32 6] initialize_tree = Ok t \<and>
     unat (mt_next_index t) = 2 \<and>
     mt_root t = full_root (poseidon_node ref_runtime) 32
       (get_or zero32 [le_bytes 32 5, le_bytes 32 6])"
proof -
  obtain t where "run_appends ref_runtime [le_bytes 32 5, le_bytes 32 6] initialize_tree = Ok t"
    using example_leaves by blast
  with append_root_is_full_root [OF ref_zero_hashes_ok this] show ?thesis by simp
qed

theorem known_roots_are_recent_roots_witness:
  "\<exists>t. run_appends ref_runtime [le_bytes 32 5, le_bytes 32 6] initialize_tree = Ok t \<and>
     is_known_root t (ZERO_HASHES ! 32) = Some True \<and>
     is_known_root t zero32 = Some False"
proof -
  obtain t where t: "run_appends ref_runtime [le_bytes 32 5, le_bytes 32 6] initialize_tree = Ok t"
    using example_leaves by blast
  have "ZERO_HASHES ! 32 = onchain_root ref_runtime []"
    using zero_chain_table [of ref_runtime 32] by (simp add: onchain_root_def TREE_DEPTH_def)
  moreover have "ZERO_HASHES ! 32 \<noteq> ZERO_HASHES ! 0"
    using nth_eq_iff_index_eq [OF distinct_ZERO_HASHES, of 32 0] by (simp add: TREE_DEPTH_def)
  ultimately show ?thesis
    using t known_roots_are_recent_roots [OF ref_zero_hashes_ok t, of "ZERO_HASHES ! 32"]
      known_roots_are_recent_roots [OF ref_zero_hashes_ok t, of zero32]
    by (auto intro: exI [of _ 0])
qed

theorem appends_never_stuck_witness:
  "\<exists>t. run_appends ref_runtime (replicate 3 (le_bytes 32 9)) initialize_tree = Ok t"
  using appends_never_stuck [of ref_runtime "replicate 3 (le_bytes 32 9)"]
  by (simp add: canonical_def le_val_le_bytes fr_modulus_def TREE_DEPTH_def)

end
