(* ===== verification/Bridge_Admin.thy ===== *)
theory Bridge_Admin
  imports Incremental_Tree
begin

text \<open>
  Set-up and administration of the on-chain program (\<open>lib.rs\<close>): the upgrade-authority gate,
  the \<open>initialize_*\<close> instructions, pausing, the settlement-authority rotation, the deposit caps
  and the layout migration of the bridge state. Each handler lists the constraints of its
  accounts struct as guards, in order, and then its body. Handlers return the new ledger;
  an error leaves the ledger as it was.
\<close>

section \<open>Definitions\<close>

definition check_upgrade_authority ::
  "runtime \<Rightarrow> program_data_account \<Rightarrow> pubkey \<Rightarrow> (unit, error) result" where
  "check_upgrade_authority rt pd expected =
     (let err = Bridge UnauthorizedInit; data = pd_data pd in
      and_then (require (pd_owner pd = bpf_loader_upgradeable_id rt) err) (\<lambda>_.
      and_then (require (45 \<le> length data) err) (\<lambda>_.
      let tag = (of_nat (le_val (take 4 data)) :: u32) in
      and_then (require (tag = 3) err) (\<lambda>_.
      and_then (require (data ! 12 = 1) err) (\<lambda>_.
      let actual = take 32 (drop 13 data) in
      require (actual = expected) err)))))"

text \<open>
  A definition \<open>X_accounts\<close> runs the constraints of the accounts struct \<open>X\<close> in order and returns
  the accounts the body uses, with the ledger after its \<open>init\<close> constraints.
\<close>

definition Initialize_accounts :: "runtime \<Rightarrow> pubkey \<Rightarrow> chain \<Rightarrow> (chain, error) result" where
  "Initialize_accounts rt authority c =
     and_then (require_fresh (bridge_state c)) (\<lambda>_.
     init_pda rt authority (bridge_state_key rt) (8 + BridgeState_INIT_SPACE) c)"

definition initialize ::
  "runtime \<Rightarrow> pubkey \<Rightarrow> u32 \<Rightarrow> bytes32 \<Rightarrow> chain \<Rightarrow> (chain, error) result" where
  "initialize rt authority program_version initial_merkle_root c =
     and_then (Initialize_accounts rt authority c) (\<lambda>c1.
     and_then (check_upgrade_authority rt (program_data c) authority) (\<lambda>_.
     Ok (c1\<lparr>bridge_state := Some
       \<lparr> bs_program_version = program_version,
         bs_authority = authority,
         bs_total_deposited = 0,
         bs_total_withdrawn = 0,
         bs_deposit_count = 0,
         bs_withdrawal_count = 0,
         bs_paused = False,
         bs_merkle_root = initial_merkle_root,
         bs_deposit_cap = 0 \<rparr>\<rparr>)))"

definition InitializeMerkleTree_accounts ::
  "runtime \<Rightarrow> pubkey \<Rightarrow> chain \<Rightarrow> (chain, error) result" where
  "InitializeMerkleTree_accounts rt authority c =
     and_then (require_fresh (merkle_tree c)) (\<lambda>_.
     init_pda rt authority (merkle_tree_key rt) (8 + MERKLE_TREE_SIZE) c)"

definition initialize_merkle_tree :: "runtime \<Rightarrow> pubkey \<Rightarrow> chain \<Rightarrow> (chain, error) result" where
  "initialize_merkle_tree rt authority c =
     and_then (InitializeMerkleTree_accounts rt authority c) (\<lambda>c1.
     and_then (check_upgrade_authority rt (program_data c) authority) (\<lambda>_.
     Ok (c1\<lparr>merkle_tree := Some initialize_tree\<rparr>)))"

text \<open>The \<open>has_one = authority\<close> constraint on the registry, shared by the cold-key handlers.\<close>

definition registry_with_authority ::
  "pubkey \<Rightarrow> chain \<Rightarrow> (ValidatorRegistry, error) result" where
  "registry_with_authority authority c =
     and_then (load_account (validator_registry c)) (\<lambda>registry.
     and_then (require (vr_authority registry = authority) (Anchor ConstraintHasOne)) (\<lambda>_.
     Ok registry))"

definition Pause_accounts :: "pubkey \<Rightarrow> chain \<Rightarrow> (BridgeState, error) result" where
  "Pause_accounts authority c =
     and_then (load_account (bridge_state c)) (\<lambda>bs.
     and_then (registry_with_authority authority c) (\<lambda>_. Ok bs))"

definition SetBridgeAuthority_accounts :: "pubkey \<Rightarrow> chain \<Rightarrow> (BridgeState, error) result" where
  "SetBridgeAuthority_accounts authority c =
     and_then (load_account (bridge_state c)) (\<lambda>bs.
     and_then (registry_with_authority authority c) (\<lambda>_. Ok bs))"

definition SetDepositCap_accounts :: "pubkey \<Rightarrow> chain \<Rightarrow> (BridgeState, error) result" where
  "SetDepositCap_accounts authority c =
     and_then (load_account (bridge_state c)) (\<lambda>bs.
     and_then (registry_with_authority authority c) (\<lambda>_. Ok bs))"

definition SetMinTokenStake_accounts ::
  "pubkey \<Rightarrow> chain \<Rightarrow> (ValidatorRegistry, error) result" where
  "SetMinTokenStake_accounts authority c = registry_with_authority authority c"

definition pause :: "pubkey \<Rightarrow> chain \<Rightarrow> (chain, error) result" where
  "pause authority c =
     and_then (Pause_accounts authority c) (\<lambda>bs.
     Ok (c\<lparr>bridge_state := Some (bs\<lparr>bs_paused := True\<rparr>)\<rparr>))"

definition unpause :: "pubkey \<Rightarrow> chain \<Rightarrow> (chain, error) result" where
  "unpause authority c =
     and_then (Pause_accounts authority c) (\<lambda>bs.
     Ok (c\<lparr>bridge_state := Some (bs\<lparr>bs_paused := False\<rparr>)\<rparr>))"

definition set_bridge_authority :: "pubkey \<Rightarrow> pubkey \<Rightarrow> chain \<Rightarrow> (chain, error) result" where
  "set_bridge_authority authority new_authority c =
     and_then (SetBridgeAuthority_accounts authority c) (\<lambda>bs.
     Ok (c\<lparr>bridge_state := Some (bs\<lparr>bs_authority := new_authority\<rparr>)\<rparr>))"

definition set_deposit_cap :: "pubkey \<Rightarrow> u64 \<Rightarrow> chain \<Rightarrow> (chain, error) result" where
  "set_deposit_cap authority new_cap c =
     and_then (SetDepositCap_accounts authority c) (\<lambda>bs.
     Ok (c\<lparr>bridge_state := Some (bs\<lparr>bs_deposit_cap := new_cap\<rparr>)\<rparr>))"

definition set_min_token_stake :: "pubkey \<Rightarrow> u64 \<Rightarrow> chain \<Rightarrow> (chain, error) result" where
  "set_min_token_stake authority new_min c =
     and_then (SetMinTokenStake_accounts authority c) (\<lambda>registry.
     Ok (c\<lparr>validator_registry := Some (registry\<lparr>vr_min_token_stake := new_min\<rparr>)\<rparr>))"

definition InitializeValidatorRegistry_accounts ::
  "runtime \<Rightarrow> pubkey \<Rightarrow> pubkey \<Rightarrow> chain \<Rightarrow> (chain, error) result" where
  "InitializeValidatorRegistry_accounts rt authority stake_mint c =
     and_then (require_fresh (validator_registry c)) (\<lambda>_.
     and_then (init_pda rt authority (validator_registry_key rt)
                 (8 + ValidatorRegistry_INIT_SPACE) c) (\<lambda>c1.
     and_then (load_account (mint_decimals c stake_mint)) (\<lambda>_.
     and_then (require_fresh (tokens c (stake_token_vault_key rt))) (\<lambda>_.
     init_token_pda rt authority (stake_token_vault_key rt) stake_mint
       (stake_vault_authority_key rt) c1))))"

definition initialize_validator_registry ::
  "runtime \<Rightarrow> pubkey \<Rightarrow> pubkey \<Rightarrow> chain \<Rightarrow> (chain, error) result" where
  "initialize_validator_registry rt authority stake_mint c =
     and_then (InitializeValidatorRegistry_accounts rt authority stake_mint c) (\<lambda>c1.
     and_then (check_upgrade_authority rt (program_data c) authority) (\<lambda>_.
     Ok (c1\<lparr>validator_registry := Some
       \<lparr> vr_authority = authority,
         vr_total_validators = 0,
         vr_active_validators = 0,
         vr_minimum_stake = MIN_VALIDATOR_STAKE,
         vr_total_active_stake = 0,
         vr_stake_mint = stake_mint,
         vr_min_token_stake = RECOMMENDED_MIN_TOKEN_STAKE \<rparr>\<rparr>)))"

definition InitStakeTokenVault_accounts ::
  "runtime \<Rightarrow> pubkey \<Rightarrow> pubkey \<Rightarrow> chain \<Rightarrow> (chain, error) result" where
  "InitStakeTokenVault_accounts rt authority stake_mint c =
     and_then (load_account (mint_decimals c stake_mint)) (\<lambda>_.
     and_then (require_fresh (tokens c (stake_token_vault_key rt))) (\<lambda>_.
     init_token_pda rt authority (stake_token_vault_key rt) stake_mint
       (stake_vault_authority_key rt) c))"

definition init_stake_token_vault ::
  "runtime \<Rightarrow> pubkey \<Rightarrow> pubkey \<Rightarrow> chain \<Rightarrow> (chain, error) result" where
  "init_stake_token_vault rt authority stake_mint c =
     and_then (InitStakeTokenVault_accounts rt authority stake_mint c) (\<lambda>c1.
     and_then (check_upgrade_authority rt (program_data c) authority) (\<lambda>_.
     Ok c1))"

definition InitAssetVault_accounts ::
  "runtime \<Rightarrow> pubkey \<Rightarrow> pubkey \<Rightarrow> chain \<Rightarrow> (chain, error) result" where
  "InitAssetVault_accounts rt authority mint c =
     and_then (load_account (mint_decimals c mint)) (\<lambda>_.
     and_then (require_fresh (tokens c (asset_vault_key rt mint))) (\<lambda>_.
     and_then (init_token_pda rt authority (asset_vault_key rt mint) mint
                 (asset_vault_authority_key rt) c) (\<lambda>c1.
     and_then (require_fresh (asset_configs c mint)) (\<lambda>_.
     init_pda rt authority (asset_config_key rt mint) AssetConfig_SPACE c1))))"

definition init_asset_vault ::
  "runtime \<Rightarrow> pubkey \<Rightarrow> pubkey \<Rightarrow> chain \<Rightarrow> (chain, error) result" where
  "init_asset_vault rt authority mint c =
     and_then (InitAssetVault_accounts rt authority mint c) (\<lambda>c1.
     and_then (check_upgrade_authority rt (program_data c) authority) (\<lambda>_.
     Ok (c1\<lparr>asset_configs := (asset_configs c)(mint \<mapsto>
       \<lparr> ac_mint = mint,
         ac_deposit_cap = 0,
         ac_total_deposited = 0,
         ac_deposit_count = 0,
         ac_bump = find_program_bump rt [ascii ''asset_config'', mint] (program_id rt) \<rparr>)\<rparr>)))"

definition SetAssetDepositCap_accounts :: "pubkey \<Rightarrow> chain \<Rightarrow> (AssetConfig, error) result" where
  "SetAssetDepositCap_accounts mint c =
     and_then (load_account (asset_configs c mint)) (\<lambda>config.
     and_then (require (ac_mint config = mint) (Anchor ConstraintSeeds)) (\<lambda>_. Ok config))"

definition set_asset_deposit_cap ::
  "runtime \<Rightarrow> pubkey \<Rightarrow> pubkey \<Rightarrow> u64 \<Rightarrow> chain \<Rightarrow> (chain, error) result" where
  "set_asset_deposit_cap rt authority mint new_cap c =
     and_then (SetAssetDepositCap_accounts mint c) (\<lambda>config.
     and_then (check_upgrade_authority rt (program_data c) authority) (\<lambda>_.
     Ok (c\<lparr>asset_configs := (asset_configs c)(mint \<mapsto> config\<lparr>ac_deposit_cap := new_cap\<rparr>)\<rparr>)))"

text \<open>
  \<open>migrate_bridge_state\<close> works on the raw bytes of the bridge-state account, which may be the
  shorter layout of an earlier program version: \<open>resize\<close> appends zero bytes.
\<close>

definition migrate_bridge_state ::
  "runtime \<Rightarrow> program_data_account \<Rightarrow> bytes \<Rightarrow> pubkey \<Rightarrow> bytes \<times> balances
     \<Rightarrow> (bytes \<times> balances, error) result" where
  "migrate_bridge_state rt pd discriminator authority st =
     (let (data, lam) = st; key = bridge_state_key rt; new_len = 8 + BridgeState_INIT_SPACE in
      and_then (check_upgrade_authority rt pd authority) (\<lambda>_.
      and_then (require (8 \<le> length data) (Bridge UnauthorizedInit)) (\<lambda>_.
      and_then (require (take 8 data = discriminator) (Bridge UnauthorizedInit)) (\<lambda>_.
      if length data < new_len then
        let min_balance = minimum_balance rt new_len; current = lam key in
        and_then (if current < min_balance
                  then ok_or (system_transfer rt authority key (min_balance - current) lam) Cpi
                  else Ok lam) (\<lambda>lam'.
        Ok (data @ replicate (new_len - length data) 0, lam'))
      else Ok (data, lam)))))"

section \<open>Lemmas\<close>

lemma u32_from_4_bytes:
  assumes "length bs = 4"
  shows "(of_nat (le_val bs) :: u32) = of_nat n \<longleftrightarrow> le_val bs = n mod 2 ^ 32"
proof -
  have "le_val bs < 2 ^ 32" using le_val_bound [of bs] assms by simp
  then show ?thesis by (auto simp: word_of_nat_eq_iff take_bit_eq_mod)
qed

text \<open>The \<open>ProgramData\<close> layout: enum tag, slot, the \<open>Some\<close> byte, the authority.\<close>

definition program_data_layout :: "bytes \<Rightarrow> pubkey \<Rightarrow> bytes" where
  "program_data_layout slot_bytes authority = [3, 0, 0, 0] @ slot_bytes @ [1] @ authority"

lemma le_bytes_4_3: "length bs = 4 \<Longrightarrow> le_val bs = 3 \<longleftrightarrow> bs = [3, 0, 0, 0]"
  using le_val_inject [of bs "[3, 0, 0, 0]"] by simp

lemma take_split:
  "45 \<le> length data \<Longrightarrow>
   data = take 4 data @ take 8 (drop 4 data) @ [data ! 12] @ take 32 (drop 13 data) @ drop 45 data"
proof -
  assume len: "45 \<le> length data"
  have "data = take 4 data @ drop 4 data" by simp
  also have "drop 4 data = take 8 (drop 4 data) @ drop 12 data"
    using append_take_drop_id [of 8 "drop 4 data"] by simp
  also have "drop 12 data = [data ! 12] @ drop 13 data"
    using len Cons_nth_drop_Suc [of 12 data] by simp
  also have "drop 13 data = take 32 (drop 13 data) @ drop 45 data"
    using append_take_drop_id [of 32 "drop 13 data"] by simp
  finally show ?thesis .
qed

lemma check_upgrade_authority_Ok:
  assumes "length expected = 32"
  shows "check_upgrade_authority rt pd expected = Ok () \<longleftrightarrow>
    pd_owner pd = bpf_loader_upgradeable_id rt \<and>
    (\<exists>slot_bytes rest. length slot_bytes = 8 \<and>
       pd_data pd = program_data_layout slot_bytes expected @ rest)"
    (is "?L \<longleftrightarrow> ?R")
proof
  let ?d = "pd_data pd"
  assume ?L
  then have owner: "pd_owner pd = bpf_loader_upgradeable_id rt" and len: "45 \<le> length ?d"
    and tag: "(of_nat (le_val (take 4 ?d)) :: u32) = of_nat 3" and "?d ! 12 = 1"
    and "take 32 (drop 13 ?d) = expected"
    by (auto simp: check_upgrade_authority_def Let_def rust_simps)
  moreover have "take 4 ?d = [3, 0, 0, 0]"
    using tag len by (simp add: u32_from_4_bytes le_bytes_4_3 del: of_nat_numeral)
  ultimately have "?d = [3, 0, 0, 0] @ take 8 (drop 4 ?d) @ [1] @ expected @ drop 45 ?d"
    using take_split [OF len] by simp
  then show ?R using owner len
    by (intro conjI exI [of _ "take 8 (drop 4 ?d)"] exI [of _ "drop 45 ?d"])
      (simp_all add: program_data_layout_def)
next
  assume ?R
  then show ?L using assms
    by (auto simp: check_upgrade_authority_def Let_def rust_simps program_data_layout_def nth_append)
qed

lemma check_upgrade_authority_Err:
  "check_upgrade_authority rt pd expected \<noteq> Ok () \<Longrightarrow>
   check_upgrade_authority rt pd expected = Err (Bridge UnauthorizedInit)"
  by (auto simp: check_upgrade_authority_def Let_def require_def split: if_splits)

lemma registry_with_authority_Ok [rust_simps]:
  "registry_with_authority authority c = Ok r \<longleftrightarrow>
     validator_registry c = Some r \<and> vr_authority r = authority"
  by (auto simp: registry_with_authority_def rust_simps)

text \<open>A successful initialisation or setting as its checks and its effect.\<close>

lemma initialize_Ok:
  "initialize rt authority version root c = Ok c' \<longleftrightarrow>
     bridge_state c = None \<and> check_upgrade_authority rt (program_data c) authority = Ok () \<and>
     (\<exists>lam. anchor_init rt authority (bridge_state_key rt) (8 + BridgeState_INIT_SPACE) (lamports c)
          = Some lam \<and>
        c' = c\<lparr>lamports := lam,
          account_owner := (account_owner c)(bridge_state_key rt := program_id rt),
          bridge_state := Some
           \<lparr> bs_program_version = version, bs_authority = authority, bs_total_deposited = 0,
             bs_total_withdrawn = 0, bs_deposit_count = 0, bs_withdrawal_count = 0,
             bs_paused = False, bs_merkle_root = root, bs_deposit_cap = 0 \<rparr>\<rparr>)"
  by (auto simp: initialize_def Initialize_accounts_def rust_simps)

lemma initialize_merkle_tree_Ok:
  "initialize_merkle_tree rt authority c = Ok c' \<longleftrightarrow>
     merkle_tree c = None \<and> check_upgrade_authority rt (program_data c) authority = Ok () \<and>
     (\<exists>lam. anchor_init rt authority (merkle_tree_key rt) (8 + MERKLE_TREE_SIZE) (lamports c)
          = Some lam \<and>
        c' = c\<lparr>lamports := lam,
          account_owner := (account_owner c)(merkle_tree_key rt := program_id rt),
          merkle_tree := Some initialize_tree\<rparr>)"
  by (auto simp: initialize_merkle_tree_def InitializeMerkleTree_accounts_def rust_simps)

lemma pause_Ok:
  "pause authority c = Ok c' \<longleftrightarrow>
     (\<exists>bs r. bridge_state c = Some bs \<and> validator_registry c = Some r \<and> vr_authority r = authority \<and>
        c' = c\<lparr>bridge_state := Some (bs\<lparr>bs_paused := True\<rparr>)\<rparr>)"
  by (auto simp: pause_def Pause_accounts_def rust_simps)

lemma unpause_Ok:
  "unpause authority c = Ok c' \<longleftrightarrow>
     (\<exists>bs r. bridge_state c = Some bs \<and> validator_registry c = Some r \<and> vr_authority r = authority \<and>
        c' = c\<lparr>bridge_state := Some (bs\<lparr>bs_paused := False\<rparr>)\<rparr>)"
  by (auto simp: unpause_def Pause_accounts_def rust_simps)

lemma set_bridge_authority_Ok:
  "set_bridge_authority authority new_authority c = Ok c' \<longleftrightarrow>
     (\<exists>bs r. bridge_state c = Some bs \<and> validator_registry c = Some r \<and> vr_authority r = authority \<and>
        c' = c\<lparr>bridge_state := Some (bs\<lparr>bs_authority := new_authority\<rparr>)\<rparr>)"
  by (auto simp: set_bridge_authority_def SetBridgeAuthority_accounts_def rust_simps)

lemma set_deposit_cap_Ok:
  "set_deposit_cap authority cap c = Ok c' \<longleftrightarrow>
     (\<exists>bs r. bridge_state c = Some bs \<and> validator_registry c = Some r \<and> vr_authority r = authority \<and>
        c' = c\<lparr>bridge_state := Some (bs\<lparr>bs_deposit_cap := cap\<rparr>)\<rparr>)"
  by (auto simp: set_deposit_cap_def SetDepositCap_accounts_def rust_simps)

lemma set_min_token_stake_Ok:
  "set_min_token_stake authority floor c = Ok c' \<longleftrightarrow>
     (\<exists>r. validator_registry c = Some r \<and> vr_authority r = authority \<and>
        c' = c\<lparr>validator_registry := Some (r\<lparr>vr_min_token_stake := floor\<rparr>)\<rparr>)"
  by (auto simp: set_min_token_stake_def SetMinTokenStake_accounts_def rust_simps)

lemma initialize_validator_registry_Ok:
  "initialize_validator_registry rt authority mint c = Ok c' \<longleftrightarrow>
     validator_registry c = None \<and> mint_decimals c mint \<noteq> None \<and>
     tokens c (stake_token_vault_key rt) = None \<and>
     check_upgrade_authority rt (program_data c) authority = Ok () \<and>
     (\<exists>lam lam' ts. anchor_init rt authority (validator_registry_key rt)
          (8 + ValidatorRegistry_INIT_SPACE) (lamports c) = Some lam \<and>
        init_token_account rt authority (stake_token_vault_key rt) mint
          (stake_vault_authority_key rt) (lam, tokens c) = Some (lam', ts) \<and>
        c' = c\<lparr>lamports := lam', tokens := ts,
          account_owner := (account_owner c)(validator_registry_key rt := program_id rt),
          validator_registry := Some
           \<lparr> vr_authority = authority, vr_total_validators = 0, vr_active_validators = 0,
             vr_minimum_stake = MIN_VALIDATOR_STAKE, vr_total_active_stake = 0,
             vr_stake_mint = mint, vr_min_token_stake = RECOMMENDED_MIN_TOKEN_STAKE \<rparr>\<rparr>)"
  by (auto simp: initialize_validator_registry_def InitializeValidatorRegistry_accounts_def
      rust_simps)

lemma init_stake_token_vault_Ok:
  "init_stake_token_vault rt authority mint c = Ok c' \<longleftrightarrow>
     mint_decimals c mint \<noteq> None \<and> tokens c (stake_token_vault_key rt) = None \<and>
     check_upgrade_authority rt (program_data c) authority = Ok () \<and>
     (\<exists>lam ts. init_token_account rt authority (stake_token_vault_key rt) mint
          (stake_vault_authority_key rt) (lamports c, tokens c) = Some (lam, ts) \<and>
        c' = c\<lparr>lamports := lam, tokens := ts\<rparr>)"
  by (auto simp: init_stake_token_vault_def InitStakeTokenVault_accounts_def rust_simps)

lemma init_asset_vault_Ok:
  "init_asset_vault rt authority mint c = Ok c' \<longleftrightarrow>
     mint_decimals c mint \<noteq> None \<and> tokens c (asset_vault_key rt mint) = None \<and>
     asset_configs c mint = None \<and>
     check_upgrade_authority rt (program_data c) authority = Ok () \<and>
     (\<exists>lam lam' ts. init_token_account rt authority (asset_vault_key rt mint) mint
          (asset_vault_authority_key rt) (lamports c, tokens c) = Some (lam, ts) \<and>
        anchor_init rt authority (asset_config_key rt mint) AssetConfig_SPACE lam = Some lam' \<and>
        c' = c\<lparr>lamports := lam', tokens := ts,
          account_owner := (account_owner c)(asset_config_key rt mint := program_id rt),
          asset_configs := (asset_configs c)(mint \<mapsto>
           \<lparr> ac_mint = mint, ac_deposit_cap = 0, ac_total_deposited = 0, ac_deposit_count = 0,
             ac_bump = find_program_bump rt [ascii ''asset_config'', mint] (program_id rt) \<rparr>)\<rparr>)"
  by (auto simp: init_asset_vault_def InitAssetVault_accounts_def rust_simps)

lemma set_asset_deposit_cap_Ok:
  "set_asset_deposit_cap rt authority mint cap c = Ok c' \<longleftrightarrow>
     check_upgrade_authority rt (program_data c) authority = Ok () \<and>
     (\<exists>config. asset_configs c mint = Some config \<and> ac_mint config = mint \<and>
        c' = c\<lparr>asset_configs := (asset_configs c)(mint \<mapsto> config\<lparr>ac_deposit_cap := cap\<rparr>)\<rparr>)"
  by (auto simp: set_asset_deposit_cap_def SetAssetDepositCap_accounts_def rust_simps)

section \<open>The bridge migration\<close>

lemma migrate_bridge_state_Ok:
  "migrate_bridge_state rt pd disc authority (data, lam) = Ok (data', lam') \<longleftrightarrow>
     check_upgrade_authority rt pd authority = Ok () \<and> 8 \<le> length data \<and> take 8 data = disc \<and>
     data' = data @ replicate (8 + BridgeState_INIT_SPACE - length data) 0 \<and>
     (if length data < 8 + BridgeState_INIT_SPACE \<and>
         lam (bridge_state_key rt) < minimum_balance rt (8 + BridgeState_INIT_SPACE)
      then system_transfer rt authority (bridge_state_key rt)
        (minimum_balance rt (8 + BridgeState_INIT_SPACE) - lam (bridge_state_key rt)) lam = Some lam'
      else lam' = lam)"
  by (auto simp: migrate_bridge_state_def Let_def rust_simps split: if_splits)

lemma top_up_reaches:
  fixes a m x :: u64
  assumes "a < m" and "unat x = unat a + unat (m - a)"
  shows "x = m"
  using assms by (simp add: word_unat_eq_iff unat_minus_no_wrap word_less_nat_alt word_le_nat_alt)

text \<open>Migrating the bridge state keeps every byte the account had, fills the new fields
  with zeros up to the current size and no further, leaves the account rent-exempt for that size
  when it grew, and a second migration changes nothing.\<close>

theorem migrate_bridge_state_grows:
  assumes "runtime_ok rt" and "signer_ok rt authority"
    and "migrate_bridge_state rt pd disc authority (data, lam) = Ok (data', lam')"
  shows "take (length data) data' = data \<and>
    length data' = max (length data) (8 + BridgeState_INIT_SPACE) \<and>
    (\<forall>b\<in>set (drop (length data) data'). b = 0) \<and>
    (length data < 8 + BridgeState_INIT_SPACE \<longrightarrow>
       minimum_balance rt (8 + BridgeState_INIT_SPACE) \<le> lam' (bridge_state_key rt)) \<and>
    migrate_bridge_state rt pd disc authority (data', lam') = Ok (data', lam')"
proof (intro conjI impI)
  let ?n = "8 + BridgeState_INIT_SPACE" and ?k = "bridge_state_key rt"
  note ok = assms(3) [unfolded migrate_bridge_state_Ok]
  then have data': "data' = data @ replicate (?n - length data) 0" by simp
  then show "take (length data) data' = data" "length data' = max (length data) ?n"
    "\<forall>b\<in>set (drop (length data) data'). b = 0" by simp_all
  show "migrate_bridge_state rt pd disc authority (data', lam') = Ok (data', lam')"
    unfolding migrate_bridge_state_Ok using ok data' by auto
  assume "length data < ?n"
  moreover have "authority \<noteq> ?k"
    using assms(2) unfolding signer_ok_def bridge_state_key_def by metis
  ultimately show "minimum_balance rt ?n \<le> lam' ?k"
    using ok top_up_reaches system_transferD(4) [OF runtime_okD(1) [OF assms(1)]]
    by (cases "lam ?k < minimum_balance rt ?n") fastforce+
qed

definition example_program_data :: "pubkey \<Rightarrow> program_data_account" where
  "example_program_data authority =
     \<lparr> pd_owner = replicate 32 8, pd_data = program_data_layout (replicate 8 0) authority \<rparr>"

lemma example_upgrade_authority:
  "length authority = 32 \<Longrightarrow>
   check_upgrade_authority ref_runtime (example_program_data authority) authority = Ok ()"
  by (subst check_upgrade_authority_Ok, assumption)
    (simp add: example_program_data_def exI [of _ "replicate 8 0"])

theorem migrate_bridge_state_grows_witness:
  "migrate_bridge_state ref_runtime (example_program_data (replicate 32 1)) (replicate 8 6)
     (replicate 32 1) (replicate 109 6, (\<lambda>_. 1000))
     = Ok (replicate 109 6 @ replicate 8 0, (\<lambda>_. 1000)) \<and>
   migrate_bridge_state ref_runtime (example_program_data (replicate 32 1)) (replicate 8 6)
     (replicate 32 1) (replicate 109 6 @ replicate 8 0, (\<lambda>_. 1000))
     = Ok (replicate 109 6 @ replicate 8 0, (\<lambda>_. 1000))"
proof -
  have "migrate_bridge_state ref_runtime (example_program_data (replicate 32 1)) (replicate 8 6)
     (replicate 32 1) (replicate 109 6, (\<lambda>_. 1000))
     = Ok (replicate 109 6 @ replicate 8 0, (\<lambda>_. 1000))"
    by (simp add: migrate_bridge_state_Ok example_upgrade_authority BridgeState_INIT_SPACE_def)
  then show ?thesis
    using migrate_bridge_state_grows [OF ref_runtime_ok ref_signer_ok, of "replicate 32 1"
      "example_program_data (replicate 32 1)" "replicate 8 6"] by simp
qed

end
