(* ===== verification/Quorum.thy ===== *)
theory Quorum
  imports Reference_Runtime
begin

text \<open>
  The stake-weighted settlement quorum (\<open>programs/paraloom/src/quorum.rs\<close>). The locale
  \<open>supermajority\<close> is the contract of a stake threshold, proved once and interpreted here on the
  on-chain threshold and later on the one the node applies before it assembles a settlement.
  The lemmas turn the loop over \<open>remaining_accounts\<close> into the sum of the stakes of a list of
  distinct, signing, active validators.
\<close>

section \<open>Definitions\<close>

definition quorum_threshold :: "u64 \<Rightarrow> u64" where
  "quorum_threshold total_active_stake = saturating_mul total_active_stake 2 div 3 + 1"

text \<open>The loop over \<open>quorum_accounts.chunks(2)\<close>; an odd account at the end breaks out.\<close>

fun quorum_loop ::
  "runtime \<Rightarrow> pubkey \<Rightarrow> account_info list \<Rightarrow> pubkey list \<Rightarrow> u64 \<Rightarrow> u64" where
  "quorum_loop rt settlement_authority (wallet # pda_info # rest) seen counted_stake =
     (if \<not> ai_is_signer wallet then
        quorum_loop rt settlement_authority rest seen counted_stake
      else if ai_key wallet = settlement_authority then
        quorum_loop rt settlement_authority rest seen counted_stake
      else if ai_owner pda_info \<noteq> program_id rt then
        quorum_loop rt settlement_authority rest seen counted_stake
      else if find_program_address rt [ascii ''validator'', ai_key wallet] (program_id rt)
              \<noteq> ai_key pda_info then
        quorum_loop rt settlement_authority rest seen counted_stake
      else (case validator_try_deserialize rt (ai_data pda_info) of
          None \<Rightarrow> quorum_loop rt settlement_authority rest seen counted_stake
        | Some validator \<Rightarrow>
            if \<not> va_is_active validator \<or> va_validator validator \<noteq> ai_key wallet then
              quorum_loop rt settlement_authority rest seen counted_stake
            else if ai_key wallet \<in> set seen then
              quorum_loop rt settlement_authority rest seen counted_stake
            else
              quorum_loop rt settlement_authority rest (seen @ [ai_key wallet])
                (saturating_add counted_stake (va_stake_amount validator))))"
| "quorum_loop rt settlement_authority [leftover] seen counted_stake = counted_stake"
| "quorum_loop rt settlement_authority [] seen counted_stake = counted_stake"

definition verify_validator_quorum ::
  "runtime \<Rightarrow> ValidatorRegistry \<Rightarrow> pubkey \<Rightarrow> u64 \<Rightarrow> account_info list \<Rightarrow> (unit, error) result" where
  "verify_validator_quorum rt registry settlement_authority authority_active_stake
       quorum_accounts =
     (let eligible_stake = saturating_sub (vr_total_active_stake registry) authority_active_stake;
          threshold = quorum_threshold eligible_stake;
          counted_stake = quorum_loop rt settlement_authority quorum_accounts [] 0
      in and_then (require (counted_stake \<le> eligible_stake) (Bridge QuorumNotMet))
           (\<lambda>_. require (threshold \<le> counted_stake) (Bridge QuorumNotMet)))"

section \<open>Supermajorities\<close>

locale supermajority =
  fixes threshold :: "u64 \<Rightarrow> u64"
  assumes above_two_thirds:
    "unat amount < 2 ^ 63 \<Longrightarrow> 2 * unat amount < 3 * unat (threshold amount)"
    and attainable: "0 < amount \<Longrightarrow> unat amount < 2 ^ 63 \<Longrightarrow> threshold amount \<le> amount"
begin

lemma positive: "unat amount < 2 ^ 63 \<Longrightarrow> 0 < unat (threshold amount)"
  using above_two_thirds [of amount] by (cases "unat (threshold amount)") auto

lemma overlap:
  fixes w :: "'v \<Rightarrow> nat"
  assumes "finite U" and "A \<subseteq> U" and "B \<subseteq> U" and "sum w U \<le> unat amount"
    and "unat amount < 2 ^ 63"
    and "unat (threshold amount) \<le> sum w A" and "unat (threshold amount) \<le> sum w B"
  shows "unat amount < 3 * sum w (A \<inter> B)"
proof -
  have fin: "finite A" "finite B" using assms(1-3) finite_subset by blast+
  have "sum w A + sum w B = sum w (A \<union> B) + sum w (A \<inter> B)"
    using fin by (simp add: sum.union_inter)
  moreover have "sum w (A \<union> B) \<le> sum w U"
    using assms(1-3) by (intro sum_mono2) auto
  ultimately show ?thesis
    using above_two_thirds [OF assms(5)] assms(4,6,7) by linarith
qed

text \<open>Two quorums share a validator outside any set that holds at most a third of the stake.\<close>

lemma honest_overlap:
  fixes w :: "'v \<Rightarrow> nat"
  assumes "finite U" and "A \<subseteq> U" and "B \<subseteq> U" and "F \<subseteq> U" and "sum w U \<le> unat amount"
    and "unat amount < 2 ^ 63"
    and "unat (threshold amount) \<le> sum w A" and "unat (threshold amount) \<le> sum w B"
    and "3 * sum w F \<le> unat amount"
  shows "\<exists>v. v \<in> A \<and> v \<in> B \<and> v \<notin> F"
proof (rule ccontr)
  assume "\<not> ?thesis"
  then have "A \<inter> B \<subseteq> F" by blast
  then have "sum w (A \<inter> B) \<le> sum w F"
    using assms(1,4) finite_subset [of F U] by (intro sum_mono2) auto
  then show False using overlap [OF assms(1-3,5-8)] assms(9) by linarith
qed

end

lemma unat_threshold_expr:
  assumes "unat (amount :: u64) < 2 ^ 63"
  shows "unat (saturating_mul amount 2 div 3 + 1) = 2 * unat amount div 3 + 1"
proof -
  have "unat (saturating_mul amount 2) = 2 * unat amount"
    using assms by (simp add: unat_saturating_mul)
  then have "unat (saturating_mul amount 2 div 3) = 2 * unat amount div 3"
    by (simp add: unat_div)
  then show ?thesis using assms by (simp add: unat_plus_no_wrap)
qed

interpretation onchain_quorum: supermajority quorum_threshold
proof
  fix amount :: u64
  assume small: "unat amount < 2 ^ 63"
  show "2 * unat amount < 3 * unat (quorum_threshold amount)"
    unfolding quorum_threshold_def unat_threshold_expr [OF small] by presburger
  show "quorum_threshold amount \<le> amount" if "0 < amount"
  proof -
    have "0 < unat amount" using that by (simp add: unat_gt_0 word_gt_0)
    then have "2 * unat amount div 3 + 1 \<le> unat amount" by presburger
    then show ?thesis
      by (simp add: word_le_nat_alt quorum_threshold_def unat_threshold_expr [OF small])
  qed
qed

section \<open>The counted members\<close>

text \<open>The validator a pair contributes, before the check against \<open>seen\<close>.\<close>

definition pair_member ::
  "runtime \<Rightarrow> pubkey \<Rightarrow> account_info \<Rightarrow> account_info \<Rightarrow> ValidatorAccount option" where
  "pair_member rt authority wallet pda_info =
     (if ai_is_signer wallet \<and> ai_key wallet \<noteq> authority \<and> ai_owner pda_info = program_id rt \<and>
         validator_key rt (ai_key wallet) = ai_key pda_info
      then (case validator_try_deserialize rt (ai_data pda_info) of
              None \<Rightarrow> None
            | Some v \<Rightarrow>
                if va_is_active v \<and> va_validator v = ai_key wallet then Some v else None)
      else None)"

fun counted_members ::
  "runtime \<Rightarrow> pubkey \<Rightarrow> account_info list \<Rightarrow> pubkey list \<Rightarrow> ValidatorAccount list" where
  "counted_members rt authority (wallet # pda_info # rest) seen =
     (case pair_member rt authority wallet pda_info of
        None \<Rightarrow> counted_members rt authority rest seen
      | Some v \<Rightarrow>
          if ai_key wallet \<in> set seen then counted_members rt authority rest seen
          else v # counted_members rt authority rest (seen @ [ai_key wallet]))"
| "counted_members rt authority [leftover] seen = []"
| "counted_members rt authority [] seen = []"

abbreviation stake_sum :: "ValidatorAccount list \<Rightarrow> nat" where
  "stake_sum vs \<equiv> sum_list (map (\<lambda>v. unat (va_stake_amount v)) vs)"

lemma quorum_loop_sum:
  "unat (quorum_loop rt authority infos seen counted) =
     min (unat counted + stake_sum (counted_members rt authority infos seen)) (2 ^ 64 - 1)"
proof (induction rt authority infos seen counted rule: quorum_loop.induct)
  case (1 rt authority wallet pda_info rest seen counted)
  then show ?case
    by (auto simp: pair_member_def validator_key_def pda_def unat_saturating_add min_def
        split: option.splits)
next
  case (2 rt authority x seen counted)
  then show ?case using unat_u64_bound [of counted] by simp
next
  case (3 rt authority seen counted)
  then show ?case using unat_u64_bound [of counted] by simp
qed

lemma pair_memberD:
  "pair_member rt authority wallet pda_info = Some v \<Longrightarrow>
   ai_is_signer wallet \<and> ai_key wallet \<noteq> authority \<and> ai_owner pda_info = program_id rt \<and>
   ai_key pda_info = validator_key rt (ai_key wallet) \<and>
   validator_try_deserialize rt (ai_data pda_info) = Some v \<and>
   va_is_active v \<and> va_validator v = ai_key wallet"
  by (auto simp: pair_member_def split: if_splits option.splits)

lemma counted_members_distinct:
  "distinct (map va_validator (counted_members rt authority infos seen)) \<and>
   set (map va_validator (counted_members rt authority infos seen)) \<inter> set seen = {}"
proof (induction rt authority infos seen rule: counted_members.induct)
  case (1 rt authority wallet pda_info rest seen)
  show ?case
  proof (cases "pair_member rt authority wallet pda_info")
    case (Some v)
    then have "va_validator v = ai_key wallet" by (simp add: pair_memberD)
    then show ?thesis using 1 Some by auto
  qed (use 1 in simp)
qed simp_all

text \<open>Who a counted member is: an account of the program at the canonical address of a wallet
  that signed and is not the settlement authority.\<close>

definition vouched ::
  "runtime \<Rightarrow> pubkey \<Rightarrow> account_info list \<Rightarrow> ValidatorAccount \<Rightarrow> bool" where
  "vouched rt authority infos v \<longleftrightarrow>
     va_is_active v \<and> va_validator v \<noteq> authority \<and>
     (\<exists>s \<in> set infos. ai_is_signer s \<and> ai_key s = va_validator v) \<and>
     (\<exists>p \<in> set infos. ai_owner p = program_id rt \<and>
        ai_key p = validator_key rt (va_validator v) \<and>
        validator_try_deserialize rt (ai_data p) = Some v)"

lemma counted_members_vouched:
  "v \<in> set (counted_members rt authority infos seen) \<Longrightarrow> vouched rt authority infos v"
proof (induction rt authority infos seen rule: counted_members.induct)
  case (1 rt authority wallet pda_info rest seen)
  have mono: "vouched rt authority rest v \<Longrightarrow>
      vouched rt authority (wallet # pda_info # rest) v"
    by (auto simp: vouched_def)
  show ?case
    using 1 mono by (auto simp: vouched_def dest!: pair_memberD split: option.splits if_splits)
qed simp_all

lemma verify_quorum_Ok:
  "verify_validator_quorum rt registry authority authority_stake infos = Ok () \<longleftrightarrow>
     (let eligible = saturating_sub (vr_total_active_stake registry) authority_stake;
          counted = quorum_loop rt authority infos [] 0
      in quorum_threshold eligible \<le> counted \<and> counted \<le> eligible)"
  by (auto simp: verify_validator_quorum_def Let_def rust_simps)

lemma verify_quorum_Err:
  "verify_validator_quorum rt registry authority authority_stake infos \<noteq> Ok () \<Longrightarrow>
   verify_validator_quorum rt registry authority authority_stake infos = Err (Bridge QuorumNotMet)"
  by (auto simp: verify_validator_quorum_def Let_def require_def split: if_splits)

text \<open>What an accepted quorum proves, in natural numbers.\<close>

lemma verify_quorum_members:
  assumes "verify_validator_quorum rt registry authority authority_stake infos = Ok ()"
    and "unat (vr_total_active_stake registry) < 2 ^ 63"
  shows "2 * (unat (vr_total_active_stake registry) - unat authority_stake) <
      3 * stake_sum (counted_members rt authority infos [])"
    and "stake_sum (counted_members rt authority infos []) \<le>
      unat (vr_total_active_stake registry) - unat authority_stake"
proof -
  let ?e = "saturating_sub (vr_total_active_stake registry) authority_stake"
  let ?s = "stake_sum (counted_members rt authority infos [])"
  have e: "unat ?e = unat (vr_total_active_stake registry) - unat authority_stake"
    by (rule unat_saturating_sub)
  then have small: "unat ?e < 2 ^ 63" using assms(2) by simp
  have ok: "unat (quorum_threshold ?e) \<le> min ?s (2 ^ 64 - 1)" "min ?s (2 ^ 64 - 1) \<le> unat ?e"
    using assms(1) quorum_loop_sum [of rt authority infos "[]" 0]
    by (simp_all add: verify_quorum_Ok Let_def word_le_nat_alt)
  from ok(2) small have "min ?s (2 ^ 64 - 1) = ?s" by (simp add: min_def split: if_splits)
  with ok onchain_quorum.above_two_thirds [OF small] e
  show "2 * (unat (vr_total_active_stake registry) - unat authority_stake) < 3 * ?s"
    and "?s \<le> unat (vr_total_active_stake registry) - unat authority_stake" by simp_all
qed

section \<open>An example committee\<close>

definition example_member :: "pubkey \<Rightarrow> u64 \<Rightarrow> ValidatorAccount" where
  "example_member wallet stake =
     \<lparr> va_validator = wallet, va_stake_amount = stake, va_reputation_score = 1000,
       va_total_tasks_verified = 0, va_successful_verifications = 0, va_registered_at = 0,
       va_last_active = 0, va_is_active = True, va_pending_rewards = 0, va_total_earnings = 0,
       va_times_slashed = 0, va_unbonding_amount = 0, va_unbonding_slot = 0,
       va_token_stake_amount = 0, va_token_unbonding_amount = 0 \<rparr>"

text \<open>The two accounts a co-signing validator adds: its wallet and its validator account.\<close>

definition cosigner_infos :: "ValidatorAccount \<Rightarrow> account_info list" where
  "cosigner_infos va =
     [\<lparr> ai_key = va_validator va, ai_is_signer = True, ai_owner = zero32, ai_data = [] \<rparr>,
      \<lparr> ai_key = validator_key ref_runtime (va_validator va), ai_is_signer = False,
        ai_owner = program_id ref_runtime, ai_data = ref_validator_serialize va \<rparr>]"

definition example_pair :: "pubkey \<Rightarrow> u64 \<Rightarrow> account_info list" where
  "example_pair wallet stake = cosigner_infos (example_member wallet stake)"

definition example_infos :: "account_info list" where
  "example_infos = example_pair (replicate 32 1) 40 @ example_pair (replicate 32 2) 30"

definition example_registry :: ValidatorRegistry where
  "example_registry =
     \<lparr> vr_authority = replicate 32 5, vr_total_validators = 3, vr_active_validators = 3,
       vr_minimum_stake = 1, vr_total_active_stake = 100, vr_stake_mint = replicate 32 6,
       vr_min_token_stake = 0 \<rparr>"

lemma cosigner_loop:
  assumes "length (va_validator va) = 32" and "va_validator va \<noteq> authority"
    and "va_validator va \<notin> set seen" and "va_is_active va"
  shows "quorum_loop ref_runtime authority (cosigner_infos va @ rest) seen counted =
    quorum_loop ref_runtime authority rest (seen @ [va_validator va])
      (saturating_add counted (va_stake_amount va))"
  using ref_validator_roundtrip [OF assms(1)] assms(2-4)
  by (simp add: cosigner_infos_def validator_key_def pda_def)

lemma example_pair_loop:
  assumes "length wallet = 32" and "wallet \<noteq> authority" and "wallet \<notin> set seen"
  shows "quorum_loop ref_runtime authority (example_pair wallet stake @ rest) seen counted =
    quorum_loop ref_runtime authority rest (seen @ [wallet]) (saturating_add counted stake)"
  using cosigner_loop [of "example_member wallet stake" authority seen rest counted] assms
  by (simp add: example_pair_def example_member_def)

lemma example_quorum_accepted:
  "verify_validator_quorum ref_runtime example_registry (replicate 32 9) 0 example_infos = Ok ()"
  using example_pair_loop [of "replicate 32 2" "replicate 32 9" "[replicate 32 1]" 30 "[]" 40]
  by (simp add: verify_quorum_Ok example_infos_def example_pair_loop example_registry_def
      quorum_threshold_def saturating_mul_def saturating_sub_def saturating_add_def)

section \<open>Properties\<close>

text \<open>Settlement needs a supermajority of independent stake: whenever
  \<open>verify_validator_quorum\<close> accepts, there is a list of distinct active validators, none of
  them the settlement authority, each with a signing wallet and the program-owned account at
  its canonical address among the passed accounts, whose stake exceeds two thirds of the
  active stake without the authority's and does not exceed that stake.\<close>

theorem quorum_is_supermajority:
  assumes "verify_validator_quorum rt registry authority authority_stake infos = Ok ()"
    and "unat (vr_total_active_stake registry) < 2 ^ 63"
  shows "\<exists>vs. distinct (map va_validator vs) \<and> list_all (vouched rt authority infos) vs \<and>
    2 * (unat (vr_total_active_stake registry) - unat authority_stake) < 3 * stake_sum vs \<and>
    stake_sum vs \<le> unat (vr_total_active_stake registry) - unat authority_stake"
  using verify_quorum_members [OF assms] counted_members_distinct [of rt authority infos "[]"]
    counted_members_vouched [of _ rt authority infos "[]"]
  by (intro exI [of _ "counted_members rt authority infos []"]) (simp add: list_all_iff)

theorem quorum_is_supermajority_witness:
  "\<exists>vs. list_all (vouched ref_runtime (replicate 32 9) example_infos) vs \<and> 2 * 100 < 3 * stake_sum vs"
  using quorum_is_supermajority [OF example_quorum_accepted] by (auto simp: example_registry_def)

text \<open>An empty or zero-stake quorum authorises nothing: without a counted member the check
  fails with \<open>QuorumNotMet\<close>, whatever the registry says (even with no active stake at all).\<close>

theorem quorum_needs_a_member:
  assumes "stake_sum (counted_members rt authority infos []) = 0"
  shows "verify_validator_quorum rt registry authority authority_stake infos =
    Err (Bridge QuorumNotMet)"
proof -
  let ?e = "saturating_sub (vr_total_active_stake registry) authority_stake"
  have "quorum_loop rt authority infos [] 0 = 0"
    using quorum_loop_sum [of rt authority infos "[]" 0] assms by (simp add: unat_eq_zero)
  moreover have "0 < quorum_threshold ?e"
  proof -
    have "unat (saturating_mul ?e 2) \<le> 2 ^ 64 - 1"
      by (simp add: unat_saturating_mul)
    then have "unat (saturating_mul ?e 2 div 3) \<le> (2 ^ 64 - 1) div 3"
      by (simp only: unat_div) (simp add: div_le_mono)
    then have "unat (quorum_threshold ?e) = unat (saturating_mul ?e 2 div 3) + 1"
      unfolding quorum_threshold_def by (simp add: unat_plus_no_wrap)
    then show ?thesis by (simp add: word_less_nat_alt)
  qed
  ultimately show ?thesis
    by (intro verify_quorum_Err) (auto simp: verify_quorum_Ok Let_def)
qed

theorem quorum_needs_a_member_witness:
  "verify_validator_quorum ref_runtime example_registry (replicate 32 9) 0 [] =
     Err (Bridge QuorumNotMet)"
  using quorum_needs_a_member [of ref_runtime "replicate 32 9" "[]" example_registry 0] by simp



end
