(* ===== verification/Vk_Data.thy ===== *)
theory Vk_Data
  imports Prelude
begin

text \<open>
  The verifying key of the transact circuit (\<open>programs/paraloom/src/transact_vk_data.rs\<close>),
  byte for byte: the curve points in the \<open>alt_bn128\<close> wire form.
\<close>

definition VK_ALPHA_G1 :: bytes where
  "VK_ALPHA_G1 =
    [45, 77, 154, 167, 227, 2, 217, 223, 65, 116, 157, 85, 7, 148, 157, 5, 219, 234, 51, 251,
     177, 108, 100, 59, 34, 245, 153, 162, 190, 109, 242, 226, 20, 190, 221, 80, 60, 55, 206,
     176, 97, 216, 236, 96, 32, 159, 227, 69, 206, 137, 131, 10, 25, 35, 3, 1, 240, 118, 202,
     255, 0, 77, 25, 38]"

definition VK_BETA_G2 :: bytes where
  "VK_BETA_G2 =
    [9, 103, 3, 47, 203, 247, 118, 209, 175, 201, 133, 248, 136, 119, 241, 130, 211, 132, 128,
     166, 83, 242, 222, 202, 169, 121, 76, 188, 59, 243, 6, 12, 14, 24, 120, 71, 173, 76, 121,
     131, 116, 208, 214, 115, 43, 245, 1, 132, 125, 214, 139, 192, 224, 113, 36, 30, 2, 19,
     188, 127, 193, 61, 183, 171, 176, 76, 251, 209, 224, 138, 112, 74, 153, 245, 232, 71,
     217, 63, 140, 60, 170, 253, 222, 196, 107, 122, 13, 55, 157, 166, 154, 77, 17, 35, 70,
     167, 23, 57, 193, 177, 164, 87, 168, 199, 49, 49, 35, 210, 77, 47, 145, 146, 248, 150,
     183, 198, 62, 234, 5, 169, 213, 127, 6, 84, 122, 208, 206, 200]"

definition VK_GAMMA_G2 :: bytes where
  "VK_GAMMA_G2 =
    [25, 142, 147, 147, 146, 13, 72, 58, 114, 96, 191, 183, 49, 251, 93, 37, 241, 170, 73, 51,
     53, 169, 231, 18, 151, 228, 133, 183, 174, 243, 18, 194, 24, 0, 222, 239, 18, 31, 30,
     118, 66, 106, 0, 102, 94, 92, 68, 121, 103, 67, 34, 212, 247, 94, 218, 221, 70, 222, 189,
     92, 217, 146, 246, 237, 9, 6, 137, 208, 88, 95, 240, 117, 236, 158, 153, 173, 105, 12,
     51, 149, 188, 75, 49, 51, 112, 179, 142, 243, 85, 172, 218, 220, 209, 34, 151, 91, 18,
     200, 94, 165, 219, 140, 109, 235, 74, 171, 113, 128, 141, 203, 64, 143, 227, 209, 231,
     105, 12, 67, 211, 123, 76, 230, 204, 1, 102, 250, 125, 170]"

definition VK_DELTA_G2 :: bytes where
  "VK_DELTA_G2 =
    [28, 77, 218, 77, 113, 171, 170, 231, 170, 35, 190, 159, 219, 195, 241, 204, 226, 198, 69,
     179, 105, 200, 83, 252, 27, 176, 154, 192, 134, 74, 50, 149, 41, 69, 31, 236, 16, 115,
     179, 197, 253, 104, 49, 85, 253, 230, 228, 66, 212, 250, 254, 93, 155, 75, 28, 193, 14,
     79, 11, 134, 122, 70, 162, 26, 163, 202, 225, 169, 55, 109, 202, 98, 131, 32, 39, 134,
     214, 171, 247, 134, 26, 137, 167, 111, 140, 59, 8, 136, 191, 253, 168, 231, 188, 161,
     109, 0, 34, 37, 220, 177, 24, 118, 227, 155, 12, 77, 38, 121, 1, 216, 82, 146, 217, 205,
     153, 213, 50, 81, 174, 18, 16, 133, 190, 212, 204, 5, 1, 109]"

definition VK_IC_0 :: bytes where
  "VK_IC_0 =
    [11, 153, 141, 88, 31, 178, 76, 199, 215, 35, 105, 38, 57, 99, 104, 121, 54, 116, 98, 15,
     193, 144, 143, 93, 136, 232, 154, 65, 144, 172, 224, 197, 175, 241, 208, 85, 163, 198,
     66, 120, 13, 137, 6, 227, 44, 39, 176, 235, 5, 252, 14, 37, 180, 31, 128, 101, 49, 71,
     173, 123, 126, 196, 22, 77]"

definition VK_IC_1 :: bytes where
  "VK_IC_1 =
    [0, 201, 140, 167, 88, 40, 137, 66, 160, 171, 178, 3, 160, 56, 97, 132, 32, 93, 17, 45, 9,
     156, 131, 181, 185, 138, 139, 93, 238, 128, 17, 237, 2, 66, 112, 5, 25, 199, 126, 98,
     199, 196, 138, 69, 72, 35, 175, 87, 118, 143, 158, 179, 88, 17, 149, 152, 31, 113, 200,
     200, 113, 116, 130, 101]"

definition VK_IC_2 :: bytes where
  "VK_IC_2 =
    [37, 37, 101, 191, 123, 142, 86, 11, 221, 101, 248, 155, 29, 198, 67, 142, 77, 201, 148,
     122, 65, 230, 122, 205, 52, 157, 153, 74, 1, 135, 221, 255, 172, 64, 212, 37, 93, 76,
     133, 255, 72, 119, 153, 3, 33, 90, 82, 153, 157, 17, 183, 133, 134, 69, 35, 196, 82, 213,
     58, 206, 155, 217, 131, 130]"

definition VK_IC_3 :: bytes where
  "VK_IC_3 =
    [35, 116, 123, 176, 254, 242, 247, 253, 20, 86, 160, 187, 164, 143, 201, 237, 74, 49, 243,
     168, 232, 24, 22, 242, 168, 169, 214, 136, 114, 236, 48, 195, 175, 44, 56, 155, 224, 91,
     117, 130, 51, 88, 139, 104, 69, 0, 236, 117, 204, 218, 128, 138, 190, 105, 97, 203, 227,
     116, 173, 46, 89, 35, 40, 212]"

definition VK_IC_4 :: bytes where
  "VK_IC_4 =
    [37, 177, 173, 219, 24, 154, 16, 154, 16, 80, 32, 14, 55, 68, 13, 222, 250, 218, 9, 7, 20,
     62, 221, 39, 188, 27, 121, 161, 109, 68, 134, 144, 168, 172, 46, 246, 146, 227, 13, 67,
     42, 138, 36, 191, 187, 191, 103, 79, 7, 11, 200, 100, 101, 180, 235, 226, 157, 186, 31,
     116, 10, 150, 194, 43]"

definition VK_IC_5 :: bytes where
  "VK_IC_5 =
    [3, 76, 65, 18, 81, 231, 105, 166, 89, 109, 7, 221, 187, 95, 205, 210, 219, 137, 156, 213,
     162, 59, 67, 242, 205, 3, 249, 119, 232, 3, 200, 137, 3, 187, 33, 6, 163, 0, 42, 218,
     105, 85, 233, 128, 32, 86, 83, 181, 104, 19, 213, 234, 132, 39, 117, 163, 85, 225, 199,
     4, 151, 79, 40, 230]"

definition VK_IC_6 :: bytes where
  "VK_IC_6 =
    [10, 71, 84, 135, 148, 41, 145, 114, 126, 154, 237, 24, 214, 20, 145, 222, 154, 123, 128,
     48, 148, 174, 199, 8, 188, 209, 74, 147, 201, 186, 37, 208, 169, 17, 202, 148, 128, 242,
     79, 139, 137, 210, 234, 187, 169, 236, 85, 245, 120, 233, 143, 52, 47, 214, 207, 3, 171,
     101, 63, 2, 23, 237, 236, 96]"

definition VK_IC_7 :: bytes where
  "VK_IC_7 =
    [24, 36, 236, 38, 13, 114, 249, 51, 107, 205, 8, 140, 137, 139, 189, 106, 71, 83, 47, 159,
     48, 237, 179, 123, 19, 227, 7, 243, 224, 87, 197, 3, 19, 195, 154, 126, 71, 80, 139, 103,
     94, 95, 130, 30, 63, 54, 146, 29, 4, 17, 85, 93, 6, 229, 0, 186, 190, 153, 165, 63, 181,
     5, 222, 252]"

definition VK_IC_8 :: bytes where
  "VK_IC_8 =
    [8, 22, 159, 236, 141, 210, 30, 28, 215, 180, 10, 8, 194, 248, 144, 69, 21, 73, 109, 42,
     132, 110, 98, 55, 160, 28, 24, 19, 83, 175, 234, 244, 16, 2, 151, 247, 128, 141, 84, 101,
     112, 43, 157, 164, 165, 207, 70, 110, 32, 192, 178, 229, 228, 88, 33, 110, 205, 121, 197,
     118, 162, 8, 118, 254]"

end
