(* ===== verification/Groth16.thy ===== *)
theory Groth16
  imports Field_Encoding Vk_Data
begin

text \<open>
  The on-chain proof check: the Groth16 verifier of \<open>groth16.rs\<close> over the \<open>alt_bn128\<close>
  syscalls, and \<open>verify_transact\<close> of \<open>transact_verifier.rs\<close>, which splits the wire proof and
  lists the eight public inputs. The curve operations are the runtime's; the lemmas pin down
  which bytes reach the pairing and what makes the verdict true.
\<close>

section \<open>groth16.rs\<close>

datatype Groth16Error =
    InvalidPublicInputsLength
  | PublicInputGreaterThanFieldSize
  | PreparingInputsG1MulFailed
  | PreparingInputsG1AdditionFailed
  | ProofVerificationFailed

record Groth16Verifyingkey =
  nr_pubinputs :: nat
  vk_alpha_g1 :: bytes
  vk_beta_g2 :: bytes
  vk_gamme_g2 :: bytes
  vk_delta_g2 :: bytes
  vk_ic :: "bytes list"

record Groth16Verifier =
  gv_proof_a :: bytes
  gv_proof_b :: bytes
  gv_proof_c :: bytes
  gv_public_inputs :: "bytes list"
  gv_prepared_public_inputs :: bytes
  gv_verifyingkey :: Groth16Verifyingkey

definition Groth16Verifier_new ::
  "bytes \<Rightarrow> bytes \<Rightarrow> bytes \<Rightarrow> bytes list \<Rightarrow> Groth16Verifyingkey
     \<Rightarrow> (Groth16Verifier, Groth16Error) result" where
  "Groth16Verifier_new proof_a proof_b proof_c public_inputs verifyingkey =
     (if length public_inputs + 1 \<noteq> length (vk_ic verifyingkey)
      then Err InvalidPublicInputsLength
      else Ok \<lparr> gv_proof_a = proof_a, gv_proof_b = proof_b, gv_proof_c = proof_c,
                gv_public_inputs = public_inputs,
                gv_prepared_public_inputs = replicate 64 0,
                gv_verifyingkey = verifyingkey \<rparr>)"

definition is_less_than_bn254_field_size_be :: "'z crypto_scheme \<Rightarrow> bytes \<Rightarrow> bool" where
  "is_less_than_bn254_field_size_be cr bs \<longleftrightarrow> biguint_from_bytes_be cr bs < fr_modulus"

text \<open>The loop of \<open>prepare_inputs\<close>: \<open>i\<close> is the enumeration index of the first input left.\<close>

fun prepare_inputs_loop ::
  "'z crypto_scheme \<Rightarrow> Groth16Verifyingkey \<Rightarrow> nat \<Rightarrow> bytes list \<Rightarrow> bytes
     \<Rightarrow> (bytes, Groth16Error) result" where
  "prepare_inputs_loop cr vk i [] prepared = Ok prepared"
| "prepare_inputs_loop cr vk i (input # inputs) prepared =
     (if \<not> is_less_than_bn254_field_size_be cr input
      then Err PublicInputGreaterThanFieldSize
      else and_then (ok_or (alt_bn128_multiplication cr (vk_ic vk ! (i + 1) @ input))
                       PreparingInputsG1MulFailed)
        (\<lambda>mul_res. and_then (ok_or (alt_bn128_addition cr (mul_res @ prepared))
                       PreparingInputsG1AdditionFailed)
        (\<lambda>sum. if length sum = 64 then prepare_inputs_loop cr vk (i + 1) inputs sum
               else Err PreparingInputsG1AdditionFailed)))"

definition prepare_inputs ::
  "'z crypto_scheme \<Rightarrow> Groth16Verifier \<Rightarrow> (Groth16Verifier, Groth16Error) result" where
  "prepare_inputs cr v =
     and_then (prepare_inputs_loop cr (gv_verifyingkey v) 0 (gv_public_inputs v)
                 (vk_ic (gv_verifyingkey v) ! 0))
       (\<lambda>prepared. Ok (v\<lparr>gv_prepared_public_inputs := prepared\<rparr>))"

definition pairing_input :: "Groth16Verifier \<Rightarrow> bytes" where
  "pairing_input v =
     gv_proof_a v @ gv_proof_b v @
     gv_prepared_public_inputs v @ vk_gamme_g2 (gv_verifyingkey v) @
     gv_proof_c v @ vk_delta_g2 (gv_verifyingkey v) @
     vk_alpha_g1 (gv_verifyingkey v) @ vk_beta_g2 (gv_verifyingkey v)"

text \<open>\<open>None\<close> is the panic of \<open>res[31]\<close> on a result shorter than 32 bytes.\<close>

definition verify ::
  "'z crypto_scheme \<Rightarrow> Groth16Verifier \<Rightarrow> (bool, Groth16Error) result option" where
  "verify cr v =
     (case prepare_inputs cr v of
        Err e \<Rightarrow> Some (Err e)
      | Ok v' \<Rightarrow>
          (case alt_bn128_pairing cr (pairing_input v') of
             None \<Rightarrow> Some (Err ProofVerificationFailed)
           | Some res \<Rightarrow>
               if length res \<le> 31 then None
               else if res ! 31 \<noteq> 1 then Some (Err ProofVerificationFailed)
               else Some (Ok True)))"

section \<open>\<open>transact_verifier.rs\<close>\<close>

definition NUM_PUBLIC_INPUTS :: nat where
  "NUM_PUBLIC_INPUTS = 8"

definition WIRE_PROOF_LEN :: nat where
  "WIRE_PROOF_LEN = 256"

definition VK_IC :: "bytes list" where
  "VK_IC = [VK_IC_0, VK_IC_1, VK_IC_2, VK_IC_3, VK_IC_4, VK_IC_5, VK_IC_6, VK_IC_7, VK_IC_8]"

definition verifying_key :: Groth16Verifyingkey where
  "verifying_key =
     \<lparr> nr_pubinputs = NUM_PUBLIC_INPUTS, vk_alpha_g1 = VK_ALPHA_G1, vk_beta_g2 = VK_BETA_G2,
       vk_gamme_g2 = VK_GAMMA_G2, vk_delta_g2 = VK_DELTA_G2, vk_ic = VK_IC \<rparr>"

record public_inputs =
  pi_root :: bytes32
  pi_public_amount :: bytes32
  pi_ext_data_hash :: bytes32
  pi_asset_id :: bytes32
  pi_nullifier0 :: bytes32
  pi_nullifier1 :: bytes32
  pi_out_commitment0 :: bytes32
  pi_out_commitment1 :: bytes32

definition public_input_list :: "public_inputs \<Rightarrow> bytes32 list" where
  "public_input_list p =
     [pi_root p, pi_public_amount p, pi_ext_data_hash p, pi_asset_id p,
      pi_nullifier0 p, pi_nullifier1 p, pi_out_commitment0 p, pi_out_commitment1 p]"

text \<open>The closure \<open>le\<close>, and a list of options that is \<open>None\<close> when one element is.\<close>

definition le_to_be :: "'z crypto_scheme \<Rightarrow> bytes32 \<Rightarrow> bytes option" where
  "le_to_be cr b = fr_to_be cr (fr_from_le_bytes_mod_order cr b)"

fun sequence :: "'a option list \<Rightarrow> 'a list option" where
  "sequence [] = Some []"
| "sequence (x # xs) = Option.bind x (\<lambda>y. map_option ((#) y) (sequence xs))"

definition verify_transact :: "'z crypto_scheme \<Rightarrow> public_inputs \<Rightarrow> bytes \<Rightarrow> bool option" where
  "verify_transact cr p wire =
     (if length wire \<noteq> WIRE_PROOF_LEN then Some False
      else
        let proof_a = take 64 wire;
            proof_b = take 128 (drop 64 wire);
            proof_c = take 64 (drop 192 wire)
        in case sequence (map (le_to_be cr) (public_input_list p)) of
             None \<Rightarrow> None
           | Some inputs \<Rightarrow>
               (case Groth16Verifier_new proof_a proof_b proof_c inputs verifying_key of
                  Err e \<Rightarrow> Some False
                | Ok v \<Rightarrow> map_option (\<lambda>r. case r of Ok b \<Rightarrow> b | Err e \<Rightarrow> False) (verify cr v)))"

section \<open>Lemmas\<close>

text \<open>Documented behaviour of the syscalls: a point is 64 bytes, the pairing answers 32 bytes,
  and \<open>BigUint::from_bytes_be\<close> reads a big-endian number.\<close>

definition alt_bn128_ok :: "'z crypto_scheme \<Rightarrow> bool" where
  "alt_bn128_ok cr \<longleftrightarrow>
     (\<forall>bs. biguint_from_bytes_be cr bs = le_val (rev bs)) \<and>
     (\<forall>bs r. alt_bn128_pairing cr bs = Some r \<longrightarrow> length r = 32)"

lemma ref_alt_bn128_ok [simp]: "alt_bn128_ok ref_runtime"
  by (simp add: alt_bn128_ok_def)

lemma sequence_map_Some:
  "(\<And>x. x \<in> set xs \<Longrightarrow> f x = Some (g x)) \<Longrightarrow> sequence (map f xs) = Some (map g xs)"
  by (induction xs) auto

lemma length_VK_IC [simp]: "length VK_IC = NUM_PUBLIC_INPUTS + 1"
  by (simp add: VK_IC_def NUM_PUBLIC_INPUTS_def)

lemma length_public_input_list [simp]: "length (public_input_list p) = NUM_PUBLIC_INPUTS"
  by (simp add: public_input_list_def NUM_PUBLIC_INPUTS_def)

text \<open>The 32 bytes the verifier multiplies with: the reduced input, big-endian.\<close>

definition input_be :: "bytes32 \<Rightarrow> bytes" where
  "input_be b = rev (le_bytes 32 (le_val b mod fr_modulus))"

lemma le_to_be_value: "ark_fr_ok cr \<Longrightarrow> le_to_be cr b = Some (input_be b)"
  by (simp add: le_to_be_def input_be_def ark_frD fr_to_be_value)

lemma public_inputs_encoded:
  "ark_fr_ok cr \<Longrightarrow> sequence (map (le_to_be cr) xs) = Some (map input_be xs)"
  by (rule sequence_map_Some) (simp add: le_to_be_value)

lemma input_be_below_field:
  "alt_bn128_ok cr \<Longrightarrow> is_less_than_bn254_field_size_be cr (input_be b)"
  by (simp add: is_less_than_bn254_field_size_be_def alt_bn128_ok_def input_be_def
      le_val_le_bytes_field)

lemma prepare_inputs_loop_in_field:
  assumes "alt_bn128_ok cr"
  shows "prepare_inputs_loop cr vk i (map input_be xs) acc \<noteq> Err PublicInputGreaterThanFieldSize"
  using assms
  by (induction xs arbitrary: i acc)
    (auto simp: input_be_below_field and_then_eq_Err ok_or_def split: option.splits)

text \<open>The verifier that \<open>verify_transact\<close> builds, and its verdict.\<close>

definition transact_groth16 :: "public_inputs \<Rightarrow> bytes \<Rightarrow> Groth16Verifier" where
  "transact_groth16 p wire =
     \<lparr> gv_proof_a = take 64 wire, gv_proof_b = take 128 (drop 64 wire),
       gv_proof_c = take 64 (drop 192 wire),
       gv_public_inputs = map input_be (public_input_list p),
       gv_prepared_public_inputs = replicate 64 0, gv_verifyingkey = verifying_key \<rparr>"

lemma verify_transact_verifier:
  assumes "ark_fr_ok cr" and "length wire = WIRE_PROOF_LEN"
  shows "verify_transact cr p wire =
    map_option (\<lambda>r. case r of Ok b \<Rightarrow> b | Err e \<Rightarrow> False) (verify cr (transact_groth16 p wire))"
  using assms
  by (simp add: verify_transact_def public_inputs_encoded Groth16Verifier_new_def
      transact_groth16_def verifying_key_def)

lemma verify_accepts_iff:
  "verify cr v = Some (Ok True) \<longleftrightarrow>
     (\<exists>v' r. prepare_inputs cr v = Ok v' \<and>
        alt_bn128_pairing cr (pairing_input v') = Some r \<and> 31 < length r \<and> r ! 31 = 1)"
  by (auto simp: verify_def split: result.splits option.splits if_splits)

lemma verify_no_panic: "alt_bn128_ok cr \<Longrightarrow> verify cr v \<noteq> None"
  by (fastforce simp: verify_def alt_bn128_ok_def split: result.splits option.splits if_splits)

lemma unwrap_or_false_iff:
  "map_option (\<lambda>r. case r of Ok b \<Rightarrow> b | Err e \<Rightarrow> False) x = Some True \<longleftrightarrow> x = Some (Ok True)"
  by (auto split: result.split_asm)

section \<open>Properties\<close>

text \<open>C15. The on-chain proof verdict is decided by the pairing on the eight inputs: with the
  documented field and syscalls, \<open>verify_transact\<close> never panics, rejects every proof that is
  not exactly 256 bytes, never fails because an input exceeds the field, and accepts exactly
  when the pairing equation of the embedded verifying key with the prepared inputs answers 1.\<close>

theorem verify_transact_exact:
  assumes "ark_fr_ok cr" and "alt_bn128_ok cr"
  shows "verify_transact cr p wire \<noteq> None \<and>
    prepare_inputs cr (transact_groth16 p wire) \<noteq> Err PublicInputGreaterThanFieldSize \<and>
    (verify_transact cr p wire = Some True \<longleftrightarrow>
      length wire = 256 \<and>
      (\<exists>prepared r. prepare_inputs_loop cr verifying_key 0 (map input_be (public_input_list p))
           VK_IC_0 = Ok prepared \<and>
         alt_bn128_pairing cr
           (take 64 wire @ take 128 (drop 64 wire) @ prepared @ VK_GAMMA_G2 @
            take 64 (drop 192 wire) @ VK_DELTA_G2 @ VK_ALPHA_G1 @ VK_BETA_G2) = Some r \<and>
         r ! 31 = 1))"
proof (intro conjI)
  show "verify_transact cr p wire \<noteq> None"
    using verify_transact_verifier [OF assms(1), of wire p] verify_no_panic [OF assms(2)]
    by (cases "length wire = WIRE_PROOF_LEN") (auto simp: verify_transact_def)
  show "prepare_inputs cr (transact_groth16 p wire) \<noteq> Err PublicInputGreaterThanFieldSize"
    using prepare_inputs_loop_in_field [OF assms(2)]
    by (simp add: prepare_inputs_def transact_groth16_def and_then_eq_Err)
  have "verify_transact cr p wire = Some True \<longleftrightarrow>
      length wire = 256 \<and> verify cr (transact_groth16 p wire) = Some (Ok True)"
  proof (cases "length wire = 256")
    case True
    then have "length wire = WIRE_PROOF_LEN" by (simp add: WIRE_PROOF_LEN_def)
    then show ?thesis
      using True by (simp only: verify_transact_verifier [OF assms(1)] unwrap_or_false_iff simp_thms)
  qed (simp add: verify_transact_def WIRE_PROOF_LEN_def)
  moreover have "31 < length r" if "alt_bn128_pairing cr bs = Some r" for bs r
    using assms(2) that by (simp add: alt_bn128_ok_def)
  ultimately show "verify_transact cr p wire = Some True \<longleftrightarrow>
      length wire = 256 \<and>
      (\<exists>prepared r. prepare_inputs_loop cr verifying_key 0 (map input_be (public_input_list p))
           VK_IC_0 = Ok prepared \<and>
         alt_bn128_pairing cr
           (take 64 wire @ take 128 (drop 64 wire) @ prepared @ VK_GAMMA_G2 @
            take 64 (drop 192 wire) @ VK_DELTA_G2 @ VK_ALPHA_G1 @ VK_BETA_G2) = Some r \<and>
         r ! 31 = 1)"
    by (auto simp: verify_accepts_iff prepare_inputs_def transact_groth16_def rust_simps
        pairing_input_def verifying_key_def VK_IC_def)
qed

definition zero_inputs :: public_inputs where
  "zero_inputs =
     \<lparr> pi_root = zero32, pi_public_amount = zero32, pi_ext_data_hash = zero32,
       pi_asset_id = zero32, pi_nullifier0 = zero32, pi_nullifier1 = zero32,
       pi_out_commitment0 = zero32, pi_out_commitment1 = zero32 \<rparr>"

theorem verify_transact_exact_witness:
  "verify_transact ref_runtime zero_inputs [] = Some False \<and>
   verify_transact ref_runtime zero_inputs (replicate 256 0) \<noteq> None"
  using verify_transact_exact [of ref_runtime zero_inputs "[]"]
    verify_transact_exact [of ref_runtime zero_inputs "replicate 256 0"] by auto

text \<open>The proof check sees its inputs only modulo the field order: replacing any public
  input (a nullifier \<open>n\<close> by \<open>n + p\<close>, say) by another encoding of the same field element leaves
  the verdict unchanged, which is why the settlement handlers demand canonical bytes.\<close>

theorem verify_transact_mod_order:
  assumes "ark_fr_ok cr"
    and "map (\<lambda>b. le_val b mod fr_modulus) (public_input_list p) =
         map (\<lambda>b. le_val b mod fr_modulus) (public_input_list q)"
  shows "verify_transact cr p wire = verify_transact cr q wire"
proof -
  have "map input_be xs = map (\<lambda>x. rev (le_bytes 32 x)) (map (\<lambda>b. le_val b mod fr_modulus) xs)"
    for xs by (simp add: input_be_def)
  then have "map input_be (public_input_list p) = map input_be (public_input_list q)"
    using assms(2) by metis
  then show ?thesis
    by (simp add: verify_transact_def public_inputs_encoded [OF assms(1)])
qed

theorem verify_transact_mod_order_witness:
  "verify_transact ref_runtime (zero_inputs\<lparr>pi_nullifier0 := le_bytes 32 3\<rparr>) (replicate 256 0) =
   verify_transact ref_runtime (zero_inputs\<lparr>pi_nullifier0 := le_bytes 32 (3 + fr_modulus)\<rparr>)
     (replicate 256 0)"
  by (rule verify_transact_mod_order [of ref_runtime])
    (simp_all add: public_input_list_def zero_inputs_def le_val_le_bytes fr_modulus_def)

end
