(* ===== verification/Settlement.thy ===== *)
theory Settlement
  imports Bridge_Admin Quorum Groth16
begin

text \<open>
  The money paths of the on-chain program (\<open>lib.rs\<close>): \<open>deposit_note\<close>, \<open>deposit_note_spl\<close>,
  \<open>transact\<close> and \<open>transact_spl\<close>, with the constraints of their accounts structs. The two
  settlement handlers share the checks of their first half (\<open>settlement_checks\<close>) and the
  recording of nullifiers and outputs (\<open>record_settlement\<close>); they differ in the asset input of
  the proof and in how the payout leaves the vault.
\<close>

section \<open>Deposits\<close>

definition DepositNote_accounts ::
  "runtime \<Rightarrow> chain \<Rightarrow> (BridgeState \<times> IncrementalMerkleTree, error) result" where
  "DepositNote_accounts rt c =
     and_then (load_account (bridge_state c)) (\<lambda>bs.
     and_then (require_system_account rt c (bridge_vault_key rt)) (\<lambda>_.
     and_then (load_account (merkle_tree c)) (\<lambda>tree. Ok (bs, tree))))"

definition deposit_note ::
  "runtime \<Rightarrow> clock \<Rightarrow> pubkey \<Rightarrow> u64 \<Rightarrow> bytes32 \<Rightarrow> bytes32 \<Rightarrow> chain
     \<Rightarrow> (chain \<times> event, error) result" where
  "deposit_note rt clk depositor amount pubkey blinding c =
     and_then (DepositNote_accounts rt c) (\<lambda>(bs, tree).
     and_then (require (\<not> bs_paused bs) (Bridge BridgePaused)) (\<lambda>_.
     and_then (require (0 < amount) (Bridge InvalidAmount)) (\<lambda>_.
     and_then (require_canonical_field rt pubkey NonCanonicalFieldElement) (\<lambda>_.
     and_then (require_canonical_field rt blinding NonCanonicalFieldElement) (\<lambda>_.
     and_then (ok_or (checked_add (lamports c (bridge_vault_key rt)) amount)
                 (Bridge InvalidAmount)) (\<lambda>projected_vault_balance.
     and_then (require (projected_vault_balance \<le> bs_deposit_cap bs)
                 (Bridge DepositCapExceeded)) (\<lambda>_.
     and_then (transfer_lamports rt depositor (bridge_vault_key rt) amount c) (\<lambda>c1.
     and_then (commitment rt amount pubkey blinding NATIVE_SOL_ASSET) (\<lambda>cm.
     and_then (tree_append rt tree cm) (\<lambda>(tree', _).
     and_then (ok_or (checked_add (bs_total_deposited bs) amount) (Bridge InvalidAmount))
       (\<lambda>total_deposited.
     Ok (c1\<lparr>merkle_tree := Some tree',
            bridge_state := Some (bs\<lparr>bs_total_deposited := total_deposited,
              bs_deposit_count := saturating_add (bs_deposit_count bs) 1\<rparr>)\<rparr>,
         DepositNote \<lparr> de_depositor = depositor, de_amount = amount, de_commitment = cm,
           de_leaf_index = mt_next_index tree, de_timestamp = unix_timestamp clk \<rparr>))))))))))))"

text \<open>Token accounts an accounts struct constrains by mint, and by owner.\<close>

definition load_token_account ::
  "pubkey \<Rightarrow> pubkey \<Rightarrow> chain \<Rightarrow> (token_account, error) result" where
  "load_token_account k mint c =
     and_then (load_account (tokens c k)) (\<lambda>ta.
     and_then (require (ta_mint ta = mint) (Anchor ConstraintTokenMint)) (\<lambda>_. Ok ta))"

definition load_owned_token_account ::
  "pubkey \<Rightarrow> pubkey \<Rightarrow> pubkey \<Rightarrow> chain \<Rightarrow> (token_account, error) result" where
  "load_owned_token_account k mint owner c =
     and_then (load_token_account k mint c) (\<lambda>ta.
     and_then (require (ta_owner ta = owner) (Anchor ConstraintTokenOwner)) (\<lambda>_. Ok ta))"

definition move_tokens ::
  "runtime \<Rightarrow> pubkey \<Rightarrow> pubkey \<Rightarrow> pubkey \<Rightarrow> pubkey \<Rightarrow> u64 \<Rightarrow> u8 \<Rightarrow> chain \<Rightarrow> (chain, error) result" where
  "move_tokens rt src mint dst authority amount decimals c =
     and_then (ok_or (transfer_checked rt src mint dst authority amount decimals (tokens c)) Cpi)
       (\<lambda>ts. Ok (c\<lparr>tokens := ts\<rparr>))"

definition DepositNoteSpl_accounts ::
  "runtime \<Rightarrow> pubkey \<Rightarrow> pubkey \<Rightarrow> pubkey \<Rightarrow> chain
     \<Rightarrow> (BridgeState \<times> AssetConfig \<times> u8 \<times> token_account \<times> IncrementalMerkleTree, error) result"
  where
  "DepositNoteSpl_accounts rt depositor mint depositor_token_account c =
     and_then (load_account (bridge_state c)) (\<lambda>bs.
     and_then (load_account (asset_configs c mint)) (\<lambda>config.
     and_then (load_account (mint_decimals c mint)) (\<lambda>decimals.
     and_then (load_token_account (asset_vault_key rt mint) mint c) (\<lambda>asset_vault.
     and_then (load_owned_token_account depositor_token_account mint depositor c) (\<lambda>_.
     and_then (load_account (merkle_tree c)) (\<lambda>tree.
     Ok (bs, config, decimals, asset_vault, tree)))))))"

definition deposit_note_spl ::
  "runtime \<Rightarrow> clock \<Rightarrow> pubkey \<Rightarrow> pubkey \<Rightarrow> pubkey \<Rightarrow> u64 \<Rightarrow> bytes32 \<Rightarrow> bytes32 \<Rightarrow> chain
     \<Rightarrow> (chain \<times> event, error) result" where
  "deposit_note_spl rt clk depositor mint depositor_token_account amount pubkey blinding c =
     (let vault = asset_vault_key rt mint in
     and_then (DepositNoteSpl_accounts rt depositor mint depositor_token_account c)
       (\<lambda>(bs, config, decimals, asset_vault, tree).
     and_then (require (\<not> bs_paused bs) (Bridge BridgePaused)) (\<lambda>_.
     and_then (require (0 < amount) (Bridge InvalidAmount)) (\<lambda>_.
     and_then (require_canonical_field rt pubkey NonCanonicalFieldElement) (\<lambda>_.
     and_then (require_canonical_field rt blinding NonCanonicalFieldElement) (\<lambda>_.
     and_then (ok_or (checked_add (ta_amount asset_vault) amount) (Bridge InvalidAmount))
       (\<lambda>projected_vault_balance.
     and_then (require (projected_vault_balance \<le> ac_deposit_cap config)
                 (Bridge DepositCapExceeded)) (\<lambda>_.
     and_then (ok_or (transfer_checked rt depositor_token_account mint vault depositor amount
                        decimals (tokens c)) Cpi) (\<lambda>ts.
     and_then (load_account (ts vault)) (\<lambda>reloaded.
     and_then (ok_or (checked_sub (ta_amount reloaded) (ta_amount asset_vault))
                 (Bridge InvalidAmount)) (\<lambda>realized.
     and_then (require (realized = amount) (Bridge InvalidAmount)) (\<lambda>_.
     and_then (mint_to_asset rt mint) (\<lambda>asset.
     and_then (commitment rt amount pubkey blinding asset) (\<lambda>cm.
     and_then (tree_append rt tree cm) (\<lambda>(tree', _).
     and_then (ok_or (checked_add (ac_total_deposited config) amount) (Bridge InvalidAmount))
       (\<lambda>total_deposited.
     Ok (c\<lparr>tokens := ts, merkle_tree := Some tree',
            asset_configs := (asset_configs c)(mint \<mapsto>
              config\<lparr>ac_total_deposited := total_deposited,
                     ac_deposit_count := saturating_add (ac_deposit_count config) 1\<rparr>)\<rparr>,
         DepositNoteSpl \<lparr> ds_depositor = depositor, ds_mint = mint, ds_amount = amount,
           ds_commitment = cm, ds_leaf_index = mt_next_index tree,
           ds_timestamp = unix_timestamp clk \<rparr>)))))))))))))))))"

section \<open>Settlement: arguments and checks\<close>

text \<open>The instruction arguments of \<open>transact\<close> and \<open>transact_spl\<close>.\<close>

record settlement =
  st_nullifier0 :: bytes32
  st_nullifier1 :: bytes32
  st_out0 :: bytes32
  st_out1 :: bytes32
  st_root :: bytes32
  st_ext_amount :: i64
  st_proof :: bytes

text \<open>Both handlers up to the proof check. \<open>dest\<close> is the key the external-data hash binds;
  \<open>asset_result\<close> is the asset input, whose computation may fail.\<close>

definition settlement_input_checks ::
  "runtime \<Rightarrow> BridgeState \<Rightarrow> IncrementalMerkleTree \<Rightarrow> settlement \<Rightarrow> (unit, error) result" where
  "settlement_input_checks rt bs tree s =
     and_then (require (\<not> bs_paused bs) (Bridge BridgePaused)) (\<lambda>_.
     and_then (require (st_proof s \<noteq> []) (Bridge InvalidProof)) (\<lambda>_.
     and_then (require (length (st_proof s) \<le> MAX_PROOF_LEN) (Bridge ProofTooLarge)) (\<lambda>_.
     and_then (require (sint (st_ext_amount s) \<le> 0) (Bridge InvalidAmount)) (\<lambda>_.
     and_then (require_canonical_nullifier rt (st_nullifier0 s)) (\<lambda>_.
     and_then (require_canonical_nullifier rt (st_nullifier1 s)) (\<lambda>_.
     and_then (require (st_nullifier0 s \<noteq> st_nullifier1 s) (Bridge DuplicateNullifier)) (\<lambda>_.
     and_then (require_canonical_field rt (st_out0 s) NonCanonicalFieldElement) (\<lambda>_.
     and_then (require_canonical_field rt (st_out1 s) NonCanonicalFieldElement) (\<lambda>_.
     and_then (require_canonical_field rt (st_root s) NonCanonicalFieldElement) (\<lambda>_.
     and_then (ok_or (is_known_root tree (st_root s)) Panic) (\<lambda>known.
     require known (Bridge UnknownMerkleRoot))))))))))))"

definition settlement_checks ::
  "runtime \<Rightarrow> BridgeState \<Rightarrow> IncrementalMerkleTree \<Rightarrow> ValidatorAccount \<Rightarrow> ValidatorRegistry
     \<Rightarrow> pubkey \<Rightarrow> pubkey \<Rightarrow> (bytes32, error) result \<Rightarrow> account_info list \<Rightarrow> settlement
     \<Rightarrow> (unit, error) result" where
  "settlement_checks rt bs tree va registry authority dest asset_result remaining_accounts s =
     and_then (settlement_input_checks rt bs tree s) (\<lambda>_.
     let ext_data_hash = transact_ext_data_hash rt dest (st_ext_amount s) in
     and_then (ok_or (public_amount_bytes rt (st_ext_amount s)) Panic) (\<lambda>public_amount.
     and_then asset_result (\<lambda>asset.
     and_then (require (va_is_active va) (Bridge ValidatorNotActive)) (\<lambda>_.
     and_then (verify_validator_quorum rt registry authority
                 (if va_is_active va then va_stake_amount va else 0) remaining_accounts) (\<lambda>_.
     and_then (ok_or (verify_transact rt
         \<lparr> pi_root = st_root s, pi_public_amount = public_amount,
           pi_ext_data_hash = ext_data_hash, pi_asset_id = asset,
           pi_nullifier0 = st_nullifier0 s, pi_nullifier1 = st_nullifier1 s,
           pi_out_commitment0 = st_out0 s, pi_out_commitment1 = st_out1 s \<rparr>
         (st_proof s)) Panic) (\<lambda>valid.
     require valid (Bridge InvalidProof)))))))"

section \<open>Settlement: state changes\<close>

text \<open>The \<open>init\<close> constraint of a nullifier account: zeroed until the body fills it in.\<close>

definition init_nullifier ::
  "runtime \<Rightarrow> pubkey \<Rightarrow> bytes32 \<Rightarrow> chain \<Rightarrow> (chain, error) result" where
  "init_nullifier rt payer nf c =
     and_then (require_fresh (nullifier_accounts c nf)) (\<lambda>_.
     and_then (init_pda rt payer (nullifier_key rt nf) (8 + NullifierAccount_INIT_SPACE) c) (\<lambda>c1.
     Ok (c1\<lparr>nullifier_accounts := (nullifier_accounts c1)(nf \<mapsto>
       \<lparr> na_nullifier = zero32, na_used_at = 0, na_withdrawal_id = 0 \<rparr>)\<rparr>)))"

text \<open>Recording both nullifiers and appending both outputs; returns the new root.\<close>

definition record_settlement ::
  "runtime \<Rightarrow> clock \<Rightarrow> u64 \<Rightarrow> settlement \<Rightarrow> IncrementalMerkleTree \<Rightarrow> chain
     \<Rightarrow> (chain \<times> bytes32, error) result" where
  "record_settlement rt clk settlement_id s tree c =
     (let now = unix_timestamp clk;
          nfs = (nullifier_accounts c)
            (st_nullifier0 s \<mapsto> \<lparr> na_nullifier = st_nullifier0 s, na_used_at = now,
                                  na_withdrawal_id = settlement_id \<rparr>,
             st_nullifier1 s \<mapsto> \<lparr> na_nullifier = st_nullifier1 s, na_used_at = now,
                                  na_withdrawal_id = settlement_id \<rparr>)
      in and_then (tree_append rt tree (st_out0 s)) (\<lambda>(tree1, _).
         and_then (tree_append rt tree1 (st_out1 s)) (\<lambda>(tree2, new_root).
         Ok (c\<lparr>nullifier_accounts := nfs, merkle_tree := Some tree2\<rparr>, new_root))))"

definition withdrawal_fee :: "u64 \<Rightarrow> (u64, error) result" where
  "withdrawal_fee gross =
     ok_or (map_option (\<lambda>v. v div 10000) (checked_mul gross WITHDRAWAL_FEE_BPS))
       (Bridge InvalidAmount)"

text \<open>The native payout: lamports to the recipient, the fee as a claim of the validator.\<close>

definition native_payout ::
  "runtime \<Rightarrow> pubkey \<Rightarrow> i64 \<Rightarrow> ValidatorAccount \<Rightarrow> BridgeState \<Rightarrow> chain
     \<Rightarrow> (u64 \<times> ValidatorAccount \<times> BridgeState \<times> chain, error) result" where
  "native_payout rt recipient ext_amount va bs c =
     (if sint ext_amount < 0 then
        let gross = unsigned_abs ext_amount in
        and_then (withdrawal_fee gross) (\<lambda>fee.
        and_then (ok_or (checked_sub gross fee) Panic) (\<lambda>payout.
        let vault_balance = lamports c (bridge_vault_key rt);
            rent_floor = minimum_balance rt 0 in
        and_then (require (saturating_add payout rent_floor \<le> vault_balance)
                    (Bridge InsufficientFunds)) (\<lambda>_.
        and_then (transfer_lamports rt (bridge_vault_key rt) recipient payout c) (\<lambda>c1.
        and_then (ok_or (checked_add (va_pending_rewards va) fee) (Bridge InvalidAmount))
          (\<lambda>pending_rewards.
        and_then (ok_or (checked_add (bs_total_withdrawn bs) gross) (Bridge InvalidAmount))
          (\<lambda>total_withdrawn.
        Ok (fee, va\<lparr>va_pending_rewards := pending_rewards\<rparr>,
            bs\<lparr>bs_total_withdrawn := total_withdrawn\<rparr>, c1)))))))
      else Ok (0, va, bs, c))"

definition credit_task :: "clock \<Rightarrow> ValidatorAccount \<Rightarrow> ValidatorAccount" where
  "credit_task clk va =
     va\<lparr>va_total_tasks_verified := saturating_add (va_total_tasks_verified va) 1,
        va_successful_verifications := saturating_add (va_successful_verifications va) 1,
        va_last_active := unix_timestamp clk\<rparr>"

definition settlement_event ::
  "clock \<Rightarrow> settlement \<Rightarrow> bytes32 \<Rightarrow> u64 \<Rightarrow> pubkey \<Rightarrow> u64 \<Rightarrow> event" where
  "settlement_event clk s new_root fee recipient settlement_id =
     TransactSettled
       \<lparr> te_nullifier0 = st_nullifier0 s, te_nullifier1 = st_nullifier1 s,
         te_out_commitment0 = st_out0 s, te_out_commitment1 = st_out1 s,
         te_new_root = new_root, te_ext_amount = st_ext_amount s, te_fee = fee,
         te_recipient = recipient, te_timestamp = unix_timestamp clk,
         te_settlement_id = settlement_id \<rparr>"

section \<open>Settlement: the handlers\<close>

text \<open>\<open>has_one = authority\<close> on the bridge state.\<close>

definition bridge_with_authority :: "pubkey \<Rightarrow> chain \<Rightarrow> (BridgeState, error) result" where
  "bridge_with_authority authority c =
     and_then (load_account (bridge_state c)) (\<lambda>bs.
     and_then (require (bs_authority bs = authority) (Anchor ConstraintHasOne)) (\<lambda>_. Ok bs))"

definition Transact_accounts ::
  "runtime \<Rightarrow> pubkey \<Rightarrow> pubkey \<Rightarrow> settlement \<Rightarrow> chain
     \<Rightarrow> (BridgeState \<times> IncrementalMerkleTree \<times> chain \<times> ValidatorAccount \<times> ValidatorRegistry,
         error) result" where
  "Transact_accounts rt authority recipient s c =
     and_then (bridge_with_authority authority c) (\<lambda>bs.
     and_then (load_account (merkle_tree c)) (\<lambda>tree.
     and_then (require_system_account rt c (bridge_vault_key rt)) (\<lambda>_.
     and_then (init_nullifier rt authority (st_nullifier0 s) c) (\<lambda>c1.
     and_then (init_nullifier rt authority (st_nullifier1 s) c1) (\<lambda>c2.
     and_then (require_system_account rt c2 recipient) (\<lambda>_.
     and_then (load_account (validator_accounts c authority)) (\<lambda>va.
     and_then (load_account (validator_registry c)) (\<lambda>registry.
     Ok (bs, tree, c2, va, registry)))))))))"

definition transact ::
  "runtime \<Rightarrow> clock \<Rightarrow> pubkey \<Rightarrow> pubkey \<Rightarrow> account_info list \<Rightarrow> settlement \<Rightarrow> chain
     \<Rightarrow> (chain \<times> event, error) result" where
  "transact rt clk authority recipient remaining_accounts s c =
     and_then (Transact_accounts rt authority recipient s c) (\<lambda>(bs, tree, c2, va, registry).
     and_then (settlement_checks rt bs tree va registry authority recipient
                 (Ok NATIVE_SOL_ASSET) remaining_accounts s) (\<lambda>_.
     let settlement_id = saturating_add (bs_withdrawal_count bs) 1 in
     and_then (record_settlement rt clk settlement_id s tree c2) (\<lambda>(c3, new_root).
     and_then (native_payout rt recipient (st_ext_amount s) va bs c3) (\<lambda>(fee, va', bs', c4).
     Ok (c4\<lparr>validator_accounts := (validator_accounts c4)(authority \<mapsto> credit_task clk va'),
            bridge_state := Some (bs'\<lparr>bs_withdrawal_count := settlement_id\<rparr>)\<rparr>,
         settlement_event clk s new_root fee recipient settlement_id)))))"

text \<open>The token payout: the recipient's share and, if any, the validator's fee, both out of the
  mint's vault.\<close>

definition spl_payout ::
  "runtime \<Rightarrow> pubkey \<Rightarrow> u8 \<Rightarrow> token_account \<Rightarrow> pubkey \<Rightarrow> pubkey \<Rightarrow> i64 \<Rightarrow> chain
     \<Rightarrow> (u64 \<times> chain, error) result" where
  "spl_payout rt mint decimals asset_vault recipient_token_account fee_token_account
       ext_amount c =
     (if sint ext_amount < 0 then
        let gross = unsigned_abs ext_amount;
            vault = asset_vault_key rt mint;
            vault_authority = asset_vault_authority_key rt in
        and_then (withdrawal_fee gross) (\<lambda>fee.
        and_then (ok_or (checked_sub gross fee) Panic) (\<lambda>payout.
        and_then (require (gross \<le> ta_amount asset_vault) (Bridge InsufficientFunds)) (\<lambda>_.
        and_then (move_tokens rt vault mint recipient_token_account vault_authority payout
                    decimals c) (\<lambda>c1.
        and_then (if 0 < fee
                  then move_tokens rt vault mint fee_token_account vault_authority fee decimals c1
                  else Ok c1) (\<lambda>c2.
        Ok (fee, c2))))))
      else Ok (0, c))"

record spl_accounts =
  sa_mint :: pubkey
  sa_recipient_token_account :: pubkey
  sa_fee_token_account :: pubkey

definition TransactSpl_accounts ::
  "runtime \<Rightarrow> pubkey \<Rightarrow> spl_accounts \<Rightarrow> settlement \<Rightarrow> chain
     \<Rightarrow> (BridgeState \<times> IncrementalMerkleTree \<times> u8 \<times> token_account \<times> chain \<times> ValidatorAccount
         \<times> ValidatorRegistry, error) result" where
  "TransactSpl_accounts rt authority accts s c =
     (let mint = sa_mint accts in
     and_then (bridge_with_authority authority c) (\<lambda>bs.
     and_then (load_account (merkle_tree c)) (\<lambda>tree.
     and_then (load_account (mint_decimals c mint)) (\<lambda>decimals.
     and_then (load_token_account (asset_vault_key rt mint) mint c) (\<lambda>asset_vault.
     and_then (load_token_account (sa_recipient_token_account accts) mint c) (\<lambda>_.
     and_then (load_owned_token_account (sa_fee_token_account accts) mint authority c) (\<lambda>_.
     and_then (init_nullifier rt authority (st_nullifier0 s) c) (\<lambda>c1.
     and_then (init_nullifier rt authority (st_nullifier1 s) c1) (\<lambda>c2.
     and_then (load_account (validator_accounts c authority)) (\<lambda>va.
     and_then (load_account (validator_registry c)) (\<lambda>registry.
     Ok (bs, tree, decimals, asset_vault, c2, va, registry))))))))))))"

definition transact_spl ::
  "runtime \<Rightarrow> clock \<Rightarrow> pubkey \<Rightarrow> spl_accounts \<Rightarrow> account_info list \<Rightarrow> settlement \<Rightarrow> chain
     \<Rightarrow> (chain \<times> event, error) result" where
  "transact_spl rt clk authority accts remaining_accounts s c =
     (let mint = sa_mint accts in
     and_then (TransactSpl_accounts rt authority accts s c)
       (\<lambda>(bs, tree, decimals, asset_vault, c2, va, registry).
     and_then (settlement_checks rt bs tree va registry authority
                 (sa_recipient_token_account accts) (mint_to_asset rt mint)
                 remaining_accounts s) (\<lambda>_.
     let settlement_id = saturating_add (bs_withdrawal_count bs) 1 in
     and_then (record_settlement rt clk settlement_id s tree c2) (\<lambda>(c3, new_root).
     and_then (spl_payout rt mint decimals asset_vault (sa_recipient_token_account accts)
                 (sa_fee_token_account accts) (st_ext_amount s) c3) (\<lambda>(fee, c4).
     Ok (c4\<lparr>validator_accounts := (validator_accounts c4)(authority \<mapsto> credit_task clk va),
            bridge_state := Some (bs\<lparr>bs_withdrawal_count := settlement_id\<rparr>)\<rparr>,
         settlement_event clk s new_root fee (sa_recipient_token_account accts)
           settlement_id))))))"

section \<open>Unfolding lemmas\<close>

lemma init_nullifier_Ok:
  "init_nullifier rt payer nf c = Ok c' \<longleftrightarrow>
     nullifier_accounts c nf = None \<and>
     (\<exists>lam. anchor_init rt payer (nullifier_key rt nf) (8 + NullifierAccount_INIT_SPACE)
          (lamports c) = Some lam \<and>
        c' = c\<lparr>lamports := lam,
               account_owner := (account_owner c)(nullifier_key rt nf := program_id rt),
               nullifier_accounts := (nullifier_accounts c)(nf \<mapsto>
                 \<lparr> na_nullifier = zero32, na_used_at = 0, na_withdrawal_id = 0 \<rparr>)\<rparr>)"
  by (auto simp: init_nullifier_def rust_simps)

lemma move_tokens_Ok [rust_simps]:
  "move_tokens rt src mint dst authority amount decimals c = Ok c' \<longleftrightarrow>
     (\<exists>ts. transfer_checked rt src mint dst authority amount decimals (tokens c) = Some ts \<and>
        c' = c\<lparr>tokens := ts\<rparr>)"
  by (auto simp: move_tokens_def rust_simps)

lemma load_token_account_Ok [rust_simps]:
  "load_token_account k mint c = Ok ta \<longleftrightarrow> tokens c k = Some ta \<and> ta_mint ta = mint"
  by (auto simp: load_token_account_def rust_simps)

lemma load_owned_token_account_Ok [rust_simps]:
  "load_owned_token_account k mint owner c = Ok ta \<longleftrightarrow>
     tokens c k = Some ta \<and> ta_mint ta = mint \<and> ta_owner ta = owner"
  by (auto simp: load_owned_token_account_def rust_simps)

lemma bridge_with_authority_Ok [rust_simps]:
  "bridge_with_authority authority c = Ok bs \<longleftrightarrow>
     bridge_state c = Some bs \<and> bs_authority bs = authority"
  by (auto simp: bridge_with_authority_def rust_simps)

text \<open>Reads a successful handler as the list of its successful steps.\<close>

lemmas unfold_simps = rust_simps Let_def split_paired_Ex prod.case prod.inject result.inject

lemma record_settlement_Ok:
  "record_settlement rt clk sid s tree c = Ok (c', new_root) \<longleftrightarrow>
     (\<exists>tree1 r1 tree2. tree_append rt tree (st_out0 s) = Ok (tree1, r1) \<and>
        tree_append rt tree1 (st_out1 s) = Ok (tree2, new_root) \<and>
        c' = c\<lparr>nullifier_accounts := (nullifier_accounts c)
            (st_nullifier0 s \<mapsto> \<lparr> na_nullifier = st_nullifier0 s, na_used_at = unix_timestamp clk,
                                  na_withdrawal_id = sid \<rparr>,
             st_nullifier1 s \<mapsto> \<lparr> na_nullifier = st_nullifier1 s, na_used_at = unix_timestamp clk,
                                  na_withdrawal_id = sid \<rparr>),
           merkle_tree := Some tree2\<rparr>)"
  by (auto simp: record_settlement_def rust_simps Let_def split: prod.splits)

lemma transact_OkE:
  assumes "transact rt clk authority recipient infos s c = Ok (c', ev)"
  obtains bs tree va registry c1 c2 c3 new_root fee va' bs' c4 where
    "bridge_state c = Some bs" "bs_authority bs = authority" "merkle_tree c = Some tree"
    "account_owner c (bridge_vault_key rt) = system_program_id rt"
    "init_nullifier rt authority (st_nullifier0 s) c = Ok c1"
    "init_nullifier rt authority (st_nullifier1 s) c1 = Ok c2"
    "account_owner c2 recipient = system_program_id rt"
    "validator_accounts c authority = Some va" "validator_registry c = Some registry"
    "settlement_checks rt bs tree va registry authority recipient (Ok NATIVE_SOL_ASSET) infos s
       = Ok ()"
    "record_settlement rt clk (saturating_add (bs_withdrawal_count bs) 1) s tree c2
       = Ok (c3, new_root)"
    "native_payout rt recipient (st_ext_amount s) va bs c3 = Ok (fee, va', bs', c4)"
    "c' = c4\<lparr>validator_accounts := (validator_accounts c4)(authority \<mapsto> credit_task clk va'),
             bridge_state := Some (bs'\<lparr>bs_withdrawal_count :=
               saturating_add (bs_withdrawal_count bs) 1\<rparr>)\<rparr>"
    "ev = settlement_event clk s new_root fee recipient (saturating_add (bs_withdrawal_count bs) 1)"
  using assms
  by (auto simp: transact_def Transact_accounts_def rust_simps Let_def split: prod.splits)

lemma transact_spl_OkE:
  assumes "transact_spl rt clk authority accts infos s c = Ok (c', ev)"
  obtains bs tree decimals asset_vault va registry c1 c2 c3 new_root fee c4 where
    "bridge_state c = Some bs" "bs_authority bs = authority" "merkle_tree c = Some tree"
    "tokens c (asset_vault_key rt (sa_mint accts)) = Some asset_vault"
    "ta_mint asset_vault = sa_mint accts"
    "init_nullifier rt authority (st_nullifier0 s) c = Ok c1"
    "init_nullifier rt authority (st_nullifier1 s) c1 = Ok c2"
    "validator_accounts c authority = Some va" "validator_registry c = Some registry"
    "settlement_checks rt bs tree va registry authority (sa_recipient_token_account accts)
       (mint_to_asset rt (sa_mint accts)) infos s = Ok ()"
    "record_settlement rt clk (saturating_add (bs_withdrawal_count bs) 1) s tree c2
       = Ok (c3, new_root)"
    "spl_payout rt (sa_mint accts) decimals asset_vault (sa_recipient_token_account accts)
       (sa_fee_token_account accts) (st_ext_amount s) c3 = Ok (fee, c4)"
    "c' = c4\<lparr>validator_accounts := (validator_accounts c4)(authority \<mapsto> credit_task clk va),
             bridge_state := Some (bs\<lparr>bs_withdrawal_count :=
               saturating_add (bs_withdrawal_count bs) 1\<rparr>)\<rparr>"
    "ev = settlement_event clk s new_root fee (sa_recipient_token_account accts)
       (saturating_add (bs_withdrawal_count bs) 1)"
  using assms
  by (auto simp: transact_spl_def TransactSpl_accounts_def rust_simps Let_def split: prod.splits)

text \<open>What the checks of both handlers establish.\<close>

lemma settlement_input_checks_Ok:
  "settlement_input_checks rt bs tree s = Ok () \<longleftrightarrow>
     \<not> bs_paused bs \<and> st_proof s \<noteq> [] \<and> length (st_proof s) \<le> MAX_PROOF_LEN \<and>
     sint (st_ext_amount s) \<le> 0 \<and>
     canonical_bytes rt (st_nullifier0 s) \<and> canonical_bytes rt (st_nullifier1 s) \<and>
     st_nullifier0 s \<noteq> st_nullifier1 s \<and>
     canonical_bytes rt (st_out0 s) \<and> canonical_bytes rt (st_out1 s) \<and>
     canonical_bytes rt (st_root s) \<and>
     is_known_root tree (st_root s) = Some True"
  by (auto simp: settlement_input_checks_def rust_simps)

text \<open>The public inputs a settlement is proved against.\<close>

definition settlement_inputs :: "runtime \<Rightarrow> pubkey \<Rightarrow> bytes32 \<Rightarrow> settlement \<Rightarrow> bytes32 \<Rightarrow> public_inputs" where
  "settlement_inputs rt dest asset s public_amount =
     \<lparr> pi_root = st_root s, pi_public_amount = public_amount,
       pi_ext_data_hash = transact_ext_data_hash rt dest (st_ext_amount s), pi_asset_id = asset,
       pi_nullifier0 = st_nullifier0 s, pi_nullifier1 = st_nullifier1 s,
       pi_out_commitment0 = st_out0 s, pi_out_commitment1 = st_out1 s \<rparr>"

lemma settlement_checks_Ok:
  "settlement_checks rt bs tree va registry authority dest asset_result infos s = Ok () \<longleftrightarrow>
     settlement_input_checks rt bs tree s = Ok () \<and> va_is_active va \<and>
     verify_validator_quorum rt registry authority (va_stake_amount va) infos = Ok () \<and>
     (\<exists>public_amount asset. public_amount_bytes rt (st_ext_amount s) = Some public_amount \<and>
        asset_result = Ok asset \<and>
        verify_transact rt (settlement_inputs rt dest asset s public_amount) (st_proof s) =
          Some True)"
  by (auto simp: settlement_checks_def rust_simps Let_def settlement_inputs_def)

section \<open>Fees and payouts\<close>

lemma withdrawal_fee_Ok:
  "withdrawal_fee gross = Ok fee \<longleftrightarrow>
     unat gross * 25 < 2 ^ 64 \<and> unat fee = unat gross * 25 div 10000"
proof (cases "unat gross * 25 < 2 ^ 64")
  case True
  then have "withdrawal_fee gross = Ok (gross * 25 div 10000)"
    by (simp add: withdrawal_fee_def WITHDRAWAL_FEE_BPS_def checked_mul_def)
  moreover have "unat (gross * 25 div 10000) = unat gross * 25 div 10000"
    using True by (simp only: unat_div) (simp add: unat_times_no_wrap)
  ultimately show ?thesis using True by (auto simp: word_unat_eq_iff)
qed (simp add: withdrawal_fee_def WITHDRAWAL_FEE_BPS_def checked_mul_def)

lemma fee_le_gross: "withdrawal_fee gross = Ok fee \<Longrightarrow> unat fee \<le> unat gross"
  by (auto simp: withdrawal_fee_Ok)

lemma native_payout_OkE:
  assumes "native_payout rt recipient ext va bs c = Ok (fee, va', bs', c')"
    and "sint ext < 0"
  obtains payout lam pending withdrawn where
    "withdrawal_fee (unsigned_abs ext) = Ok fee"
    "unat (unsigned_abs ext) = unat payout + unat fee"
    "saturating_add payout (minimum_balance rt 0) \<le> lamports c (bridge_vault_key rt)"
    "system_transfer rt (bridge_vault_key rt) recipient payout (lamports c) = Some lam"
    "unat pending = unat (va_pending_rewards va) + unat fee"
    "unat withdrawn = unat (bs_total_withdrawn bs) + unat (unsigned_abs ext)"
    "va' = va\<lparr>va_pending_rewards := pending\<rparr>" "bs' = bs\<lparr>bs_total_withdrawn := withdrawn\<rparr>"
    "c' = c\<lparr>lamports := lam\<rparr>"
  using assms by (auto simp: native_payout_def rust_simps checked_simps Let_def)

lemma native_payout_zero:
  "\<not> sint ext < 0 \<Longrightarrow> native_payout rt recipient ext va bs c = Ok (0, va, bs, c)"
  by (simp add: native_payout_def)

end
