(* ===== verification/Settlement_Safety.thy ===== *)
theory Settlement_Safety
  imports Settlement
begin

text \<open>
  What the money paths guarantee: which checks a settled transaction has passed, that exactly
  the proved amount leaves the vault and how it splits into payout and fee, that a deposit
  credits exactly what it commits and stays under the cap, and how the failing cases fail.
  The examples settle a withdrawal on the reference runtime.
\<close>

section \<open>Lamports around a settlement\<close>

lemma init_nullifier_frame:
  assumes "init_nullifier rt payer nf c = Ok c'"
  shows "bridge_state c' = bridge_state c" "merkle_tree c' = merkle_tree c"
    "validator_accounts c' = validator_accounts c" "validator_registry c' = validator_registry c"
    "tokens c' = tokens c" "asset_configs c' = asset_configs c"
    "mint_decimals c' = mint_decimals c" "program_data c' = program_data c"
  using assms by (auto simp: init_nullifier_Ok)

lemma init_nullifier_lamports:
  assumes "runtime_ok rt" and "signer_ok rt payer" and "init_nullifier rt payer nf c = Ok c'"
    and "k \<noteq> payer" and "k \<noteq> nullifier_key rt nf"
  shows "lamports c' k = lamports c k"
  using assms(3) anchor_initD(4) [OF assms(1), of payer "nullifier_key rt nf"] assms(2,4,5)
  by (auto simp: init_nullifier_Ok)

lemma init_nullifier_owner:
  "init_nullifier rt payer nf c = Ok c' \<Longrightarrow>
   account_owner c' = (account_owner c)(nullifier_key rt nf := program_id rt)"
  by (auto simp: init_nullifier_Ok)

lemma recipient_not_nullifier:
  assumes "runtime_ok rt"
    and "init_nullifier rt payer nf0 c = Ok c1" "init_nullifier rt payer nf1 c1 = Ok c2"
    and "account_owner c2 recipient = system_program_id rt"
  shows "recipient \<noteq> nullifier_key rt nf0" and "recipient \<noteq> nullifier_key rt nf1"
  using assms(4) pda_okD(12) [OF assms(1)]
    init_nullifier_owner [OF assms(2)] init_nullifier_owner [OF assms(3)]
  by (auto split: if_splits)

text \<open>The signed amount of a settlement as a natural number.\<close>

definition gross_amount :: "settlement \<Rightarrow> nat" where
  "gross_amount s = unat (unsigned_abs (st_ext_amount s))"

definition settlement_fee :: "settlement \<Rightarrow> nat" where
  "settlement_fee s = gross_amount s * 25 div 10000"

lemma gross_amount_sint: "sint (st_ext_amount s) \<le> 0 \<Longrightarrow> int (gross_amount s) = - sint (st_ext_amount s)"
  using unat_unsigned_abs [of "st_ext_amount s"] unfolding gross_amount_def by linarith

lemma gross_amount_zero: "gross_amount s = 0 \<longleftrightarrow> sint (st_ext_amount s) = 0"
  using unat_unsigned_abs [of "st_ext_amount s"] unfolding gross_amount_def by linarith

lemma settlement_fee_le: "settlement_fee s \<le> gross_amount s"
  by (simp add: settlement_fee_def)

lemma native_payout_effect:
  assumes "system_program_ok rt" and "sint (st_ext_amount s) \<le> 0"
    and "native_payout rt recipient (st_ext_amount s) va bs c = Ok (fee, va', bs', c')"
  obtains lam pending withdrawn where
    "unat fee = settlement_fee s"
    "va' = va\<lparr>va_pending_rewards := pending\<rparr>"
    "unat pending = unat (va_pending_rewards va) + settlement_fee s"
    "bs' = bs\<lparr>bs_total_withdrawn := withdrawn\<rparr>"
    "unat withdrawn = unat (bs_total_withdrawn bs) + gross_amount s"
    "c' = c\<lparr>lamports := lam\<rparr>"
    "moved (bridge_vault_key rt) recipient (gross_amount s - settlement_fee s) (lamports c) lam"
    "0 < gross_amount s \<longrightarrow>
      min (2 ^ 64 - 1) (gross_amount s - settlement_fee s + unat (minimum_balance rt 0))
        \<le> unat (lamports c (bridge_vault_key rt))"
proof (cases "sint (st_ext_amount s) < 0")
  case True
  obtain payout lam pending withdrawn where
    fee: "withdrawal_fee (unsigned_abs (st_ext_amount s)) = Ok fee"
    and split: "unat (unsigned_abs (st_ext_amount s)) = unat payout + unat fee"
    and floor: "saturating_add payout (minimum_balance rt 0) \<le> lamports c (bridge_vault_key rt)"
    and move: "system_transfer rt (bridge_vault_key rt) recipient payout (lamports c) = Some lam"
    and books: "unat pending = unat (va_pending_rewards va) + unat fee"
      "unat withdrawn = unat (bs_total_withdrawn bs) + unat (unsigned_abs (st_ext_amount s))"
      "va' = va\<lparr>va_pending_rewards := pending\<rparr>" "bs' = bs\<lparr>bs_total_withdrawn := withdrawn\<rparr>"
      "c' = c\<lparr>lamports := lam\<rparr>"
    using assms(3) True by (rule native_payout_OkE)
  have fee': "unat fee = settlement_fee s"
    using fee by (simp add: withdrawal_fee_Ok settlement_fee_def gross_amount_def)
  then have payout: "unat payout = gross_amount s - settlement_fee s"
    using split by (simp add: gross_amount_def)
  have "min (2 ^ 64 - 1) (unat payout + unat (minimum_balance rt 0)) \<le>
      unat (lamports c (bridge_vault_key rt))"
    using floor by (simp add: word_le_nat_alt unat_saturating_add min.commute)
  then show ?thesis
    using that [OF fee' books(3) _ books(4) _ books(5)] books(1,2) fee' payout
      system_transfer_moved [OF assms(1) move]
    by (simp add: gross_amount_def)
next
  case False
  then have zero: "gross_amount s = 0" using assms(2) by (simp add: gross_amount_zero)
  have eq: "fee = 0" "va' = va" "bs' = bs" "c' = c"
    using assms(3) False by (simp_all add: native_payout_zero)
  show ?thesis
    by (rule that [of "va_pending_rewards va" "bs_total_withdrawn bs" "lamports c"])
      (simp_all add: eq zero settlement_fee_def)
qed

section \<open>The whole of a native settlement\<close>

lemma transact_effect:
  assumes "runtime_ok rt" and "signer_ok rt authority"
    and "transact rt clk authority recipient infos s c = Ok (c', ev)"
  obtains bs va pending withdrawn where
    "bridge_state c = Some bs"
    "bridge_state c' = Some (bs\<lparr>bs_total_withdrawn := withdrawn,
       bs_withdrawal_count := saturating_add (bs_withdrawal_count bs) 1\<rparr>)"
    "validator_accounts c authority = Some va"
    "validator_accounts c' = (validator_accounts c)
       (authority \<mapsto> credit_task clk (va\<lparr>va_pending_rewards := pending\<rparr>))"
    "unat pending = unat (va_pending_rewards va) + settlement_fee s"
    "unat withdrawn = unat (bs_total_withdrawn bs) + gross_amount s"
    "validator_registry c' = validator_registry c" "tokens c' = tokens c"
    "asset_configs c' = asset_configs c"
    "recipient \<noteq> bridge_vault_key rt \<Longrightarrow> unat (lamports c (bridge_vault_key rt)) =
       unat (lamports c' (bridge_vault_key rt)) + (gross_amount s - settlement_fee s)"
    "recipient = bridge_vault_key rt \<Longrightarrow>
       lamports c' (bridge_vault_key rt) = lamports c (bridge_vault_key rt)"
    "recipient \<noteq> bridge_vault_key rt \<Longrightarrow> recipient \<noteq> authority \<Longrightarrow>
       unat (lamports c' recipient) =
         unat (lamports c recipient) + (gross_amount s - settlement_fee s)"
    "\<And>w. lamports c (validator_key rt w) \<le> lamports c' (validator_key rt w)"
    "0 < gross_amount s \<Longrightarrow>
      min (2 ^ 64 - 1) (gross_amount s - settlement_fee s + unat (minimum_balance rt 0))
        \<le> unat (lamports c (bridge_vault_key rt))"
  using assms(3)
proof (rule transact_OkE)
  fix bs tree va registry c1 c2 c3 new_root fee va' bs' c4
  assume acc: "bridge_state c = Some bs" "validator_accounts c authority = Some va"
    and i0: "init_nullifier rt authority (st_nullifier0 s) c = Ok c1"
    and i1: "init_nullifier rt authority (st_nullifier1 s) c1 = Ok c2"
    and owner: "account_owner c2 recipient = system_program_id rt"
    and checks: "settlement_checks rt bs tree va registry authority recipient
      (Ok NATIVE_SOL_ASSET) infos s = Ok ()"
    and rec: "record_settlement rt clk (saturating_add (bs_withdrawal_count bs) 1) s tree c2
      = Ok (c3, new_root)"
    and pay: "native_payout rt recipient (st_ext_amount s) va bs c3 = Ok (fee, va', bs', c4)"
    and c': "c' = c4\<lparr>validator_accounts := (validator_accounts c4)(authority \<mapsto> credit_task clk va'),
      bridge_state := Some (bs'\<lparr>bs_withdrawal_count := saturating_add (bs_withdrawal_count bs) 1\<rparr>)\<rparr>"
  let ?v = "bridge_vault_key rt"
  have ext: "sint (st_ext_amount s) \<le> 0"
    using checks by (simp add: settlement_checks_Ok settlement_input_checks_Ok)
  have lam3: "lamports c3 = lamports c2" "validator_accounts c3 = validator_accounts c2"
    "validator_registry c3 = validator_registry c2" "tokens c3 = tokens c2"
    "asset_configs c3 = asset_configs c2"
    using rec by (auto simp: record_settlement_Ok)
  have keep: "lamports c3 k = lamports c k" if "k \<noteq> authority"
    "k \<noteq> nullifier_key rt (st_nullifier0 s)" "k \<noteq> nullifier_key rt (st_nullifier1 s)" for k
    using init_nullifier_lamports [OF assms(1,2) i0] init_nullifier_lamports [OF assms(1,2) i1]
      that lam3 by simp
  have vault: "lamports c3 ?v = lamports c ?v"
    using assms(2) by (intro keep) (simp_all add: pda_okD [OF assms(1)])
  have vk: "lamports c3 (validator_key rt w) = lamports c (validator_key rt w)" for w
    using assms(2) by (intro keep) (simp_all add: pda_okD [OF assms(1)])
  have rcpt: "lamports c3 recipient = lamports c recipient" if "recipient \<noteq> authority"
    using that recipient_not_nullifier [OF assms(1) i0 i1 owner] by (intro keep) simp_all
  obtain lam pending withdrawn where
    "unat fee = settlement_fee s"
    and books: "va' = va\<lparr>va_pending_rewards := pending\<rparr>"
      "unat pending = unat (va_pending_rewards va) + settlement_fee s"
      "bs' = bs\<lparr>bs_total_withdrawn := withdrawn\<rparr>"
      "unat withdrawn = unat (bs_total_withdrawn bs) + gross_amount s"
      "c4 = c3\<lparr>lamports := lam\<rparr>"
    and mv: "moved ?v recipient (gross_amount s - settlement_fee s) (lamports c3) lam"
    and floor: "0 < gross_amount s \<longrightarrow>
      min (2 ^ 64 - 1) (gross_amount s - settlement_fee s + unat (minimum_balance rt 0))
        \<le> unat (lamports c3 ?v)"
    using runtime_okD(1) [OF assms(1)] ext pay by (rule native_payout_effect)
  have mono: "lamports c (validator_key rt w) \<le> lam (validator_key rt w)" for w
    using moved_src_le [OF mv, of "validator_key rt w"] vk [of w] pda_okD(2) [OF assms(1)] by simp
  show thesis
    using acc c' books lam3 init_nullifier_frame [OF i0] init_nullifier_frame [OF i1]
      mv vault rcpt mono floor
    by (intro that [of bs withdrawn va pending]) (simp_all add: moved_def)
qed

section \<open>Deposits\<close>

lemma DepositNote_accounts_Ok:
  "DepositNote_accounts rt c = Ok (bs, tree) \<longleftrightarrow>
     bridge_state c = Some bs \<and> account_owner c (bridge_vault_key rt) = system_program_id rt \<and>
     merkle_tree c = Some tree"
  by (auto simp: DepositNote_accounts_def rust_simps)

lemma DepositNoteSpl_accounts_Ok:
  "DepositNoteSpl_accounts rt depositor mint dta c = Ok (bs, config, decimals, asset_vault, tree) \<longleftrightarrow>
     bridge_state c = Some bs \<and> asset_configs c mint = Some config \<and>
     mint_decimals c mint = Some decimals \<and>
     load_token_account (asset_vault_key rt mint) mint c = Ok asset_vault \<and>
     (\<exists>ta. load_owned_token_account dta mint depositor c = Ok ta) \<and> merkle_tree c = Some tree"
  by (auto simp: DepositNoteSpl_accounts_def rust_simps)

lemma deposit_note_OkE:
  assumes "deposit_note rt clk depositor amount pubkey blinding c = Ok (c', ev)"
  obtains bs tree projected lam cm tree' r deposited where
    "bridge_state c = Some bs" "merkle_tree c = Some tree" "\<not> bs_paused bs" "0 < amount"
    "canonical_bytes rt pubkey" "canonical_bytes rt blinding"
    "checked_add (lamports c (bridge_vault_key rt)) amount = Some projected"
    "projected \<le> bs_deposit_cap bs"
    "system_transfer rt depositor (bridge_vault_key rt) amount (lamports c) = Some lam"
    "commitment rt amount pubkey blinding NATIVE_SOL_ASSET = Ok cm"
    "tree_append rt tree cm = Ok (tree', r)"
    "checked_add (bs_total_deposited bs) amount = Some deposited"
    "c' = c\<lparr>lamports := lam, merkle_tree := Some tree',
            bridge_state := Some (bs\<lparr>bs_total_deposited := deposited,
              bs_deposit_count := saturating_add (bs_deposit_count bs) 1\<rparr>)\<rparr>"
    "ev = DepositNote \<lparr> de_depositor = depositor, de_amount = amount, de_commitment = cm,
       de_leaf_index = mt_next_index tree, de_timestamp = unix_timestamp clk \<rparr>"
  by (insert assms, simp only: deposit_note_def DepositNote_accounts_Ok unfold_simps, elim exE conjE, rule that, assumption+,
      (hypsubst, rule refl)+)

lemma deposit_note_spl_OkE:
  assumes "deposit_note_spl rt clk depositor mint dta amount pubkey blinding c = Ok (c', ev)"
  obtains bs config decimals vault tree projected ts reloaded realized asset cm tree' r deposited where
    "bridge_state c = Some bs" "asset_configs c mint = Some config"
    "tokens c (asset_vault_key rt mint) = Some vault" "merkle_tree c = Some tree"
    "\<not> bs_paused bs" "0 < amount"
    "checked_add (ta_amount vault) amount = Some projected" "projected \<le> ac_deposit_cap config"
    "transfer_checked rt dta mint (asset_vault_key rt mint) depositor amount decimals (tokens c)
       = Some ts"
    "ts (asset_vault_key rt mint) = Some reloaded"
    "checked_sub (ta_amount reloaded) (ta_amount vault) = Some realized" "realized = amount"
    "mint_to_asset rt mint = Ok asset" "commitment rt amount pubkey blinding asset = Ok cm"
    "tree_append rt tree cm = Ok (tree', r)"
    "checked_add (ac_total_deposited config) amount = Some deposited"
    "c' = c\<lparr>tokens := ts, merkle_tree := Some tree',
            asset_configs := (asset_configs c)(mint \<mapsto>
              config\<lparr>ac_total_deposited := deposited,
                     ac_deposit_count := saturating_add (ac_deposit_count config) 1\<rparr>)\<rparr>"
    "ev = DepositNoteSpl \<lparr> ds_depositor = depositor, ds_mint = mint, ds_amount = amount,
       ds_commitment = cm, ds_leaf_index = mt_next_index tree, ds_timestamp = unix_timestamp clk \<rparr>"
  by (insert assms, simp only: deposit_note_spl_def DepositNoteSpl_accounts_Ok unfold_simps, elim exE conjE, rule that, assumption+,
      (hypsubst, rule refl)+)

section \<open>Token settlements\<close>

lemma spl_payout_OkE:
  assumes "spl_payout rt mint decimals vault rta fta ext c = Ok (fee, c')" and "sint ext < 0"
  obtains payout ts c1 where
    "withdrawal_fee (unsigned_abs ext) = Ok fee"
    "checked_sub (unsigned_abs ext) fee = Some payout"
    "transfer_checked rt (asset_vault_key rt mint) mint rta (asset_vault_authority_key rt) payout
       decimals (tokens c) = Some ts"
    "c1 = c\<lparr>tokens := ts\<rparr>"
    "(if 0 < fee
      then move_tokens rt (asset_vault_key rt mint) mint fta (asset_vault_authority_key rt) fee
             decimals c1
      else Ok c1) = Ok c'"
  by (insert assms, simp only: spl_payout_def if_True unfold_simps, elim exE conjE, hypsubst,
      rule that, assumption+, rule refl, assumption)

lemma spl_payout_frame:
  assumes "spl_payout rt mint decimals vault rta fta ext c = Ok (fee, c')"
  shows "c' = c\<lparr>tokens := tokens c'\<rparr>"
proof (cases "sint ext < 0")
  case True
  obtain ts c1 where "c1 = c\<lparr>tokens := ts\<rparr>"
    "(if 0 < fee then move_tokens rt (asset_vault_key rt mint) mint fta
        (asset_vault_authority_key rt) fee decimals c1 else Ok c1) = Ok c'"
    using spl_payout_OkE [OF assms True] by blast
  then show ?thesis by (auto simp: move_tokens_Ok split: if_splits)
qed (use assms in \<open>simp add: spl_payout_def\<close>)

lemma native_payout_frame:
  assumes "native_payout rt recipient ext va bs c = Ok (fee, va', bs', c')"
  shows "c' = c\<lparr>lamports := lamports c'\<rparr>"
proof (cases "sint ext < 0")
  case True
  from assms True show ?thesis by (rule native_payout_OkE) simp
qed (use assms in \<open>simp add: native_payout_zero\<close>)

lemma spl_payout_effect:
  assumes "runtime_ok rt" and "sint (st_ext_amount s) \<le> 0"
    and "spl_payout rt mint decimals vault rta fta (st_ext_amount s) c = Ok (fee, c')"
    and "rta \<noteq> asset_vault_key rt mint" and "fta \<noteq> asset_vault_key rt mint"
  shows "unat fee = settlement_fee s \<and> c' = c\<lparr>tokens := tokens c'\<rparr> \<and>
    token_meta (tokens c') = token_meta (tokens c) \<and>
    token_balance (tokens c) (asset_vault_key rt mint) =
      token_balance (tokens c') (asset_vault_key rt mint) + gross_amount s \<and>
    (\<forall>k. k \<noteq> asset_vault_key rt mint \<longrightarrow> k \<noteq> rta \<longrightarrow> k \<noteq> fta \<longrightarrow> tokens c' k = tokens c k)"
proof (cases "sint (st_ext_amount s) < 0")
  case False
  then have "gross_amount s = 0" using assms(2) by (simp add: gross_amount_zero)
  then show ?thesis using False assms(3) by (simp add: spl_payout_def settlement_fee_def)
next
  case True
  let ?v = "asset_vault_key rt mint" and ?a = "asset_vault_authority_key rt"
  obtain payout ts c1 where
    fee: "withdrawal_fee (unsigned_abs (st_ext_amount s)) = Ok fee"
    and sub: "checked_sub (unsigned_abs (st_ext_amount s)) fee = Some payout"
    and pay: "transfer_checked rt ?v mint rta ?a payout decimals (tokens c) = Some ts"
    and c1: "c1 = c\<lparr>tokens := ts\<rparr>"
    and feepay: "(if 0 < fee then move_tokens rt ?v mint fta ?a fee decimals c1 else Ok c1) = Ok c'"
    using assms(3) True by (rule spl_payout_OkE)
  have split: "gross_amount s = unat payout + unat fee"
    using sub by (simp add: checked_simps gross_amount_def)
  have fee': "unat fee = settlement_fee s"
    using fee by (simp add: withdrawal_fee_Ok settlement_fee_def gross_amount_def)
  note p = transfer_checkedD [OF assms(1) assms(4)[symmetric] pay]
  show ?thesis
  proof (cases "0 < fee")
    case True
    then obtain ts' where f: "transfer_checked rt ?v mint fta ?a fee decimals ts = Some ts'"
      and c': "c' = c\<lparr>tokens := ts'\<rparr>" using feepay c1 by (auto simp: move_tokens_Ok)
    note q = transfer_checkedD [OF assms(1) assms(5)[symmetric] f]
    show ?thesis using p q c' fee' split by simp
  next
    case False
    then have "unat fee = 0" by (simp add: word_less_nat_alt)
    moreover have "c' = c\<lparr>tokens := ts\<rparr>" using False feepay c1 by simp
    ultimately show ?thesis using p fee' split by simp
  qed
qed

section \<open>An example withdrawal\<close>

text \<open>A committee of two co-signers settles a withdrawal of 1000 lamports on the reference
  runtime.\<close>

definition example_validator :: ValidatorAccount where
  "example_validator =
     \<lparr> va_validator = replicate 32 9, va_stake_amount = 0, va_reputation_score = 1000,
       va_total_tasks_verified = 0, va_successful_verifications = 0, va_registered_at = 0,
       va_last_active = 0, va_is_active = True, va_pending_rewards = 0, va_total_earnings = 0,
       va_times_slashed = 0, va_unbonding_amount = 0, va_unbonding_slot = 0,
       va_token_stake_amount = 0, va_token_unbonding_amount = 0 \<rparr>"

definition example_bridge :: BridgeState where
  "example_bridge =
     \<lparr> bs_program_version = 0, bs_authority = replicate 32 9, bs_total_deposited = 5000,
       bs_total_withdrawn = 0, bs_deposit_count = 1, bs_withdrawal_count = 0, bs_paused = False,
       bs_merkle_root = zero32, bs_deposit_cap = 2000000 \<rparr>"

definition example_chain :: chain where
  "example_chain =
     \<lparr> lamports = (\<lambda>k. 1000000), account_owner = (\<lambda>k. zero32), tokens = Map.empty,
       mint_decimals = Map.empty,
       program_data = \<lparr> pd_owner = replicate 32 8, pd_data = [] \<rparr>,
       bridge_state = Some example_bridge, merkle_tree = Some initialize_tree,
       validator_registry = Some example_registry,
       validator_accounts = [replicate 32 9 \<mapsto> example_validator],
       nullifier_accounts = Map.empty, asset_configs = Map.empty \<rparr>"

definition example_clock :: clock where
  "example_clock = \<lparr> slot = 10, unix_timestamp = 99 \<rparr>"

definition example_settlement :: settlement where
  "example_settlement =
     \<lparr> st_nullifier0 = le_bytes 32 11, st_nullifier1 = le_bytes 32 12,
       st_out0 = le_bytes 32 21, st_out1 = le_bytes 32 22, st_root = ZERO_HASHES ! 32,
       st_ext_amount = - 1000, st_proof = replicate 256 0 \<rparr>"

lemma canonical_small: "n < 1000 \<Longrightarrow> canonical (le_bytes 32 n)"
  by (simp add: canonical_def le_val_le_bytes_field fr_modulus_def)

lemma canonical_bytes_ref: "canonical_bytes ref_runtime v \<longleftrightarrow> canonical v"
  by (simp add: canonical_bytes_iff canonical_def)

lemma known_empty_root: "is_known_root initialize_tree (ZERO_HASHES ! 32) = Some True"
proof -
  have "ZERO_HASHES ! 32 \<noteq> ZERO_HASHES ! 0"
    using nth_eq_iff_index_eq [OF distinct_ZERO_HASHES, of 32 0] by (simp add: TREE_DEPTH_def)
  moreover have "ZERO_HASHES ! 32 \<in> set (mt_root_history initialize_tree)"
    by (simp add: initialize_tree_def ROOT_HISTORY_SIZE_def TREE_DEPTH_def set_update_memI)
  ultimately show ?thesis
    using is_known_root_history [of initialize_tree "ZERO_HASHES ! 32"]
    by (simp add: initialize_tree_def ROOT_HISTORY_SIZE_def)
qed

lemma ref_prepare_inputs:
  assumes "\<forall>z \<in> set (vk_ic vk). length z = 64" and "i + length xs < length (vk_ic vk)"
  shows "\<exists>acc'. prepare_inputs_loop ref_runtime vk i (map input_be xs) acc = Ok acc'"
  using assms(2)
proof (induction xs arbitrary: i acc)
  case (Cons x xs)
  have "length (vk_ic vk ! (i + 1)) = 64" using assms(1) Cons.prems by simp
  then show ?case
    using Cons.IH [of "i + 1"] Cons.prems by (simp add: input_be_below_field)
qed simp

lemma ref_verify_transact:
  assumes "length wire = 256"
  shows "verify_transact ref_runtime p wire = Some True"
proof -
  have "\<forall>z \<in> set VK_IC. length z = 64"
    by (simp add: VK_IC_def VK_IC_0_def VK_IC_1_def VK_IC_2_def VK_IC_3_def VK_IC_4_def
        VK_IC_5_def VK_IC_6_def VK_IC_7_def VK_IC_8_def)
  then obtain v where "prepare_inputs ref_runtime (transact_groth16 p wire) = Ok v"
    using ref_prepare_inputs [of verifying_key 0 "public_input_list p" "VK_IC ! 0"]
    by (auto simp: prepare_inputs_def transact_groth16_def verifying_key_def)
  then have "verify ref_runtime (transact_groth16 p wire) = Some (Ok True)"
    by (simp add: verify_accepts_iff nth_append)
  then show ?thesis
    using verify_transact_verifier [of ref_runtime wire p] assms by (simp add: WIRE_PROOF_LEN_def)
qed

lemma example_checks:
  "settlement_checks ref_runtime example_bridge initialize_tree example_validator example_registry
     (replicate 32 9) dest (Ok asset) example_infos example_settlement = Ok ()"
proof -
  obtain amount where "public_amount_bytes ref_runtime (- 1000) = Some amount"
    using public_amount_bytes_value [of ref_runtime "- 1000"] by auto
  moreover have "le_bytes 32 11 \<noteq> le_bytes 32 12" by (simp add: le_bytes_inject)
  moreover have "canonical (ZERO_HASHES ! 32)" by (simp add: ZERO_HASHES_canonical TREE_DEPTH_def)
  ultimately show ?thesis
    using example_quorum_accepted known_empty_root
    by (simp add: settlement_checks_Ok settlement_input_checks_Ok example_bridge_def
        example_settlement_def example_validator_def canonical_bytes_ref canonical_small
        MAX_PROOF_LEN_def ref_verify_transact)
qed

lemma example_init:
  assumes "lamports c = (\<lambda>k. 1000000)" and "nullifier_accounts c nf = None"
  shows "\<exists>c'. init_nullifier ref_runtime (replicate 32 9) nf c = Ok c' \<and>
    lamports c' = lamports c \<and>
    account_owner c' = (account_owner c)(nullifier_key ref_runtime nf := program_id ref_runtime) \<and>
    (\<forall>nf'. nf' \<noteq> nf \<longrightarrow> nullifier_accounts c' nf' = nullifier_accounts c nf')"
proof -
  have "ref_anchor_init (replicate 32 9) (nullifier_key ref_runtime nf)
      (8 + NullifierAccount_INIT_SPACE) (lamports c) = Some (lamports c)"
    using assms(1)
    by (simp add: ref_anchor_init_def ref_system_transfer_def NullifierAccount_INIT_SPACE_def
        saturating_sub_def checked_add_def Let_def fun_upd_idem)
  then show ?thesis using assms(2) by (simp add: init_nullifier_Ok)
qed

lemma example_appends:
  "\<exists>t1 r1 t2 r2. tree_append ref_runtime initialize_tree (le_bytes 32 21) = Ok (t1, r1) \<and>
     tree_append ref_runtime t1 (le_bytes 32 22) = Ok (t2, r2)"
proof -
  obtain t1 r1 where t1: "tree_append ref_runtime initialize_tree (le_bytes 32 21) = Ok (t1, r1)"
    "tree_canonical t1"
    using tree_append_succeeds [OF ref_poseidon_ok tree_canonical_initialize, of "le_bytes 32 21"]
    by (auto simp: canonical_small initialize_tree_def)
  have "unat (mt_next_index t1) = 1"
    using t1(1) by (rule tree_append_OkD) (simp add: initialize_tree_def)
  then show ?thesis
    using t1 tree_append_succeeds [OF ref_poseidon_ok t1(2), of "le_bytes 32 22"]
    by (auto simp: canonical_small TREE_DEPTH_def)
qed

lemma example_payout:
  assumes "lamports c = (\<lambda>k. 1000000)"
  shows "\<exists>fee va' bs' c'. native_payout ref_runtime (replicate 32 4) (- 1000) example_validator
    example_bridge c = Ok (fee, va', bs', c')"
proof -
  have "withdrawal_fee 1000 = Ok 2" by (simp add: withdrawal_fee_Ok)
  moreover have "unsigned_abs (- 1000) = 1000" by (simp add: unsigned_abs_def)
  ultimately show ?thesis
    using assms
    by (simp add: native_payout_def transfer_lamports_def ref_system_transfer_def checked_add_def
        checked_sub_def saturating_add_def example_validator_def example_bridge_def Let_def)
qed

lemma example_transact:
  "\<exists>c' ev. transact ref_runtime example_clock (replicate 32 9) (replicate 32 4) example_infos
     example_settlement example_chain = Ok (c', ev)"
proof -
  let ?a = "replicate 32 9 :: pubkey" and ?k = "nullifier_key ref_runtime"
  have ne: "le_bytes 32 11 \<noteq> le_bytes 32 12" by (simp add: le_bytes_inject)
  have r: "replicate 32 4 \<noteq> ?k nf" for nf
    using signer_ok_keys(8) [OF ref_signer_ok [of "replicate 32 4"]] by simp
  obtain c1 where c1: "init_nullifier ref_runtime ?a (le_bytes 32 11) example_chain = Ok c1"
    "lamports c1 = (\<lambda>k. 1000000)" "account_owner c1 (replicate 32 4) = zero32"
    "nullifier_accounts c1 (le_bytes 32 12) = None"
    using example_init [of example_chain "le_bytes 32 11"] ne r
    by (auto simp: example_chain_def)
  obtain c2 where c2: "init_nullifier ref_runtime ?a (le_bytes 32 12) c1 = Ok c2"
    "lamports c2 = (\<lambda>k. 1000000)" "account_owner c2 (replicate 32 4) = zero32"
    using example_init [of c1 "le_bytes 32 12"] c1 r by auto
  obtain c3 new_root where c3: "record_settlement ref_runtime example_clock 1 example_settlement
      initialize_tree c2 = Ok (c3, new_root)" "lamports c3 = (\<lambda>k. 1000000)"
    using example_appends c2(2) by (auto simp: record_settlement_def example_settlement_def Let_def)
  obtain fee va' bs' c4 where "native_payout ref_runtime (replicate 32 4) (- 1000)
      example_validator example_bridge c3 = Ok (fee, va', bs', c4)"
    using example_payout [OF c3(2)] by blast
  then show ?thesis
    using c1 c2 c3 example_checks [of "replicate 32 4" NATIVE_SOL_ASSET]
    by (simp add: transact_def Transact_accounts_def bridge_with_authority_def example_chain_def example_bridge_def
        require_system_account_def Let_def example_settlement_def saturating_add_def)
qed

section \<open>Properties\<close>

text \<open>What every settlement has established when it succeeds.\<close>

definition settled_soundly ::
  "runtime \<Rightarrow> pubkey \<Rightarrow> pubkey \<Rightarrow> bytes32 \<Rightarrow> account_info list \<Rightarrow> settlement \<Rightarrow> chain \<Rightarrow> chain \<Rightarrow> bool"
  where
  "settled_soundly rt authority dest asset infos s c c' \<longleftrightarrow>
     (\<exists>bs tree va registry amount t1 r1 t2 r2.
        bridge_state c = Some bs \<and> \<not> bs_paused bs \<and> bs_authority bs = authority \<and>
        merkle_tree c = Some tree \<and> is_known_root tree (st_root s) = Some True \<and>
        validator_accounts c authority = Some va \<and> va_is_active va \<and>
        validator_registry c = Some registry \<and>
        verify_validator_quorum rt registry authority (va_stake_amount va) infos = Ok () \<and>
        sint (st_ext_amount s) \<le> 0 \<and>
        public_amount_bytes rt (st_ext_amount s) = Some amount \<and>
        verify_transact rt (settlement_inputs rt dest asset s amount) (st_proof s) = Some True \<and>
        canonical_bytes rt (st_nullifier0 s) \<and> canonical_bytes rt (st_nullifier1 s) \<and>
        nullifier_accounts c (st_nullifier0 s) = None \<and>
        nullifier_accounts c (st_nullifier1 s) = None \<and>
        st_nullifier0 s \<noteq> st_nullifier1 s \<and>
        dom (nullifier_accounts c') =
          insert (st_nullifier0 s) (insert (st_nullifier1 s) (dom (nullifier_accounts c))) \<and>
        tree_append rt tree (st_out0 s) = Ok (t1, r1) \<and>
        tree_append rt t1 (st_out1 s) = Ok (t2, r2) \<and> merkle_tree c' = Some t2)"

lemma settled_soundlyI:
  assumes "bridge_state c = Some bs" "bs_authority bs = authority" "merkle_tree c = Some tree"
    and i0: "init_nullifier rt authority (st_nullifier0 s) c = Ok c1"
    and i1: "init_nullifier rt authority (st_nullifier1 s) c1 = Ok c2"
    and "validator_accounts c authority = Some va" "validator_registry c = Some registry"
    and checks: "settlement_checks rt bs tree va registry authority dest (Ok asset) infos s = Ok ()"
    and rec: "record_settlement rt clk sid s tree c2 = Ok (c3, new_root)"
    and keep: "nullifier_accounts c' = nullifier_accounts c3" "merkle_tree c' = merkle_tree c3"
  shows "settled_soundly rt authority dest asset infos s c c'"
proof -
  obtain amount where
    amount: "public_amount_bytes rt (st_ext_amount s) = Some amount"
      "verify_transact rt (settlement_inputs rt dest asset s amount) (st_proof s) = Some True"
    and q: "va_is_active va"
      "verify_validator_quorum rt registry authority (va_stake_amount va) infos = Ok ()"
      "settlement_input_checks rt bs tree s = Ok ()"
    using checks by (auto simp: settlement_checks_Ok)
  obtain t1 r1 t2 where t: "tree_append rt tree (st_out0 s) = Ok (t1, r1)"
    "tree_append rt t1 (st_out1 s) = Ok (t2, new_root)" "merkle_tree c3 = Some t2"
    using rec by (auto simp: record_settlement_Ok)
  have nf: "nullifier_accounts c (st_nullifier0 s) = None"
    "nullifier_accounts c (st_nullifier1 s) = None" "st_nullifier0 s \<noteq> st_nullifier1 s"
    using i0 i1 by (auto simp: init_nullifier_Ok split: if_splits)
  have dom: "dom (nullifier_accounts c3) =
      insert (st_nullifier0 s) (insert (st_nullifier1 s) (dom (nullifier_accounts c)))"
    using rec i0 i1 by (auto simp: record_settlement_Ok init_nullifier_Ok)
  show ?thesis
    unfolding settled_soundly_def
    using assms(1-3,6,7) amount q t nf dom keep by (auto simp: settlement_input_checks_Ok)
qed

lemma transact_settled:
  assumes "transact rt clk authority recipient infos s c = Ok (c', ev)"
  shows "settled_soundly rt authority recipient NATIVE_SOL_ASSET infos s c c'"
  using assms
proof (rule transact_OkE, intro settled_soundlyI)
  fix fee va va' bs bs' c3 c4
  assume pay: "native_payout rt recipient (st_ext_amount s) va bs c3 = Ok (fee, va', bs', c4)"
    and c': "c' = c4\<lparr>validator_accounts := (validator_accounts c4)(authority \<mapsto> credit_task clk va'),
      bridge_state := Some (bs'\<lparr>bs_withdrawal_count := saturating_add (bs_withdrawal_count bs) 1\<rparr>)\<rparr>"
  have "nullifier_accounts c4 = nullifier_accounts c3 \<and> merkle_tree c4 = merkle_tree c3"
    by (subst (1 2) native_payout_frame [OF pay]) simp
  then show "nullifier_accounts c' = nullifier_accounts c3" "merkle_tree c' = merkle_tree c3"
    using c' by simp_all
qed

lemma transact_spl_settled:
  assumes "transact_spl rt clk authority accts infos s c = Ok (c', ev)"
  shows "\<exists>asset. mint_to_asset rt (sa_mint accts) = Ok asset \<and>
    settled_soundly rt authority (sa_recipient_token_account accts) asset infos s c c'"
  using assms
proof (rule transact_spl_OkE)
  fix bs tree decimals vault va registry c1 c2 c3 new_root fee c4
  assume acc: "bridge_state c = Some bs" "bs_authority bs = authority" "merkle_tree c = Some tree"
    "init_nullifier rt authority (st_nullifier0 s) c = Ok c1"
    "init_nullifier rt authority (st_nullifier1 s) c1 = Ok c2"
    "validator_accounts c authority = Some va" "validator_registry c = Some registry"
    and checks: "settlement_checks rt bs tree va registry authority
      (sa_recipient_token_account accts) (mint_to_asset rt (sa_mint accts)) infos s = Ok ()"
    and rec: "record_settlement rt clk (saturating_add (bs_withdrawal_count bs) 1) s tree c2
      = Ok (c3, new_root)"
    and pay: "spl_payout rt (sa_mint accts) decimals vault (sa_recipient_token_account accts)
      (sa_fee_token_account accts) (st_ext_amount s) c3 = Ok (fee, c4)"
    and c': "c' = c4\<lparr>validator_accounts := (validator_accounts c4)(authority \<mapsto> credit_task clk va),
      bridge_state := Some (bs\<lparr>bs_withdrawal_count := saturating_add (bs_withdrawal_count bs) 1\<rparr>)\<rparr>"
  have "nullifier_accounts c4 = nullifier_accounts c3 \<and> merkle_tree c4 = merkle_tree c3"
    by (subst (1 2) spl_payout_frame [OF pay]) simp
  then have keep: "nullifier_accounts c' = nullifier_accounts c3" "merkle_tree c' = merkle_tree c3"
    using c' by simp_all
  obtain asset where asset: "mint_to_asset rt (sa_mint accts) = Ok asset"
    using checks by (auto simp: settlement_checks_Ok)
  with settled_soundlyI [OF acc checks [unfolded asset] rec keep] show ?thesis by blast
qed

text \<open>C4. Settlement soundness: whenever \<open>transact\<close> succeeds, the bridge was not paused, the
  signer was the settlement authority and an active validator, the named root was one of the
  last roots the program published, both nullifiers were canonical, distinct and never recorded
  before and are recorded now, the stake quorum accepted, and the proof verified for exactly
  this root, amount, recipient, asset, nullifiers and outputs; the tree grew by exactly the two
  proved outputs. The same holds of \<open>transact_spl\<close>, with the asset of its mint and the
  recipient's token account.\<close>

theorem settlement_sound:
  "(\<forall>c' ev. transact rt clk authority recipient infos s c = Ok (c', ev) \<longrightarrow>
      settled_soundly rt authority recipient NATIVE_SOL_ASSET infos s c c') \<and>
   (\<forall>c' ev. transact_spl rt clk authority accts infos s c = Ok (c', ev) \<longrightarrow>
      (\<exists>asset. mint_to_asset rt (sa_mint accts) = Ok asset \<and>
         settled_soundly rt authority (sa_recipient_token_account accts) asset infos s c c'))"
  by (blast intro: transact_settled transact_spl_settled)

theorem settlement_sound_witness:
  "\<exists>c' ev. transact ref_runtime example_clock (replicate 32 9) (replicate 32 4) example_infos
       example_settlement example_chain = Ok (c', ev) \<and>
     settled_soundly ref_runtime (replicate 32 9) (replicate 32 4) NATIVE_SOL_ASSET example_infos
       example_settlement example_chain c'"
  using example_transact settlement_sound [of ref_runtime example_clock "replicate 32 9"
      "replicate 32 4" example_infos example_settlement example_chain] by blast

text \<open>C8. Exactly the proved amount leaves the vault: a settled withdrawal of \<open>g\<close> lamports
  debits the vault by \<open>g\<close> minus the fee, credits the recipient the same, books the whole \<open>g\<close> as
  withdrawn and the fee (25 basis points, rounded down) as the settling validator's pending
  reward; a pure transfer moves nothing; and the vault keeps its rent floor.\<close>

theorem transact_moves_proved_amount:
  assumes "runtime_ok rt" and "signer_ok rt authority" and "recipient \<noteq> bridge_vault_key rt"
    and "recipient \<noteq> authority"
    and "transact rt clk authority recipient infos s c = Ok (c', ev)"
    and "unat (minimum_balance rt 0) + 2 ^ 63 < 2 ^ 64"
  shows "\<exists>bs bs' va va'.
    bridge_state c = Some bs \<and> bridge_state c' = Some bs' \<and>
    validator_accounts c authority = Some va \<and> validator_accounts c' authority = Some va' \<and>
    unat (lamports c (bridge_vault_key rt)) =
      unat (lamports c' (bridge_vault_key rt)) + (gross_amount s - settlement_fee s) \<and>
    unat (lamports c' recipient) =
      unat (lamports c recipient) + (gross_amount s - settlement_fee s) \<and>
    unat (bs_total_withdrawn bs') = unat (bs_total_withdrawn bs) + gross_amount s \<and>
    unat (va_pending_rewards va') = unat (va_pending_rewards va) + settlement_fee s \<and>
    (0 < gross_amount s \<longrightarrow> minimum_balance rt 0 \<le> lamports c' (bridge_vault_key rt))"
proof -
  have floor: "minimum_balance rt 0 \<le> lamports c' (bridge_vault_key rt)"
    if "0 < gross_amount s"
      "unat (lamports c (bridge_vault_key rt)) =
        unat (lamports c' (bridge_vault_key rt)) + (gross_amount s - settlement_fee s)"
      "0 < gross_amount s \<Longrightarrow>
        min (2 ^ 64 - 1) (gross_amount s - settlement_fee s + unat (minimum_balance rt 0))
          \<le> unat (lamports c (bridge_vault_key rt))"
  proof -
    have "gross_amount s \<le> 2 ^ 63"
      unfolding gross_amount_def by (rule unsigned_abs_bound)
    then have "gross_amount s - settlement_fee s + unat (minimum_balance rt 0) \<le> 2 ^ 64 - 1"
      using assms(6) by linarith
    then show ?thesis using that by (simp add: word_le_nat_alt min_absorb2)
  qed
  show ?thesis
    by (rule transact_effect [OF assms(1,2,5)])
      (use assms(3,4) floor in \<open>simp add: credit_task_def\<close>)
qed

theorem transact_moves_proved_amount_witness:
  "\<exists>c' ev bs'. transact ref_runtime example_clock (replicate 32 9) (replicate 32 4) example_infos
       example_settlement example_chain = Ok (c', ev) \<and>
     unat (lamports c' (bridge_vault_key ref_runtime)) = 1000000 - 998 \<and>
     unat (lamports c' (replicate 32 4)) = 1000000 + 998 \<and>
     bridge_state c' = Some bs' \<and> unat (bs_total_withdrawn bs') = 1000"
proof -
  obtain c' ev where t: "transact ref_runtime example_clock (replicate 32 9) (replicate 32 4)
      example_infos example_settlement example_chain = Ok (c', ev)"
    using example_transact by blast
  have keys: "signer_ok ref_runtime (replicate 32 9)" "signer_ok ref_runtime (replicate 32 4)"
    by (simp_all add: ref_signer_ok)
  have amounts: "gross_amount example_settlement = 1000" "settlement_fee example_settlement = 2"
    by (simp_all add: gross_amount_def settlement_fee_def example_settlement_def unsigned_abs_def)
  show ?thesis
    using transact_moves_proved_amount [OF ref_runtime_ok keys(1) _ _ t] t keys amounts
    by (auto simp: example_chain_def example_bridge_def)
qed

text \<open>C10. A deposit credits exactly what it commits: a successful \<open>deposit_note\<close> raises the vault
  balance and the deposit total by the amount, appends the commitment of that amount (and of
  native SOL) as the next leaf, reports its index, and leaves the vault at or under the cap.\<close>

theorem deposit_note_exact:
  assumes "runtime_ok rt" and "signer_ok rt depositor"
    and "deposit_note rt clk depositor amount pubkey blinding c = Ok (c', ev)"
  shows "\<exists>bs bs' tree tree' cm r e.
    bridge_state c = Some bs \<and> bridge_state c' = Some bs' \<and> \<not> bs_paused bs \<and> 0 < unat amount \<and>
    merkle_tree c = Some tree \<and> merkle_tree c' = Some tree' \<and>
    commitment rt amount pubkey blinding NATIVE_SOL_ASSET = Ok cm \<and>
    tree_append rt tree cm = Ok (tree', r) \<and>
    unat (lamports c' (bridge_vault_key rt)) =
      unat (lamports c (bridge_vault_key rt)) + unat amount \<and>
    unat (lamports c depositor) = unat (lamports c' depositor) + unat amount \<and>
    unat (bs_total_deposited bs') = unat (bs_total_deposited bs) + unat amount \<and>
    lamports c' (bridge_vault_key rt) \<le> bs_deposit_cap bs \<and>
    ev = DepositNote e \<and> de_leaf_index e = mt_next_index tree \<and> de_commitment e = cm"
  using assms(3)
proof (rule deposit_note_OkE)
  fix bs tree projected lam cm tree' r deposited
  assume acc: "bridge_state c = Some bs" "merkle_tree c = Some tree" "\<not> bs_paused bs" "0 < amount"
    and proj: "checked_add (lamports c (bridge_vault_key rt)) amount = Some projected"
      "projected \<le> bs_deposit_cap bs"
    and move: "system_transfer rt depositor (bridge_vault_key rt) amount (lamports c) = Some lam"
    and tree: "commitment rt amount pubkey blinding NATIVE_SOL_ASSET = Ok cm"
      "tree_append rt tree cm = Ok (tree', r)"
    and dep: "checked_add (bs_total_deposited bs) amount = Some deposited"
    and res: "c' = c\<lparr>lamports := lam, merkle_tree := Some tree',
            bridge_state := Some (bs\<lparr>bs_total_deposited := deposited,
              bs_deposit_count := saturating_add (bs_deposit_count bs) 1\<rparr>)\<rparr>"
      "ev = DepositNote \<lparr> de_depositor = depositor, de_amount = amount, de_commitment = cm,
       de_leaf_index = mt_next_index tree, de_timestamp = unix_timestamp clk \<rparr>"
  have mv: "moved depositor (bridge_vault_key rt) (unat amount) (lamports c) lam"
    by (rule system_transfer_moved [OF runtime_okD(1) [OF assms(1)] move])
  have bal: "unat (lam (bridge_vault_key rt)) =
      unat (lamports c (bridge_vault_key rt)) + unat amount"
    "unat (lamports c depositor) = unat (lam depositor) + unat amount"
    using mv assms(2) by (simp_all add: moved_def)
  then have cap: "lam (bridge_vault_key rt) \<le> bs_deposit_cap bs"
    using proj by (simp add: checked_simps word_le_nat_alt)
  have "0 < unat amount" using acc(4) by (simp add: word_less_nat_alt)
  then show ?thesis
    using acc(1-3) tree bal cap dep unfolding res by (simp add: checked_simps)
qed

text \<open>An SPL deposit cannot be short-changed by a transfer-fee mint: whenever
  \<open>deposit_note_spl\<close> succeeds, the mint's vault holds exactly the committed amount more than
  before (although the token program may withhold a fee), at most the cap, and the appended
  leaf commits that amount under the mint's asset id.\<close>

theorem deposit_note_spl_exact:
  assumes "deposit_note_spl rt clk depositor mint dta amount pubkey blinding c = Ok (c', ev)"
  shows "\<exists>config config' asset cm tree tree' r.
    asset_configs c mint = Some config \<and> asset_configs c' mint = Some config' \<and>
    token_balance (tokens c') (asset_vault_key rt mint) =
      token_balance (tokens c) (asset_vault_key rt mint) + unat amount \<and>
    token_balance (tokens c') (asset_vault_key rt mint) \<le> unat (ac_deposit_cap config) \<and>
    unat (ac_total_deposited config') = unat (ac_total_deposited config) + unat amount \<and>
    mint_to_asset rt mint = Ok asset \<and> commitment rt amount pubkey blinding asset = Ok cm \<and>
    merkle_tree c = Some tree \<and> tree_append rt tree cm = Ok (tree', r) \<and>
    merkle_tree c' = Some tree'"
  using assms
proof (rule deposit_note_spl_OkE)
  fix bs config decimals vault tree projected ts reloaded realized asset cm tree' r deposited
  assume acc: "asset_configs c mint = Some config" "merkle_tree c = Some tree"
    "tokens c (asset_vault_key rt mint) = Some vault" "ts (asset_vault_key rt mint) = Some reloaded"
    and proj: "checked_add (ta_amount vault) amount = Some projected"
      "projected \<le> ac_deposit_cap config"
    and real: "checked_sub (ta_amount reloaded) (ta_amount vault) = Some realized" "realized = amount"
    and tree: "mint_to_asset rt mint = Ok asset" "commitment rt amount pubkey blinding asset = Ok cm"
      "tree_append rt tree cm = Ok (tree', r)"
    and dep: "checked_add (ac_total_deposited config) amount = Some deposited"
    and c': "c' = c\<lparr>tokens := ts, merkle_tree := Some tree',
            asset_configs := (asset_configs c)(mint \<mapsto>
              config\<lparr>ac_total_deposited := deposited,
                     ac_deposit_count := saturating_add (ac_deposit_count config) 1\<rparr>)\<rparr>"
  have "unat (ta_amount reloaded) = unat (ta_amount vault) + unat amount"
    using real by (simp add: checked_simps)
  moreover from this have "unat (ta_amount reloaded) \<le> unat (ac_deposit_cap config)"
    using proj by (simp add: checked_simps word_le_nat_alt)
  ultimately show ?thesis
    using acc tree dep unfolding c' by (simp add: token_balance_def checked_simps)
qed


section \<open>Example deposits and a token settlement\<close>

definition example_spl_chain :: chain where
  "example_spl_chain = example_chain
     \<lparr> tokens := [asset_vault_key ref_runtime (replicate 32 3) \<mapsto>
                    \<lparr> ta_mint = replicate 32 3, ta_owner = asset_vault_authority_key ref_runtime,
                      ta_amount = 5000 \<rparr>,
                  replicate 32 4 \<mapsto>
                    \<lparr> ta_mint = replicate 32 3, ta_owner = replicate 32 9, ta_amount = 700 \<rparr>],
       mint_decimals := [replicate 32 3 \<mapsto> 6],
       asset_configs := [replicate 32 3 \<mapsto>
         \<lparr> ac_mint = replicate 32 3, ac_deposit_cap = 9000, ac_total_deposited = 5000,
           ac_deposit_count = 1, ac_bump = 255 \<rparr>] \<rparr>"

lemma example_vault_ne: "asset_vault_key ref_runtime m \<noteq> replicate 32 4"
  using ref_signer_ok [of "replicate 32 4"] by (simp add: signer_ok_def asset_vault_key_def)

lemma ref_hash_commitment:
  "\<exists>cm. commitment ref_runtime amount pubkey blinding asset = Ok cm \<and> canonical cm"
  by (simp add: commitment_def ref_poseidon_def canonical_def le_val_le_bytes_field)

lemma ref_mint_to_asset: "\<exists>asset. mint_to_asset ref_runtime mint = Ok asset"
  by (simp add: mint_to_asset_def poseidon2_def ref_poseidon_def Let_def)

lemma ref_append_first:
  "canonical cm \<Longrightarrow> \<exists>t r. tree_append ref_runtime initialize_tree cm = Ok (t, r)"
  using tree_append_succeeds [OF ref_poseidon_ok tree_canonical_initialize, of cm]
  by (auto simp: initialize_tree_def)

lemma example_deposit:
  "\<exists>c' ev. deposit_note ref_runtime example_clock (replicate 32 4) 100 (le_bytes 32 1)
     (le_bytes 32 2) example_chain = Ok (c', ev)"
proof -
  let ?v = "bridge_vault_key ref_runtime"
  have ne: "?v \<noteq> replicate 32 4" using ref_signer_ok [of "replicate 32 4"] by simp
  obtain cm where cm: "commitment ref_runtime 100 (le_bytes 32 1) (le_bytes 32 2)
      NATIVE_SOL_ASSET = Ok cm" "canonical cm" using ref_hash_commitment by blast
  obtain t r where "tree_append ref_runtime initialize_tree cm = Ok (t, r)"
    using ref_append_first [OF cm(2)] by blast
  moreover have "require_canonical_field ref_runtime (le_bytes 32 1) e = Ok ()"
    "require_canonical_field ref_runtime (le_bytes 32 2) e = Ok ()" for e
    by (simp_all add: rust_simps canonical_bytes_ref canonical_small)
  ultimately show ?thesis
    using cm(1) ne
    by (simp add: deposit_note_def DepositNote_accounts_def example_chain_def example_bridge_def require_system_account_def
        transfer_lamports_def ref_system_transfer_def checked_add_def)
qed

lemma example_deposit_spl:
  "\<exists>c' ev. deposit_note_spl ref_runtime example_clock (replicate 32 9) (replicate 32 3)
     (replicate 32 4) 100 (le_bytes 32 1) (le_bytes 32 2) example_spl_chain = Ok (c', ev)"
proof -
  obtain asset where asset: "mint_to_asset ref_runtime (replicate 32 3) = Ok asset"
    using ref_mint_to_asset by blast
  obtain cm where cm: "commitment ref_runtime 100 (le_bytes 32 1) (le_bytes 32 2) asset = Ok cm"
    "canonical cm" using ref_hash_commitment by blast
  obtain t r where "tree_append ref_runtime initialize_tree cm = Ok (t, r)"
    using ref_append_first [OF cm(2)] by blast
  moreover have "require_canonical_field ref_runtime (le_bytes 32 1) e = Ok ()"
    "require_canonical_field ref_runtime (le_bytes 32 2) e = Ok ()" for e
    by (simp_all add: rust_simps canonical_bytes_ref canonical_small)
  ultimately show ?thesis
    using cm(1) asset example_vault_ne [of "replicate 32 3"]
    by (simp add: deposit_note_spl_def DepositNoteSpl_accounts_def example_spl_chain_def example_chain_def example_bridge_def
        load_token_account_def load_owned_token_account_def ref_transfer_checked_def
        checked_add_def checked_sub_def Let_def)
qed

theorem deposit_note_exact_witness:
  "\<exists>c' ev. deposit_note ref_runtime example_clock (replicate 32 4) 100 (le_bytes 32 1)
       (le_bytes 32 2) example_chain = Ok (c', ev) \<and>
     unat (lamports c' (bridge_vault_key ref_runtime)) = 1000100"
proof -
  obtain c' ev where d: "deposit_note ref_runtime example_clock (replicate 32 4) 100 (le_bytes 32 1)
      (le_bytes 32 2) example_chain = Ok (c', ev)" using example_deposit by blast
  have "signer_ok ref_runtime (replicate 32 4)" by (simp add: ref_signer_ok)
  from deposit_note_exact [OF ref_runtime_ok this d] d show ?thesis
    by (auto simp: example_chain_def)
qed

theorem deposit_note_spl_exact_witness:
  "\<exists>c' ev. deposit_note_spl ref_runtime example_clock (replicate 32 9) (replicate 32 3)
       (replicate 32 4) 100 (le_bytes 32 1) (le_bytes 32 2) example_spl_chain = Ok (c', ev) \<and>
     token_balance (tokens c') (asset_vault_key ref_runtime (replicate 32 3)) = 5100"
proof -
  obtain c' ev where d: "deposit_note_spl ref_runtime example_clock (replicate 32 9)
      (replicate 32 3) (replicate 32 4) 100 (le_bytes 32 1) (le_bytes 32 2) example_spl_chain =
      Ok (c', ev)" using example_deposit_spl by blast
  from deposit_note_spl_exact [OF this] d show ?thesis
    using example_vault_ne [of "replicate 32 3"]
    by (auto simp: example_spl_chain_def token_balance_def)
qed

definition example_spl_accounts :: spl_accounts where
  "example_spl_accounts =
     \<lparr> sa_mint = replicate 32 3, sa_recipient_token_account = replicate 32 4,
       sa_fee_token_account = replicate 32 4 \<rparr>"

lemma example_spl_payout:
  assumes "tokens c = tokens example_spl_chain" and "tokens c (asset_vault_key ref_runtime
    (replicate 32 3)) = Some vault"
  shows "\<exists>fee c'. spl_payout ref_runtime (replicate 32 3) 6 vault (replicate 32 4) (replicate 32 4)
    (- 1000) c = Ok (fee, c')"
proof -
  have "withdrawal_fee 1000 = Ok 2" by (simp add: withdrawal_fee_Ok)
  moreover have "unsigned_abs (- 1000) = 1000" by (simp add: unsigned_abs_def)
  ultimately show ?thesis
    using assms example_vault_ne [of "replicate 32 3"]
    by (auto simp: spl_payout_def move_tokens_def ref_transfer_checked_def checked_add_def
        checked_sub_def example_spl_chain_def Let_def)
qed

lemma example_transact_spl:
  "\<exists>c' ev. transact_spl ref_runtime example_clock (replicate 32 9) example_spl_accounts
     example_infos example_settlement example_spl_chain = Ok (c', ev)"
proof -
  let ?a = "replicate 32 9 :: pubkey"
  let ?v = "\<lparr> ta_mint = replicate 32 3, ta_owner = asset_vault_authority_key ref_runtime,
    ta_amount = 5000 \<rparr>"
  have ne: "le_bytes 32 11 \<noteq> le_bytes 32 12" by (simp add: le_bytes_inject)
  obtain asset where asset: "mint_to_asset ref_runtime (replicate 32 3) = Ok asset"
    using ref_mint_to_asset by blast
  obtain c1 where c1: "init_nullifier ref_runtime ?a (le_bytes 32 11) example_spl_chain = Ok c1"
    "lamports c1 = (\<lambda>k. 1000000)" "nullifier_accounts c1 (le_bytes 32 12) = None"
    using example_init [of example_spl_chain "le_bytes 32 11"] ne
    by (auto simp: example_spl_chain_def example_chain_def)
  obtain c2 where c2: "init_nullifier ref_runtime ?a (le_bytes 32 12) c1 = Ok c2"
    using example_init [of c1 "le_bytes 32 12"] c1 by auto
  have "tokens c2 = tokens example_spl_chain"
    using init_nullifier_frame(5) [OF c1(1)] init_nullifier_frame(5) [OF c2] by simp
  then obtain c3 new_root where c3: "record_settlement ref_runtime example_clock 1
      example_settlement initialize_tree c2 = Ok (c3, new_root)" "tokens c3 = tokens example_spl_chain"
    using example_appends by (auto simp: record_settlement_def example_settlement_def Let_def)
  have v: "tokens example_spl_chain (asset_vault_key ref_runtime (replicate 32 3)) = Some ?v"
    using example_vault_ne [of "replicate 32 3"] by (simp add: example_spl_chain_def)
  then obtain fee c4 where "spl_payout ref_runtime (replicate 32 3) 6 ?v (replicate 32 4)
      (replicate 32 4) (- 1000) c3 = Ok (fee, c4)"
    using example_spl_payout [OF c3(2)] c3(2) by auto
  then show ?thesis
    using c1 c2 c3 v asset example_checks [of "replicate 32 4" asset]
    by (simp add: transact_spl_def TransactSpl_accounts_def bridge_with_authority_def example_spl_chain_def example_chain_def
        example_bridge_def load_token_account_def load_owned_token_account_def Let_def
        example_settlement_def saturating_add_def example_spl_accounts_def)
qed


section \<open>Failures\<close>

text \<open>Pausing stops all money: while the bridge is paused no deposit and no settlement, native
  or SPL, succeeds.\<close>

theorem paused_blocks_money:
  assumes "bridge_state c = Some bs" and "bs_paused bs"
  shows "\<not> is_ok (deposit_note rt clk k amount pubkey blinding c) \<and>
    \<not> is_ok (deposit_note_spl rt clk k mint dta amount pubkey blinding c) \<and>
    \<not> is_ok (transact rt clk k recipient infos s c) \<and>
    \<not> is_ok (transact_spl rt clk k accts infos s c)"
proof (intro conjI)
  show "\<not> is_ok (deposit_note rt clk k amount pubkey blinding c)"
    using assms by (auto simp: is_ok_iff elim: deposit_note_OkE)
  show "\<not> is_ok (deposit_note_spl rt clk k mint dta amount pubkey blinding c)"
    using assms by (auto simp: is_ok_iff elim: deposit_note_spl_OkE)
  have stop: "settlement_checks rt bs tree va registry authority dest asset infos s \<noteq> Ok ()"
    for tree va registry authority dest asset
    using assms(2) by (simp add: settlement_checks_Ok settlement_input_checks_Ok)
  show "\<not> is_ok (transact rt clk k recipient infos s c)"
    using assms(1) stop by (auto simp: is_ok_iff elim!: transact_OkE)
  show "\<not> is_ok (transact_spl rt clk k accts infos s c)"
    using assms(1) stop by (auto simp: is_ok_iff elim!: transact_spl_OkE)
qed

theorem paused_blocks_money_witness:
  "\<not> is_ok (transact ref_runtime example_clock (replicate 32 9) (replicate 32 4) example_infos
     example_settlement (example_chain\<lparr>bridge_state := Some (example_bridge\<lparr>bs_paused := True\<rparr>)\<rparr>))"
  using paused_blocks_money [of "example_chain\<lparr>bridge_state := Some (example_bridge\<lparr>bs_paused := True\<rparr>)\<rparr>"
      "example_bridge\<lparr>bs_paused := True\<rparr>" ref_runtime example_clock "replicate 32 9"]
  by simp

lemma init_nullifier_twice:
  "init_nullifier rt payer nf c = Ok c1 \<Longrightarrow>
   init_nullifier rt payer nf c1 = Err (Anchor AccountAlreadyInUse)"
  by (auto simp: init_nullifier_Ok) (simp add: init_nullifier_def require_fresh_def)

text \<open>C20. Equal input nullifiers are refused, but not with the error meant for them: the second
  account's \<open>init\<close> constraint collides with the first before the body runs, so a settlement
  whose two nullifiers agree fails with \<open>AccountAlreadyInUse\<close> wherever the first account can
  be created.\<close>

theorem duplicate_nullifier_fails_in_init:
  assumes "st_nullifier0 s = st_nullifier1 s"
    and "bridge_with_authority authority c = Ok bs" and "merkle_tree c = Some tree"
    and "account_owner c (bridge_vault_key rt) = system_program_id rt"
    and "init_nullifier rt authority (st_nullifier0 s) c = Ok c1"
  shows "transact rt clk authority recipient infos s c = Err (Anchor AccountAlreadyInUse)"
proof -
  have "init_nullifier rt authority (st_nullifier1 s) c1 = Err (Anchor AccountAlreadyInUse)"
    using init_nullifier_twice [OF assms(5)] assms(1) by simp
  then show ?thesis using assms by (simp add: transact_def Transact_accounts_def require_system_account_def)
qed

theorem duplicate_nullifier_fails_in_init_witness:
  "transact ref_runtime example_clock (replicate 32 9) (replicate 32 4) example_infos
     (example_settlement\<lparr>st_nullifier1 := le_bytes 32 11\<rparr>) example_chain =
   Err (Anchor AccountAlreadyInUse)"
proof -
  obtain c1 where "init_nullifier ref_runtime (replicate 32 9) (le_bytes 32 11) example_chain = Ok c1"
    using example_init [of example_chain "le_bytes 32 11"] by (auto simp: example_chain_def)
  then show ?thesis
    using duplicate_nullifier_fails_in_init
      [of "example_settlement\<lparr>st_nullifier1 := le_bytes 32 11\<rparr>" "replicate 32 9" example_chain
        example_bridge initialize_tree ref_runtime c1]
    by (simp add: example_settlement_def example_chain_def example_bridge_def
        bridge_with_authority_def)
qed

end
