(* ===== verification/Validators.thy ===== *)
theory Validators
  imports Settlement_Safety
begin

text \<open>
  The validator lifecycle of the on-chain program (\<open>lib.rs\<close>): \<open>register_validator\<close>,
  \<open>unregister_validator\<close>, \<open>update_reputation\<close>, \<open>claim_rewards\<close>, \<open>slash_validator\<close>,
  \<open>deactivate_validator\<close>, \<open>withdraw_unbonded_stake\<close>, \<open>reset_validator_registry\<close> and
  \<open>migrate_validator_account\<close>, each with the constraints of its accounts struct. A validator
  account is stored under the wallet whose seeds derive its address.
\<close>

section \<open>Registration\<close>

definition RegisterValidator_accounts ::
  "runtime \<Rightarrow> pubkey \<Rightarrow> pubkey \<Rightarrow> pubkey \<Rightarrow> chain
     \<Rightarrow> (chain \<times> ValidatorRegistry \<times> u8 \<times> token_account, error) result" where
  "RegisterValidator_accounts rt validator stake_mint validator_token_account c =
     and_then (require_fresh (validator_accounts c validator)) (\<lambda>_.
     and_then (init_pda rt validator (validator_key rt validator)
                 (8 + ValidatorAccount_INIT_SPACE) c) (\<lambda>c1.
     and_then (load_account (validator_registry c)) (\<lambda>registry.
     and_then (require (stake_mint = vr_stake_mint registry) (Anchor ConstraintAddress)) (\<lambda>_.
     and_then (load_account (mint_decimals c stake_mint)) (\<lambda>decimals.
     and_then (load_owned_token_account validator_token_account (vr_stake_mint registry)
                 validator c) (\<lambda>_.
     and_then (load_account (tokens c (stake_token_vault_key rt))) (\<lambda>stake_token_vault.
     Ok (c1, registry, decimals, stake_token_vault))))))))"

definition new_validator_account :: "clock \<Rightarrow> pubkey \<Rightarrow> u64 \<Rightarrow> u64 \<Rightarrow> ValidatorAccount" where
  "new_validator_account clk validator stake_amount credited_token_stake =
     \<lparr> va_validator = validator, va_stake_amount = stake_amount, va_reputation_score = 1000,
       va_total_tasks_verified = 0, va_successful_verifications = 0,
       va_registered_at = unix_timestamp clk, va_last_active = unix_timestamp clk,
       va_is_active = True, va_pending_rewards = 0, va_total_earnings = 0,
       va_times_slashed = 0, va_unbonding_amount = 0, va_unbonding_slot = 0,
       va_token_stake_amount = credited_token_stake, va_token_unbonding_amount = 0 \<rparr>"

definition register_validator ::
  "runtime \<Rightarrow> clock \<Rightarrow> pubkey \<Rightarrow> pubkey \<Rightarrow> pubkey \<Rightarrow> u64 \<Rightarrow> u64 \<Rightarrow> chain
     \<Rightarrow> (chain \<times> event, error) result" where
  "register_validator rt clk validator stake_mint validator_token_account stake_amount
       token_stake_amount c =
     and_then (RegisterValidator_accounts rt validator stake_mint validator_token_account c)
       (\<lambda>(c1, registry, decimals, stake_token_vault).
     and_then (require (MIN_VALIDATOR_STAKE \<le> stake_amount) (Bridge InsufficientStake)) (\<lambda>_.
     and_then (require (vr_min_token_stake registry \<le> token_stake_amount)
                 (Bridge InsufficientTokenStake)) (\<lambda>_.
     and_then (transfer_lamports rt validator (validator_key rt validator) stake_amount c1) (\<lambda>c2.
     and_then (move_tokens rt validator_token_account stake_mint (stake_token_vault_key rt)
                 validator token_stake_amount decimals c2) (\<lambda>c3.
     and_then (load_account (tokens c3 (stake_token_vault_key rt))) (\<lambda>reloaded.
     and_then (ok_or (checked_sub (ta_amount reloaded) (ta_amount stake_token_vault))
                 (Bridge InvalidAmount)) (\<lambda>credited_token_stake.
     and_then (require (vr_min_token_stake registry \<le> credited_token_stake)
                 (Bridge InsufficientTokenStake)) (\<lambda>_.
     Ok (c3\<lparr>validator_accounts := (validator_accounts c3)(validator \<mapsto>
              new_validator_account clk validator stake_amount credited_token_stake),
            validator_registry := Some (registry\<lparr>
              vr_total_validators := saturating_add (vr_total_validators registry) 1,
              vr_active_validators := saturating_add (vr_active_validators registry) 1,
              vr_total_active_stake :=
                saturating_add (vr_total_active_stake registry) stake_amount\<rparr>)\<rparr>,
         ValidatorRegistered validator stake_amount (unix_timestamp clk))))))))))"

section \<open>Leaving the active set\<close>

text \<open>\<open>has_one = validator\<close> on the account of the signing wallet.\<close>

definition own_validator_account :: "pubkey \<Rightarrow> chain \<Rightarrow> (ValidatorAccount, error) result" where
  "own_validator_account validator c =
     and_then (load_account (validator_accounts c validator)) (\<lambda>va.
     and_then (require (va_validator va = validator) (Anchor ConstraintHasOne)) (\<lambda>_. Ok va))"

text \<open>The seeds of an account passed by the registry authority name the wallet it records.\<close>

definition seeded_validator_account :: "pubkey \<Rightarrow> chain \<Rightarrow> (ValidatorAccount, error) result" where
  "seeded_validator_account wallet c =
     and_then (load_account (validator_accounts c wallet)) (\<lambda>va.
     and_then (require (va_validator va = wallet) (Anchor ConstraintSeeds)) (\<lambda>_. Ok va))"

definition UnregisterValidator_accounts ::
  "pubkey \<Rightarrow> chain \<Rightarrow> (ValidatorAccount \<times> ValidatorRegistry, error) result" where
  "UnregisterValidator_accounts validator c =
     and_then (own_validator_account validator c) (\<lambda>va.
     and_then (load_account (validator_registry c)) (\<lambda>registry. Ok (va, registry)))"

definition unregister_validator ::
  "clock \<Rightarrow> pubkey \<Rightarrow> chain \<Rightarrow> (chain \<times> event, error) result" where
  "unregister_validator clk validator c =
     and_then (UnregisterValidator_accounts validator c) (\<lambda>(va, registry).
     and_then (require (va_is_active va) (Bridge ValidatorNotActive)) (\<lambda>_.
     Ok (c\<lparr>validator_accounts := (validator_accounts c)(validator \<mapsto> va\<lparr>
              va_is_active := False,
              va_stake_amount := 0,
              va_unbonding_amount :=
                saturating_add (va_unbonding_amount va) (va_stake_amount va),
              va_unbonding_slot := saturating_add (slot clk) UNBONDING_SLOTS,
              va_token_stake_amount := 0,
              va_token_unbonding_amount :=
                saturating_add (va_token_unbonding_amount va) (va_token_stake_amount va)\<rparr>),
            validator_registry := Some (registry\<lparr>
              vr_active_validators := saturating_sub (vr_active_validators registry) 1,
              vr_total_active_stake :=
                saturating_sub (vr_total_active_stake registry) (va_stake_amount va)\<rparr>)\<rparr>,
         ValidatorUnregistered validator 0 (unix_timestamp clk))))"

definition UpdateReputation_accounts ::
  "pubkey \<Rightarrow> pubkey \<Rightarrow> chain \<Rightarrow> (ValidatorAccount, error) result" where
  "UpdateReputation_accounts authority wallet c =
     and_then (seeded_validator_account wallet c) (\<lambda>va.
     and_then (registry_with_authority authority c) (\<lambda>_. Ok va))"

definition update_reputation ::
  "clock \<Rightarrow> pubkey \<Rightarrow> pubkey \<Rightarrow> pubkey \<Rightarrow> u64 \<Rightarrow> chain \<Rightarrow> (chain \<times> event, error) result" where
  "update_reputation clk authority wallet validator new_reputation c =
     and_then (UpdateReputation_accounts authority wallet c) (\<lambda>va.
     and_then (require (va_validator va = validator) (Bridge InvalidValidator)) (\<lambda>_.
     and_then (require (va_is_active va) (Bridge ValidatorNotActive)) (\<lambda>_.
     Ok (c\<lparr>validator_accounts := (validator_accounts c)(wallet \<mapsto> va\<lparr>
              va_reputation_score := new_reputation,
              va_last_active := unix_timestamp clk\<rparr>)\<rparr>, NoEvent))))"

definition ClaimRewards_accounts ::
  "runtime \<Rightarrow> pubkey \<Rightarrow> chain \<Rightarrow> (BridgeState \<times> ValidatorAccount, error) result" where
  "ClaimRewards_accounts rt validator c =
     and_then (load_account (bridge_state c)) (\<lambda>bs.
     and_then (own_validator_account validator c) (\<lambda>va.
     and_then (require_system_account rt c (bridge_vault_key rt)) (\<lambda>_. Ok (bs, va))))"

definition claim_rewards ::
  "runtime \<Rightarrow> clock \<Rightarrow> pubkey \<Rightarrow> chain \<Rightarrow> (chain \<times> event, error) result" where
  "claim_rewards rt clk validator c =
     and_then (ClaimRewards_accounts rt validator c) (\<lambda>(bs, va).
     and_then (require (\<not> bs_paused bs) (Bridge BridgePaused)) (\<lambda>_.
     and_then (require (0 < va_pending_rewards va) (Bridge InvalidAmount)) (\<lambda>_.
     and_then (transfer_lamports rt (bridge_vault_key rt) validator (va_pending_rewards va) c) (\<lambda>c1.
     and_then (ok_or (checked_add (va_total_earnings va) (va_pending_rewards va))
                 (Bridge InvalidAmount)) (\<lambda>total_earnings.
     Ok (c1\<lparr>validator_accounts := (validator_accounts c1)(validator \<mapsto> va\<lparr>
               va_pending_rewards := 0, va_total_earnings := total_earnings\<rparr>)\<rparr>,
         RewardClaimed validator (va_pending_rewards va) (unix_timestamp clk)))))))"

section \<open>Slashing\<close>

text \<open>\<open>(v as u128 * percentage as u128 / 100) as u64\<close>.\<close>

definition slash_share :: "u64 \<Rightarrow> u8 \<Rightarrow> u64" where
  "slash_share v slash_percentage =
     ucast ((ucast v * ucast slash_percentage :: u128) div 100)"

text \<open>The effect on the two structs: the active branch (which may deactivate) and the
  unbonding branch.\<close>

definition slash_active ::
  "clock \<Rightarrow> u64 \<Rightarrow> u64 \<Rightarrow> ValidatorAccount \<Rightarrow> ValidatorRegistry
     \<Rightarrow> ValidatorAccount \<times> ValidatorRegistry" where
  "slash_active clk slash_amount token_slash va registry =
     (let old_stake = va_stake_amount va;
          stake = saturating_sub old_stake slash_amount;
          token_stake = saturating_sub (va_token_stake_amount va) token_slash
      in if stake < vr_minimum_stake registry then
        (va\<lparr>va_is_active := False,
            va_unbonding_amount := saturating_add (va_unbonding_amount va) stake,
            va_stake_amount := 0,
            va_token_unbonding_amount :=
              saturating_add (va_token_unbonding_amount va) token_stake,
            va_token_stake_amount := 0,
            va_unbonding_slot := saturating_add (slot clk) UNBONDING_SLOTS\<rparr>,
         registry\<lparr>vr_active_validators := saturating_sub (vr_active_validators registry) 1,
                  vr_total_active_stake :=
                    saturating_sub (vr_total_active_stake registry) old_stake\<rparr>)
      else
        (va\<lparr>va_stake_amount := stake, va_token_stake_amount := token_stake\<rparr>,
         registry\<lparr>vr_total_active_stake :=
                    saturating_sub (vr_total_active_stake registry) slash_amount\<rparr>))"

definition slash_unbonding ::
  "u64 \<Rightarrow> u64 \<Rightarrow> ValidatorAccount \<Rightarrow> ValidatorAccount" where
  "slash_unbonding slash_amount token_slash va =
     va\<lparr>va_unbonding_amount := saturating_sub (va_unbonding_amount va) slash_amount,
        va_token_unbonding_amount := saturating_sub (va_token_unbonding_amount va) token_slash\<rparr>"

definition at_risk_stake :: "ValidatorAccount \<Rightarrow> u64" where
  "at_risk_stake va = (if va_is_active va then va_stake_amount va else va_unbonding_amount va)"

definition at_risk_token :: "ValidatorAccount \<Rightarrow> u64" where
  "at_risk_token va =
     (if va_is_active va then va_token_stake_amount va else va_token_unbonding_amount va)"

definition slash_structs ::
  "clock \<Rightarrow> u64 \<Rightarrow> u64 \<Rightarrow> ValidatorAccount \<Rightarrow> ValidatorRegistry
     \<Rightarrow> ValidatorAccount \<times> ValidatorRegistry" where
  "slash_structs clk slash_amount token_slash va registry =
     (let va1 = va\<lparr>va_times_slashed := saturating_add (va_times_slashed va) 1\<rparr>
      in if va_is_active va then slash_active clk slash_amount token_slash va1 registry
         else (slash_unbonding slash_amount token_slash va1, registry))"

definition SlashValidator_accounts ::
  "runtime \<Rightarrow> pubkey \<Rightarrow> pubkey \<Rightarrow> pubkey \<Rightarrow> chain
     \<Rightarrow> (ValidatorAccount \<times> ValidatorRegistry, error) result" where
  "SlashValidator_accounts rt authority wallet stake_mint c =
     and_then (seeded_validator_account wallet c) (\<lambda>va.
     and_then (registry_with_authority authority c) (\<lambda>registry.
     and_then (require (stake_mint = vr_stake_mint registry) (Anchor ConstraintAddress)) (\<lambda>_.
     and_then (load_account (mint_decimals c stake_mint)) (\<lambda>_.
     and_then (load_account (tokens c (stake_token_vault_key rt))) (\<lambda>_. Ok (va, registry))))))"

definition burn_stake_tokens ::
  "runtime \<Rightarrow> pubkey \<Rightarrow> u64 \<Rightarrow> chain \<Rightarrow> (chain, error) result" where
  "burn_stake_tokens rt stake_mint amount c =
     (if 0 < amount then
        and_then (ok_or (token_burn rt stake_mint (stake_token_vault_key rt)
                           (stake_vault_authority_key rt) amount (tokens c)) Cpi)
          (\<lambda>ts. Ok (c\<lparr>tokens := ts\<rparr>))
      else Ok c)"

definition slash_validator ::
  "runtime \<Rightarrow> clock \<Rightarrow> pubkey \<Rightarrow> pubkey \<Rightarrow> pubkey \<Rightarrow> pubkey \<Rightarrow> u8 \<Rightarrow> chain
     \<Rightarrow> (chain \<times> event, error) result" where
  "slash_validator rt clk authority wallet stake_mint validator slash_percentage c =
     and_then (SlashValidator_accounts rt authority wallet stake_mint c) (\<lambda>(va, registry).
     and_then (require (va_validator va = validator) (Bridge InvalidValidator)) (\<lambda>_.
     and_then (require (0 < slash_percentage \<and> slash_percentage \<le> 100) (Bridge InvalidAmount)) (\<lambda>_.
     let old_stake = at_risk_stake va;
         slash_amount = slash_share old_stake slash_percentage;
         token_slash = slash_share (at_risk_token va) slash_percentage;
         slashed = slash_structs clk slash_amount token_slash va registry
     in
     and_then (debit_lamports (validator_key rt wallet) slash_amount c) (\<lambda>c1.
     and_then (credit_lamports (slashed_funds_vault_key rt) slash_amount c1) (\<lambda>c2.
     and_then (burn_stake_tokens rt stake_mint token_slash c2) (\<lambda>c3.
     Ok (c3\<lparr>validator_accounts := (validator_accounts c3)(wallet \<mapsto> fst slashed),
            validator_registry := Some (snd slashed)\<rparr>,
         ValidatorSlashed \<lparr> vs_validator = validator, vs_slash_amount = slash_amount,
           vs_slash_percentage = slash_percentage, vs_old_stake = old_stake,
           vs_new_stake = va_stake_amount (fst slashed), vs_timestamp = unix_timestamp clk \<rparr>)))))))"

section \<open>Deactivation and withdrawal\<close>

definition DeactivateValidator_accounts ::
  "pubkey \<Rightarrow> pubkey \<Rightarrow> chain \<Rightarrow> (ValidatorAccount \<times> ValidatorRegistry, error) result" where
  "DeactivateValidator_accounts authority wallet c =
     and_then (seeded_validator_account wallet c) (\<lambda>va.
     and_then (registry_with_authority authority c) (\<lambda>registry. Ok (va, registry)))"

definition deactivate_validator ::
  "clock \<Rightarrow> pubkey \<Rightarrow> pubkey \<Rightarrow> chain \<Rightarrow> (chain \<times> event, error) result" where
  "deactivate_validator clk authority wallet c =
     and_then (DeactivateValidator_accounts authority wallet c) (\<lambda>(va, registry).
     if va_is_active va then
       Ok (c\<lparr>validator_accounts := (validator_accounts c)(wallet \<mapsto> va\<lparr>
                va_is_active := False,
                va_unbonding_amount :=
                  saturating_add (va_unbonding_amount va) (va_stake_amount va),
                va_unbonding_slot := saturating_add (slot clk) UNBONDING_SLOTS,
                va_stake_amount := 0\<rparr>),
              validator_registry := Some (registry\<lparr>
                vr_total_active_stake :=
                  saturating_sub (vr_total_active_stake registry) (va_stake_amount va),
                vr_active_validators := saturating_sub (vr_active_validators registry) 1\<rparr>)\<rparr>,
           NoEvent)
     else Ok (c, NoEvent))"

definition WithdrawUnbondedStake_accounts ::
  "runtime \<Rightarrow> pubkey \<Rightarrow> pubkey \<Rightarrow> pubkey \<Rightarrow> chain
     \<Rightarrow> (ValidatorAccount \<times> u8, error) result" where
  "WithdrawUnbondedStake_accounts rt validator stake_mint validator_token_account c =
     and_then (own_validator_account validator c) (\<lambda>va.
     and_then (load_account (tokens c (stake_token_vault_key rt))) (\<lambda>stake_token_vault.
     and_then (require (stake_mint = ta_mint stake_token_vault) (Anchor ConstraintAddress)) (\<lambda>_.
     and_then (load_account (mint_decimals c stake_mint)) (\<lambda>decimals.
     and_then (load_account (tokens c validator_token_account)) (\<lambda>ta.
     and_then (require (ta_owner ta = validator) (Anchor ConstraintTokenOwner)) (\<lambda>_.
     and_then (require (ta_mint ta = ta_mint stake_token_vault) (Anchor ConstraintRaw)) (\<lambda>_.
     Ok (va, decimals))))))))"

definition return_stake_tokens ::
  "runtime \<Rightarrow> pubkey \<Rightarrow> pubkey \<Rightarrow> u64 \<Rightarrow> u8 \<Rightarrow> chain \<Rightarrow> (chain, error) result" where
  "return_stake_tokens rt stake_mint validator_token_account amount decimals c =
     (if 0 < amount then
        move_tokens rt (stake_token_vault_key rt) stake_mint validator_token_account
          (stake_vault_authority_key rt) amount decimals c
      else Ok c)"

definition withdraw_unbonded_stake ::
  "runtime \<Rightarrow> clock \<Rightarrow> pubkey \<Rightarrow> pubkey \<Rightarrow> pubkey \<Rightarrow> chain \<Rightarrow> (chain \<times> event, error) result" where
  "withdraw_unbonded_stake rt clk validator stake_mint validator_token_account c =
     and_then (WithdrawUnbondedStake_accounts rt validator stake_mint validator_token_account c)
       (\<lambda>(va, decimals).
     let amount = va_unbonding_amount va;
         zero_amount_exit_close = (amount = 0 \<and> \<not> va_is_active va \<and> va_stake_amount va = 0 \<and>
                                   0 < va_unbonding_slot va)
     in
     and_then (require (0 < amount \<or> zero_amount_exit_close) (Bridge NothingUnbonding)) (\<lambda>_.
     and_then (require (va_unbonding_slot va \<le> slot clk) (Bridge UnbondingNotElapsed)) (\<lambda>_.
     and_then (require (va_pending_rewards va = 0) (Bridge PendingRewardsUnclaimed)) (\<lambda>_.
     and_then (debit_lamports (validator_key rt validator) amount c) (\<lambda>c1.
     and_then (credit_lamports validator amount c1) (\<lambda>c2.
     and_then (return_stake_tokens rt stake_mint validator_token_account
                 (va_token_unbonding_amount va) decimals c2) (\<lambda>c3.
     and_then (close_pda rt (validator_key rt validator) validator c3) (\<lambda>c4.
     Ok (c4\<lparr>validator_accounts := (validator_accounts c4)(validator := None)\<rparr>,
         UnbondedStakeWithdrawn (va_validator va) amount (unix_timestamp clk))))))))))"

section \<open>Migrations\<close>

fun reset_loop ::
  "runtime \<Rightarrow> account_info list \<Rightarrow> pubkey list \<Rightarrow> u64 \<Rightarrow> u64 \<Rightarrow> (u64 \<times> u64, error) result" where
  "reset_loop rt [] seen total_active_stake active = Ok (total_active_stake, active)"
| "reset_loop rt (acc # accs) seen total_active_stake active =
     and_then (require (ai_owner acc = program_id rt) (Bridge UnauthorizedInit)) (\<lambda>_.
     and_then (require (8 \<le> length (ai_data acc)) (Bridge UnauthorizedInit)) (\<lambda>_.
     and_then (require (take 8 (ai_data acc) = validator_discriminator rt)
                 (Bridge UnauthorizedInit)) (\<lambda>_.
     and_then (ok_or (validator_try_deserialize rt (ai_data acc))
                 (Anchor AccountDidNotDeserialize)) (\<lambda>validator.
     and_then (require (find_program_address rt [ascii ''validator'', va_validator validator]
                          (program_id rt) = ai_key acc) (Bridge UnauthorizedInit)) (\<lambda>_.
     and_then (require (va_is_active validator) (Bridge UnauthorizedInit)) (\<lambda>_.
     and_then (require (ai_key acc \<notin> set seen) (Bridge UnauthorizedInit)) (\<lambda>_.
     reset_loop rt accs (seen @ [ai_key acc])
       (saturating_add total_active_stake (va_stake_amount validator))
       (saturating_add active 1))))))))"

text \<open>The registry is taken untyped: \<open>registry_data\<close> are the bytes of the account before the
  reset, of the current layout or of the shorter one before it.\<close>

definition reset_validator_registry ::
  "runtime \<Rightarrow> clock \<Rightarrow> pubkey \<Rightarrow> pubkey \<Rightarrow> u64 \<Rightarrow> account_info list \<Rightarrow> bytes \<Rightarrow> chain
     \<Rightarrow> (chain \<times> event, error) result" where
  "reset_validator_registry rt clk authority stake_mint expected_active_validators
       remaining_accounts registry_data c =
     (let key = validator_registry_key rt; new_len = 8 + ValidatorRegistry_INIT_SPACE;
          min_balance = minimum_balance rt new_len; current = lamports c key in
     and_then (check_upgrade_authority rt (program_data c) authority) (\<lambda>_.
     and_then (require (8 \<le> length registry_data) (Bridge UnauthorizedInit)) (\<lambda>_.
     and_then (require (take 8 registry_data = registry_discriminator rt)
                 (Bridge UnauthorizedInit)) (\<lambda>_.
     and_then (if current < min_balance
               then transfer_lamports rt authority key (min_balance - current) c else Ok c) (\<lambda>c1.
     and_then (reset_loop rt remaining_accounts [] 0 0) (\<lambda>(total_active_stake, active).
     and_then (require (active = expected_active_validators)
                 (Bridge RegistryResetCountMismatch)) (\<lambda>_.
     Ok (c1\<lparr>validator_registry := Some \<lparr> vr_authority = authority,
              vr_total_validators = active, vr_active_validators = active,
              vr_minimum_stake = MIN_VALIDATOR_STAKE,
              vr_total_active_stake = total_active_stake, vr_stake_mint = stake_mint,
              vr_min_token_stake = RECOMMENDED_MIN_TOKEN_STAKE \<rparr>\<rparr>,
         RegistryReset authority active total_active_stake (unix_timestamp clk)))))))))"

definition migrate_validator_account ::
  "runtime \<Rightarrow> program_data_account \<Rightarrow> pubkey \<Rightarrow> pubkey \<Rightarrow> bytes \<times> balances
     \<Rightarrow> (bytes \<times> balances, error) result" where
  "migrate_validator_account rt pd authority validator st =
     (let (data, lam) = st; key = validator_key rt validator;
          new_len = 8 + ValidatorAccount_INIT_SPACE; old_len = length data in
      and_then (check_upgrade_authority rt pd authority) (\<lambda>_.
      and_then (require (8 \<le> length data) (Bridge UnauthorizedInit)) (\<lambda>_.
      and_then (require (take 8 data = validator_discriminator rt) (Bridge UnauthorizedInit)) (\<lambda>_.
      if old_len < new_len then
        let extra_rent = saturating_sub (minimum_balance rt new_len) (minimum_balance rt old_len) in
        and_then (if 0 < extra_rent
                  then ok_or (system_transfer rt authority key extra_rent lam) Cpi
                  else Ok lam) (\<lambda>lam'.
        Ok (data @ replicate (new_len - old_len) 0, lam'))
      else Ok (data, lam)))))"

text \<open>The token movements of a slash and of a withdrawal, which do nothing for an amount of 0.\<close>

definition burned ::
  "runtime \<Rightarrow> pubkey \<Rightarrow> u64 \<Rightarrow> token_accounts \<Rightarrow> token_accounts \<Rightarrow> bool" where
  "burned rt mint amount ts ts' \<longleftrightarrow>
     (if 0 < amount
      then token_burn rt mint (stake_token_vault_key rt) (stake_vault_authority_key rt) amount ts
             = Some ts'
      else ts' = ts)"

definition returned ::
  "runtime \<Rightarrow> pubkey \<Rightarrow> pubkey \<Rightarrow> u64 \<Rightarrow> u8 \<Rightarrow> token_accounts \<Rightarrow> token_accounts \<Rightarrow> bool" where
  "returned rt mint vta amount decimals ts ts' \<longleftrightarrow>
     (if 0 < amount
      then transfer_checked rt (stake_token_vault_key rt) mint vta (stake_vault_authority_key rt)
             amount decimals ts = Some ts'
      else ts' = ts)"

section \<open>Successful handlers as the list of their steps\<close>

lemma own_validator_account_Ok [rust_simps]:
  "own_validator_account validator c = Ok va \<longleftrightarrow>
     validator_accounts c validator = Some va \<and> va_validator va = validator"
  by (auto simp: own_validator_account_def rust_simps)

lemma seeded_validator_account_Ok [rust_simps]:
  "seeded_validator_account wallet c = Ok va \<longleftrightarrow>
     validator_accounts c wallet = Some va \<and> va_validator va = wallet"
  by (auto simp: seeded_validator_account_def rust_simps)

lemma RegisterValidator_accounts_Ok:
  "RegisterValidator_accounts rt validator mint vta c = Ok (c1, registry, decimals, vault) \<longleftrightarrow>
     validator_accounts c validator = None \<and>
     init_pda rt validator (validator_key rt validator) (8 + ValidatorAccount_INIT_SPACE) c = Ok c1 \<and>
     validator_registry c = Some registry \<and> mint = vr_stake_mint registry \<and>
     mint_decimals c mint = Some decimals \<and>
     (\<exists>ta. tokens c vta = Some ta \<and> ta_mint ta = mint \<and> ta_owner ta = validator) \<and>
     tokens c (stake_token_vault_key rt) = Some vault"
  by (auto simp: RegisterValidator_accounts_def rust_simps)

lemma UnregisterValidator_accounts_Ok:
  "UnregisterValidator_accounts validator c = Ok (va, registry) \<longleftrightarrow>
     validator_accounts c validator = Some va \<and> va_validator va = validator \<and>
     validator_registry c = Some registry"
  by (auto simp: UnregisterValidator_accounts_def rust_simps)

lemma UpdateReputation_accounts_Ok:
  "UpdateReputation_accounts authority wallet c = Ok va \<longleftrightarrow>
     validator_accounts c wallet = Some va \<and> va_validator va = wallet \<and>
     (\<exists>r. validator_registry c = Some r \<and> vr_authority r = authority)"
  by (auto simp: UpdateReputation_accounts_def rust_simps)

lemma ClaimRewards_accounts_Ok:
  "ClaimRewards_accounts rt validator c = Ok (bs, va) \<longleftrightarrow>
     bridge_state c = Some bs \<and> validator_accounts c validator = Some va \<and>
     va_validator va = validator \<and> account_owner c (bridge_vault_key rt) = system_program_id rt"
  by (auto simp: ClaimRewards_accounts_def rust_simps)

lemma SlashValidator_accounts_Ok:
  "SlashValidator_accounts rt authority wallet mint c = Ok (va, registry) \<longleftrightarrow>
     validator_accounts c wallet = Some va \<and> va_validator va = wallet \<and>
     validator_registry c = Some registry \<and> vr_authority registry = authority \<and>
     mint = vr_stake_mint registry \<and> mint_decimals c mint \<noteq> None \<and>
     tokens c (stake_token_vault_key rt) \<noteq> None"
  by (auto simp: SlashValidator_accounts_def rust_simps)

lemma DeactivateValidator_accounts_Ok:
  "DeactivateValidator_accounts authority wallet c = Ok (va, registry) \<longleftrightarrow>
     validator_accounts c wallet = Some va \<and> va_validator va = wallet \<and>
     validator_registry c = Some registry \<and> vr_authority registry = authority"
  by (auto simp: DeactivateValidator_accounts_def rust_simps)

lemma WithdrawUnbondedStake_accounts_Ok:
  "WithdrawUnbondedStake_accounts rt validator mint vta c = Ok (va, decimals) \<longleftrightarrow>
     validator_accounts c validator = Some va \<and> va_validator va = validator \<and>
     (\<exists>vault ta. tokens c (stake_token_vault_key rt) = Some vault \<and> mint = ta_mint vault \<and>
        tokens c vta = Some ta \<and> ta_owner ta = validator \<and> ta_mint ta = mint) \<and>
     mint_decimals c mint = Some decimals"
  by (auto simp: WithdrawUnbondedStake_accounts_def rust_simps)

lemma burn_stake_tokens_Ok:
  "burn_stake_tokens rt mint amount c = Ok c' \<longleftrightarrow>
     (\<exists>ts. burned rt mint amount (tokens c) ts \<and> c' = c\<lparr>tokens := ts\<rparr>)"
  by (cases "0 < amount") (auto simp: burn_stake_tokens_def burned_def rust_simps)

lemma return_stake_tokens_Ok:
  "return_stake_tokens rt mint vta amount decimals c = Ok c' \<longleftrightarrow>
     (\<exists>ts. returned rt mint vta amount decimals (tokens c) ts \<and> c' = c\<lparr>tokens := ts\<rparr>)"
  by (cases "0 < amount") (auto simp: return_stake_tokens_def returned_def rust_simps)

lemma register_validator_OkE:
  assumes "register_validator rt clk validator mint vta stake token_stake c = Ok (c', ev)"
  obtains registry decimals vault ta lam1 lam2 ts reloaded credited where
    "validator_accounts c validator = None" "validator_registry c = Some registry"
    "mint = vr_stake_mint registry" "tokens c vta = Some ta" "ta_owner ta = validator"
    "tokens c (stake_token_vault_key rt) = Some vault"
    "anchor_init rt validator (validator_key rt validator) (8 + ValidatorAccount_INIT_SPACE)
       (lamports c) = Some lam1"
    "MIN_VALIDATOR_STAKE \<le> stake"
    "system_transfer rt validator (validator_key rt validator) stake lam1 = Some lam2"
    "transfer_checked rt vta mint (stake_token_vault_key rt) validator token_stake decimals
       (tokens c) = Some ts"
    "ts (stake_token_vault_key rt) = Some reloaded"
    "checked_sub (ta_amount reloaded) (ta_amount vault) = Some credited"
    "vr_min_token_stake registry \<le> credited"
    "c' = c\<lparr>lamports := lam2,
            account_owner := (account_owner c)(validator_key rt validator := program_id rt),
            tokens := ts,
            validator_accounts := (validator_accounts c)(validator \<mapsto>
              new_validator_account clk validator stake credited),
            validator_registry := Some (registry\<lparr>
              vr_total_validators := saturating_add (vr_total_validators registry) 1,
              vr_active_validators := saturating_add (vr_active_validators registry) 1,
              vr_total_active_stake :=
                saturating_add (vr_total_active_stake registry) stake\<rparr>)\<rparr>"
    "ev = ValidatorRegistered validator stake (unix_timestamp clk)"
  using assms
  by (clarsimp simp: register_validator_def RegisterValidator_accounts_Ok rust_simps)

lemma unregister_validator_OkE:
  assumes "unregister_validator clk validator c = Ok (c', ev)"
  obtains va registry where
    "validator_accounts c validator = Some va" "va_validator va = validator"
    "validator_registry c = Some registry" "va_is_active va"
    "c' = c\<lparr>validator_accounts := (validator_accounts c)(validator \<mapsto> va\<lparr>
              va_is_active := False,
              va_stake_amount := 0,
              va_unbonding_amount := saturating_add (va_unbonding_amount va) (va_stake_amount va),
              va_unbonding_slot := saturating_add (slot clk) UNBONDING_SLOTS,
              va_token_stake_amount := 0,
              va_token_unbonding_amount :=
                saturating_add (va_token_unbonding_amount va) (va_token_stake_amount va)\<rparr>),
            validator_registry := Some (registry\<lparr>
              vr_active_validators := saturating_sub (vr_active_validators registry) 1,
              vr_total_active_stake :=
                saturating_sub (vr_total_active_stake registry) (va_stake_amount va)\<rparr>)\<rparr>"
    "ev = ValidatorUnregistered validator 0 (unix_timestamp clk)"
  using assms
  by (clarsimp simp: unregister_validator_def UnregisterValidator_accounts_Ok rust_simps)

lemma update_reputation_OkE:
  assumes "update_reputation clk authority wallet validator rep c = Ok (c', ev)"
  obtains va registry where
    "validator_accounts c wallet = Some va" "va_is_active va"
    "validator_registry c = Some registry" "vr_authority registry = authority"
    "c' = c\<lparr>validator_accounts := (validator_accounts c)(wallet \<mapsto> va\<lparr>
              va_reputation_score := rep, va_last_active := unix_timestamp clk\<rparr>)\<rparr>"
    "ev = NoEvent"
  using assms
  by (clarsimp simp: update_reputation_def UpdateReputation_accounts_Ok rust_simps)

lemma claim_rewards_OkE:
  assumes "claim_rewards rt clk validator c = Ok (c', ev)"
  obtains bs va lam earnings where
    "bridge_state c = Some bs" "\<not> bs_paused bs" "validator_accounts c validator = Some va"
    "0 < va_pending_rewards va"
    "system_transfer rt (bridge_vault_key rt) validator (va_pending_rewards va) (lamports c)
       = Some lam"
    "checked_add (va_total_earnings va) (va_pending_rewards va) = Some earnings"
    "c' = c\<lparr>lamports := lam, validator_accounts := (validator_accounts c)(validator \<mapsto> va\<lparr>
              va_pending_rewards := 0, va_total_earnings := earnings\<rparr>)\<rparr>"
    "ev = RewardClaimed validator (va_pending_rewards va) (unix_timestamp clk)"
  using assms
  by (clarsimp simp: claim_rewards_def ClaimRewards_accounts_Ok rust_simps)

lemma deactivate_validator_OkE:
  assumes "deactivate_validator clk authority wallet c = Ok (c', ev)"
  obtains (active) va registry where
    "validator_accounts c wallet = Some va" "validator_registry c = Some registry"
    "vr_authority registry = authority" "va_is_active va"
    "c' = c\<lparr>validator_accounts := (validator_accounts c)(wallet \<mapsto> va\<lparr>
              va_is_active := False,
              va_unbonding_amount := saturating_add (va_unbonding_amount va) (va_stake_amount va),
              va_unbonding_slot := saturating_add (slot clk) UNBONDING_SLOTS,
              va_stake_amount := 0\<rparr>),
            validator_registry := Some (registry\<lparr>
              vr_total_active_stake :=
                saturating_sub (vr_total_active_stake registry) (va_stake_amount va),
              vr_active_validators := saturating_sub (vr_active_validators registry) 1\<rparr>)\<rparr>"
    "ev = NoEvent"
  | (inactive) va where "validator_accounts c wallet = Some va" "\<not> va_is_active va"
    "c' = c" "ev = NoEvent"
  using assms
  by (cases "va_is_active (the (validator_accounts c wallet))")
    (auto simp: deactivate_validator_def DeactivateValidator_accounts_Ok rust_simps)

lemma slash_validator_OkE:
  assumes "slash_validator rt clk authority wallet mint validator pct c = Ok (c', ev)"
  obtains va registry sl v1 v2 ts where
    "validator_accounts c wallet = Some va" "va_validator va = wallet" "wallet = validator"
    "validator_registry c = Some registry" "vr_authority registry = authority"
    "0 < pct" "pct \<le> 100"
    "slash_structs clk (slash_share (at_risk_stake va) pct) (slash_share (at_risk_token va) pct)
       va registry = sl"
    "checked_sub (lamports c (validator_key rt wallet)) (slash_share (at_risk_stake va) pct)
       = Some v1"
    "checked_add (((lamports c)(validator_key rt wallet := v1)) (slashed_funds_vault_key rt))
       (slash_share (at_risk_stake va) pct) = Some v2"
    "burned rt mint (slash_share (at_risk_token va) pct) (tokens c) ts"
    "c' = c\<lparr>lamports := (lamports c)(validator_key rt wallet := v1, slashed_funds_vault_key rt := v2),
            tokens := ts, validator_accounts := (validator_accounts c)(wallet \<mapsto> fst sl),
            validator_registry := Some (snd sl)\<rparr>"
    "ev = ValidatorSlashed \<lparr> vs_validator = validator,
       vs_slash_amount = slash_share (at_risk_stake va) pct,
       vs_slash_percentage = pct, vs_old_stake = at_risk_stake va,
       vs_new_stake = va_stake_amount (fst sl), vs_timestamp = unix_timestamp clk \<rparr>"
proof -
  obtain va registry v1 v2 ts where acc: "SlashValidator_accounts rt authority wallet mint c = Ok (va, registry)"
    and g: "va_validator va = validator" "0 < pct \<and> pct \<le> 100"
    and v1: "checked_sub (lamports c (validator_key rt wallet)) (slash_share (at_risk_stake va) pct)
       = Some v1"
    and v2: "checked_add (((lamports c)(validator_key rt wallet := v1)) (slashed_funds_vault_key rt))
       (slash_share (at_risk_stake va) pct) = Some v2"
    and ts: "burned rt mint (slash_share (at_risk_token va) pct) (tokens c) ts"
    and c': "c' = c\<lparr>lamports := (lamports c)(validator_key rt wallet := v1, slashed_funds_vault_key rt := v2),
            tokens := ts, validator_accounts := (validator_accounts c)(wallet \<mapsto>
              fst (slash_structs clk (slash_share (at_risk_stake va) pct)
                (slash_share (at_risk_token va) pct) va registry)),
            validator_registry := Some (snd (slash_structs clk (slash_share (at_risk_stake va) pct)
                (slash_share (at_risk_token va) pct) va registry))\<rparr>"
    and ev: "ev = ValidatorSlashed \<lparr> vs_validator = validator,
       vs_slash_amount = slash_share (at_risk_stake va) pct,
       vs_slash_percentage = pct, vs_old_stake = at_risk_stake va,
       vs_new_stake = va_stake_amount (fst (slash_structs clk (slash_share (at_risk_stake va) pct)
                (slash_share (at_risk_token va) pct) va registry)),
       vs_timestamp = unix_timestamp clk \<rparr>"
    using assms
    by (auto simp: slash_validator_def burn_stake_tokens_Ok Let_def and_then_eq_Ok require_eq_Ok
        debit_lamports_Ok credit_lamports_Ok)
  then show thesis
    by (intro that [of va registry _ v1 v2 ts]) (simp_all add: SlashValidator_accounts_Ok)
qed

lemma withdraw_unbonded_stake_OkE:
  assumes "withdraw_unbonded_stake rt clk validator mint vta c = Ok (c', ev)"
  obtains va decimals vault ta v1 v2 ts lam where
    "validator_accounts c validator = Some va" "va_validator va = validator"
    "tokens c (stake_token_vault_key rt) = Some vault" "mint = ta_mint vault"
    "tokens c vta = Some ta" "ta_owner ta = validator" "ta_mint ta = mint"
    "0 < va_unbonding_amount va \<or> va_unbonding_amount va = 0 \<and> \<not> va_is_active va \<and>
       va_stake_amount va = 0 \<and> 0 < va_unbonding_slot va"
    "va_unbonding_slot va \<le> slot clk" "va_pending_rewards va = 0"
    "checked_sub (lamports c (validator_key rt validator)) (va_unbonding_amount va) = Some v1"
    "checked_add (((lamports c)(validator_key rt validator := v1)) validator)
       (va_unbonding_amount va) = Some v2"
    "returned rt mint vta (va_token_unbonding_amount va) decimals (tokens c) ts"
    "anchor_close rt (validator_key rt validator) validator
       ((lamports c)(validator_key rt validator := v1, validator := v2)) = Some lam"
    "c' = c\<lparr>lamports := lam, tokens := ts,
            account_owner := (account_owner c)(validator_key rt validator := system_program_id rt),
            validator_accounts := (validator_accounts c)(validator := None)\<rparr>"
    "ev = UnbondedStakeWithdrawn validator (va_unbonding_amount va) (unix_timestamp clk)"
  using assms
  by (clarsimp simp: withdraw_unbonded_stake_def WithdrawUnbondedStake_accounts_Ok
      return_stake_tokens_Ok Let_def rust_simps)

section \<open>Slashing is exact\<close>

lemma percent_le: "p \<le> 100 \<Longrightarrow> v * p div 100 \<le> (v :: nat)"
  using mult_le_mono2 [of p 100 v] by linarith

lemma unat_slash_share:
  assumes "pct \<le> 100"
  shows "unat (slash_share v pct) = unat v * unat pct div 100"
proof -
  have p: "unat pct \<le> 100" using assms by (simp add: word_le_nat_alt)
  have v: "unat v < 18446744073709551616" by (rule unat_u64_bound)
  have "unat v * unat pct \<le> unat v * 100" using p by (rule mult_le_mono2)
  also have "\<dots> < 2 ^ LENGTH(128)" using v by simp
  finally have "unat v * unat pct < 2 ^ LENGTH(128)" .
  moreover have "unat (ucast v :: u128) = unat v" "unat (ucast pct :: u128) = unat pct"
    using v p by (simp_all add: unsigned_ucast_eq take_bit_nat_eq_self)
  ultimately have "unat (ucast v * ucast pct :: u128) = unat v * unat pct"
    by (subst unat_times_no_wrap) simp_all
  then have "unat ((ucast v * ucast pct :: u128) div 100) = unat v * unat pct div 100"
    by (simp add: unat_div)
  then show ?thesis
    using percent_le [OF p, of "unat v"] v
    by (simp add: slash_share_def unsigned_ucast_eq take_bit_eq_mod)
qed

lemma slash_share_le: "pct \<le> 100 \<Longrightarrow> slash_share v pct \<le> v"
  by (simp add: word_le_nat_alt unat_slash_share percent_le)

lemma slash_structs_effect:
  assumes "sl \<le> at_risk_stake va" and "tsl \<le> at_risk_token va"
    and "slash_structs clk sl tsl va registry = (va', registry')"
  shows "va_validator va' = va_validator va" and "va_pending_rewards va' = va_pending_rewards va"
    and "unat (va_stake_amount va') + unat (va_unbonding_amount va') + unat sl
      \<le> unat (va_stake_amount va) + unat (va_unbonding_amount va)"
    and "unat (va_token_stake_amount va') + unat (va_token_unbonding_amount va') + unat tsl
      \<le> unat (va_token_stake_amount va) + unat (va_token_unbonding_amount va)"
    and "va_is_active va' \<longleftrightarrow> va_is_active va \<and>
      unat (vr_minimum_stake registry) + unat sl \<le> unat (va_stake_amount va)"
    and "va_is_active va \<Longrightarrow> va_stake_amount va' =
      (if va_is_active va' then va_stake_amount va - sl else 0)"
    and "\<not> va_is_active va \<Longrightarrow> va_stake_amount va' = va_stake_amount va"
    and "\<not> va_is_active va \<Longrightarrow> va_unbonding_slot va' = va_unbonding_slot va"
    and "vr_total_active_stake registry' = (if \<not> va_is_active va then vr_total_active_stake registry
      else saturating_sub (vr_total_active_stake registry)
        (if va_is_active va' then sl else va_stake_amount va))"
    and "vr_active_validators registry' = (if va_is_active va \<and> \<not> va_is_active va'
      then saturating_sub (vr_active_validators registry) 1 else vr_active_validators registry)"
    and "vr_minimum_stake registry' = vr_minimum_stake registry"
    and "vr_authority registry' = vr_authority registry"
    and "vr_stake_mint registry' = vr_stake_mint registry"
    and "vr_min_token_stake registry' = vr_min_token_stake registry"
  using assms
  by (auto simp: slash_structs_def slash_active_def slash_unbonding_def at_risk_stake_def
      at_risk_token_def Let_def word_le_nat_alt word_less_nat_alt unat_simps unat_minus_no_wrap
      word_unat_eq_iff split: if_splits)

lemma burned_effect:
  assumes "runtime_ok rt" and "burned rt mint amount ts ts'"
  shows "token_meta ts' = token_meta ts"
    and "token_balance ts (stake_token_vault_key rt)
      = token_balance ts' (stake_token_vault_key rt) + unat amount"
    and "k \<noteq> stake_token_vault_key rt \<Longrightarrow> ts' k = ts k"
proof -
  consider "ts' = ts" "amount = 0"
    | "token_burn rt mint (stake_token_vault_key rt) (stake_vault_authority_key rt) amount ts = Some ts'"
    using assms(2) by (cases "amount = 0") (simp_all add: burned_def word_gt_0)
  note split = this
  show "token_meta ts' = token_meta ts"
    using split by cases (simp, rule token_burnD(1) [OF assms(1)])
  show "token_balance ts (stake_token_vault_key rt)
      = token_balance ts' (stake_token_vault_key rt) + unat amount"
    using split by cases (simp, rule token_burnD(2) [OF assms(1)])
  show "k \<noteq> stake_token_vault_key rt \<Longrightarrow> ts' k = ts k"
    using split by cases (simp, rule token_burnD(3) [OF assms(1)])
qed

text \<open>A successful slash takes exactly the percentage, rounded down, of the stake at risk
  (the active stake, or the unbonding balance of a validator that has left) out of the validator
  account into the slashed-funds vault, and touches no other balance; it burns the same share of
  the token stake at risk out of the token vault. The validator stays active exactly when what is
  left reaches the registry's minimum.\<close>

theorem slash_exact:
  assumes "runtime_ok rt" and "validator_accounts c wallet = Some va"
    and "validator_registry c = Some registry"
    and "slash_validator rt clk authority wallet mint validator pct c = Ok (c', ev)"
  shows "unat (lamports c (validator_key rt wallet)) =
      unat (lamports c' (validator_key rt wallet)) + unat (at_risk_stake va) * unat pct div 100 \<and>
    unat (lamports c' (slashed_funds_vault_key rt)) =
      unat (lamports c (slashed_funds_vault_key rt)) + unat (at_risk_stake va) * unat pct div 100 \<and>
    (\<forall>k. k \<noteq> validator_key rt wallet \<longrightarrow> k \<noteq> slashed_funds_vault_key rt \<longrightarrow>
       lamports c' k = lamports c k) \<and>
    token_balance (tokens c) (stake_token_vault_key rt) =
      token_balance (tokens c') (stake_token_vault_key rt)
        + unat (at_risk_token va) * unat pct div 100 \<and>
    (\<exists>va'. validator_accounts c' = (validator_accounts c)(wallet \<mapsto> va') \<and>
      (va_is_active va' \<longleftrightarrow> va_is_active va \<and> unat (vr_minimum_stake registry) \<le>
         unat (va_stake_amount va) - unat (at_risk_stake va) * unat pct div 100))"
  using assms(4)
proof (rule slash_validator_OkE)
  fix va1 registry1 sl v1 v2 ts
  let ?s = "slash_share (at_risk_stake va) pct" and ?t = "slash_share (at_risk_token va) pct"
  let ?w = "validator_key rt wallet" and ?f = "slashed_funds_vault_key rt"
  assume va1: "validator_accounts c wallet = Some va1" "validator_registry c = Some registry1"
    and p: "pct \<le> 100"
    and sl: "slash_structs clk (slash_share (at_risk_stake va1) pct)
      (slash_share (at_risk_token va1) pct) va1 registry1 = sl"
    and v1: "checked_sub (lamports c ?w) (slash_share (at_risk_stake va1) pct) = Some v1"
    and v2: "checked_add (((lamports c)(?w := v1)) ?f) (slash_share (at_risk_stake va1) pct) = Some v2"
    and ts: "burned rt mint (slash_share (at_risk_token va1) pct) (tokens c) ts"
    and c': "c' = c\<lparr>lamports := (lamports c)(?w := v1, ?f := v2), tokens := ts,
      validator_accounts := (validator_accounts c)(wallet \<mapsto> fst sl),
      validator_registry := Some (snd sl)\<rparr>"
  from va1 assms(2,3) have eq: "va1 = va" "registry1 = registry" by simp_all
  have "?s \<le> at_risk_stake va" "?t \<le> at_risk_token va" using p by (simp_all add: slash_share_le)
  moreover have "slash_structs clk ?s ?t va registry = (fst sl, snd sl)"
    using sl eq by simp
  ultimately have active: "va_is_active (fst sl) \<longleftrightarrow> va_is_active va \<and>
      unat (vr_minimum_stake registry) + unat ?s \<le> unat (va_stake_amount va)"
    by (rule slash_structs_effect(5))
  have ne: "?w \<noteq> ?f" "?f \<noteq> ?w" using pda_okD(4,5) [OF assms(1), of wallet] by simp_all
  have l: "unat (lamports c ?w) = unat v1 + unat ?s" "unat v2 = unat (lamports c ?f) + unat ?s"
    using v1 v2 ne by (simp_all add: eq checked_simps)
  have t: "token_balance (tokens c) (stake_token_vault_key rt) =
      token_balance ts (stake_token_vault_key rt) + unat ?t"
    using burned_effect(2) [OF assms(1) ts] eq by simp
  have "unat (at_risk_stake va) * unat pct div 100 \<le> unat (at_risk_stake va)"
    using p by (simp add: percent_le word_le_nat_alt)
  then have a: "va_is_active (fst sl) \<longleftrightarrow> va_is_active va \<and> unat (vr_minimum_stake registry) \<le>
         unat (va_stake_amount va) - unat (at_risk_stake va) * unat pct div 100"
    using active by (cases "va_is_active va") (auto simp: unat_slash_share [OF p] at_risk_stake_def)
  show ?thesis
    unfolding c' using l t ne a
    by (intro conjI exI [of _ "fst sl"]) (simp_all add: unat_slash_share [OF p])
qed

definition example_staker :: ValidatorAccount where
  "example_staker = example_validator
     \<lparr> va_validator := replicate 32 2, va_stake_amount := 2000, va_token_stake_amount := 400 \<rparr>"

definition example_stake_chain :: chain where
  "example_stake_chain = example_chain
     \<lparr> tokens := [stake_token_vault_key ref_runtime \<mapsto>
                    \<lparr> ta_mint = replicate 32 6, ta_owner = stake_vault_authority_key ref_runtime,
                      ta_amount = 900 \<rparr>,
                  replicate 32 4 \<mapsto>
                    \<lparr> ta_mint = replicate 32 6, ta_owner = replicate 32 2, ta_amount = 500 \<rparr>],
       mint_decimals := [replicate 32 6 \<mapsto> 6],
       validator_accounts := [replicate 32 2 \<mapsto> example_staker] \<rparr>"

lemma stake_vault_ne: "stake_token_vault_key ref_runtime \<noteq> replicate 32 4"
  using ref_signer_ok [of "replicate 32 4"] by (simp add: signer_ok_def stake_token_vault_key_def)

lemma example_slash_ok:
  "is_ok (slash_validator ref_runtime example_clock (replicate 32 5) (replicate 32 2)
     (replicate 32 6) (replicate 32 2) 25 example_stake_chain)"
proof -
  have acc: "SlashValidator_accounts ref_runtime (replicate 32 5) (replicate 32 2) (replicate 32 6)
      example_stake_chain = Ok (example_staker, example_registry)"
    using stake_vault_ne
    by (simp add: SlashValidator_accounts_Ok example_stake_chain_def example_chain_def
        example_registry_def example_staker_def)
  have sh: "slash_share 2000 25 = 500" "slash_share 400 25 = 100"
    by (simp_all add: word_unat_eq_iff unat_slash_share)
  have lam: "lamports example_stake_chain = (\<lambda>k. 1000000)"
    by (simp add: example_stake_chain_def example_chain_def)
  obtain c1 where c1: "debit_lamports (validator_key ref_runtime (replicate 32 2)) 500
      example_stake_chain = Ok c1" "lamports c1 (slashed_funds_vault_key ref_runtime) = 1000000"
    "tokens c1 = tokens example_stake_chain"
    using pda_okD(4,5) [OF ref_runtime_ok] by (simp add: debit_lamports_def checked_sub_def lam)
  obtain c2 where c2: "credit_lamports (slashed_funds_vault_key ref_runtime) 500 c1 = Ok c2"
    "tokens c2 = tokens example_stake_chain"
    using c1 by (simp add: credit_lamports_def checked_add_def)
  obtain c3 where c3: "burn_stake_tokens ref_runtime (replicate 32 6) 100 c2 = Ok c3"
    using c2(2) stake_vault_ne
    by (simp add: burn_stake_tokens_def ref_token_burn_def example_stake_chain_def)
  show ?thesis
    unfolding slash_validator_def acc
    by (simp add: example_staker_def at_risk_stake_def at_risk_token_def example_validator_def Let_def
        sh c1 c2 c3)
qed

theorem slash_exact_witness:
  "\<exists>c' ev. slash_validator ref_runtime example_clock (replicate 32 5) (replicate 32 2)
     (replicate 32 6) (replicate 32 2) 25 example_stake_chain = Ok (c', ev) \<and>
   unat (lamports c' (slashed_funds_vault_key ref_runtime)) = 1000500"
proof -
  obtain c' ev where ok: "slash_validator ref_runtime example_clock (replicate 32 5)
      (replicate 32 2) (replicate 32 6) (replicate 32 2) 25 example_stake_chain = Ok (c', ev)"
    using example_slash_ok by (auto simp: is_ok_iff)
  have "validator_accounts example_stake_chain (replicate 32 2) = Some example_staker"
    "validator_registry example_stake_chain = Some example_registry"
    by (simp_all add: example_stake_chain_def example_chain_def)
  from slash_exact [OF ref_runtime_ok this ok]
  have "unat (lamports c' (slashed_funds_vault_key ref_runtime)) = 1000500"
    by (simp add: example_stake_chain_def example_chain_def example_staker_def
        example_validator_def at_risk_stake_def)
  then show ?thesis using ok by blast
qed


section \<open>Leaving with the stake\<close>

lemma returned_effect:
  assumes "runtime_ok rt" and "returned rt mint vta amount decimals ts ts'"
    and "vta \<noteq> stake_token_vault_key rt"
  shows "token_meta ts' = token_meta ts"
    and "token_balance ts (stake_token_vault_key rt)
      = token_balance ts' (stake_token_vault_key rt) + unat amount"
proof -
  consider "ts' = ts" "amount = 0"
    | "transfer_checked rt (stake_token_vault_key rt) mint vta (stake_vault_authority_key rt)
         amount decimals ts = Some ts'"
    using assms(2) by (cases "amount = 0") (simp_all add: returned_def word_gt_0)
  note split = this
  show "token_meta ts' = token_meta ts"
    using split by cases (simp, rule transfer_checkedD(1) [OF assms(1) assms(3) [symmetric]])
  show "token_balance ts (stake_token_vault_key rt)
      = token_balance ts' (stake_token_vault_key rt) + unat amount"
    using split by cases (simp, rule transfer_checkedD(2) [OF assms(1) assms(3) [symmetric]])
qed

lemma withdraw_lamports:
  assumes "runtime_ok rt" and "signer_ok rt w"
    and "checked_sub (lam (validator_key rt w)) amount = Some v1"
    and "checked_add ((lam(validator_key rt w := v1)) w) amount = Some v2"
    and "anchor_close rt (validator_key rt w) w (lam(validator_key rt w := v1, w := v2)) = Some lam'"
  shows "lam' (validator_key rt w) = 0"
    and "unat (lam' w) = unat (lam w) + unat (lam (validator_key rt w))"
    and "k \<noteq> w \<Longrightarrow> k \<noteq> validator_key rt w \<Longrightarrow> lam' k = lam k"
  using anchor_closeD [OF assms(1) _ assms(5)] assms(2-4) by (simp_all add: checked_simps)

text \<open>Withdrawing unbonded stake succeeds only after the unbonding slot and with no
  unclaimed reward. It pays the wallet the whole balance of the validator account (the unbonded
  stake and the rent), removes the account, touches no other balance, and takes exactly the
  unbonding token balance out of the token vault.\<close>

theorem withdraw_exact:
  assumes "runtime_ok rt" and "signer_ok rt w" and "validator_accounts c w = Some va"
    and "\<forall>ta. tokens c (stake_token_vault_key rt) = Some ta \<longrightarrow>
      ta_owner ta = stake_vault_authority_key rt"
    and "withdraw_unbonded_stake rt clk w mint vta c = Ok (c', ev)"
  shows "va_unbonding_slot va \<le> slot clk \<and> va_pending_rewards va = 0 \<and>
    validator_accounts c' = (validator_accounts c)(w := None) \<and>
    lamports c' (validator_key rt w) = 0 \<and>
    unat (lamports c' w) = unat (lamports c w) + unat (lamports c (validator_key rt w)) \<and>
    (\<forall>k. k \<noteq> w \<longrightarrow> k \<noteq> validator_key rt w \<longrightarrow> lamports c' k = lamports c k) \<and>
    token_balance (tokens c) (stake_token_vault_key rt) =
      token_balance (tokens c') (stake_token_vault_key rt) + unat (va_token_unbonding_amount va)"
  using assms(5)
proof (rule withdraw_unbonded_stake_OkE)
  fix va1 decimals vault ta v1 v2 ts lam
  assume acc: "validator_accounts c w = Some va1" "tokens c (stake_token_vault_key rt) = Some vault"
    "tokens c vta = Some ta" "ta_owner ta = w"
    and guards: "va_unbonding_slot va1 \<le> slot clk" "va_pending_rewards va1 = 0"
    and lam: "checked_sub (lamports c (validator_key rt w)) (va_unbonding_amount va1) = Some v1"
      "checked_add (((lamports c)(validator_key rt w := v1)) w) (va_unbonding_amount va1) = Some v2"
      "anchor_close rt (validator_key rt w) w ((lamports c)(validator_key rt w := v1, w := v2))
        = Some lam"
    and ts: "returned rt mint vta (va_token_unbonding_amount va1) decimals (tokens c) ts"
    and c': "c' = c\<lparr>lamports := lam, tokens := ts,
      account_owner := (account_owner c)(validator_key rt w := system_program_id rt),
      validator_accounts := (validator_accounts c)(w := None)\<rparr>"
  have eq: "va1 = va" using acc(1) assms(3) by simp
  have "stake_vault_authority_key rt \<noteq> w"
    using assms(2) unfolding signer_ok_def stake_vault_authority_key_def by blast
  then have "vta \<noteq> stake_token_vault_key rt" using acc assms(4) by auto
  then show ?thesis
    using withdraw_lamports [OF assms(1,2) lam] returned_effect [OF assms(1) ts] guards
    unfolding c' eq by simp
qed

lemma deactivate_then_withdraw:
  assumes "validator_accounts c w = Some va" and "va_is_active va"
    and "va_token_unbonding_amount va = 0"
    and "deactivate_validator clk authority w c = Ok (c1, ev1)"
    and "withdraw_unbonded_stake rt clk' w mint vta c1 = Ok (c2, ev2)"
  shows "validator_accounts c2 w = None" and "tokens c2 = tokens c"
proof -
  obtain va1 where c1: "validator_accounts c1 w = Some va1"
    "va_token_unbonding_amount va1 = 0" "tokens c1 = tokens c"
    using assms(1-4)
    by (auto simp: deactivate_validator_def DeactivateValidator_accounts_Ok rust_simps)
  show "validator_accounts c2 w = None" "tokens c2 = tokens c"
    using assms(5) c1 by (auto elim!: withdraw_unbonded_stake_OkE simp: returned_def)
qed

text \<open>C19. A validator that the registry authority deactivates loses its token stake:
  \<^const>\<open>deactivate_validator\<close> moves only the lamport stake into unbonding, so the later
  withdrawal removes the account and returns no token, whatever token stake the account
  recorded. (\<^const>\<open>unregister_validator\<close> and a deactivating slash move both halves.)\<close>

theorem deactivated_token_stake_is_stranded:
  assumes "validator_accounts c w = Some va" and "va_is_active va"
    and "va_token_unbonding_amount va = 0" and "0 < va_token_stake_amount va"
    and "deactivate_validator clk authority w c = Ok (c1, ev1)"
    and "withdraw_unbonded_stake rt clk' w mint vta c1 = Ok (c2, ev2)"
  shows "validator_accounts c2 w = None \<and> tokens c2 = tokens c"
  using deactivate_then_withdraw [OF assms(1-3,5,6)] by blast

definition late_clock :: clock where
  "late_clock = \<lparr> slot = 10000000, unix_timestamp = 200 \<rparr>"

lemma example_withdraw_ok:
  assumes "validator_accounts c (replicate 32 2) = Some va" and "va_validator va = replicate 32 2"
    and "va_unbonding_amount va = 2000" and "va_unbonding_slot va \<le> 10000000"
    and "va_pending_rewards va = 0" and "va_token_unbonding_amount va \<le> 900"
    and "tokens c = tokens example_stake_chain" and "mint_decimals c = mint_decimals example_stake_chain"
    and "lamports c = (\<lambda>k. 1000000)"
  shows "is_ok (withdraw_unbonded_stake ref_runtime late_clock (replicate 32 2) (replicate 32 6)
    (replicate 32 4) c)"
proof -
  let ?w = "replicate 32 2 :: pubkey" and ?k = "validator_key ref_runtime (replicate 32 2)"
  have ne: "?k \<noteq> ?w" "?w \<noteq> ?k" using ref_signer_ok [of ?w] signer_ok_keys [of ref_runtime ?w] by auto
  have acc: "WithdrawUnbondedStake_accounts ref_runtime ?w (replicate 32 6) (replicate 32 4) c
      = Ok (va, 6)"
    using assms(1,2,7,8) stake_vault_ne
    by (simp add: WithdrawUnbondedStake_accounts_Ok example_stake_chain_def)
  obtain c1 where c1: "debit_lamports ?k 2000 c = Ok c1" "lamports c1 ?w = 1000000"
    "lamports c1 ?k = 998000" "tokens c1 = tokens c"
    using assms(9) ne by (simp add: debit_lamports_def checked_sub_def)
  obtain c2 where c2: "credit_lamports ?w 2000 c1 = Ok c2" "lamports c2 ?w = 1002000"
    "lamports c2 ?k = 998000" "tokens c2 = tokens c"
    using c1 ne by (simp add: credit_lamports_def checked_add_def)
  obtain c3 where c3: "return_stake_tokens ref_runtime (replicate 32 6) (replicate 32 4)
      (va_token_unbonding_amount va) 6 c2 = Ok c3" "lamports c3 = lamports c2"
  proof (cases "0 < va_token_unbonding_amount va")
    case True
    have "unat (va_token_unbonding_amount va) \<le> 900" using assms(6) by (simp add: word_le_nat_alt)
    then show ?thesis
      using that True c2(4) assms(6,7) stake_vault_ne
      by (auto simp: return_stake_tokens_def move_tokens_def ref_transfer_checked_def
          example_stake_chain_def checked_add_def)
  qed (use that in \<open>simp add: return_stake_tokens_def\<close>)
  obtain c4 where "close_pda ref_runtime ?k ?w c3 = Ok c4"
    using c2 c3(2) ne by (simp add: close_pda_def ref_anchor_close_def ref_system_transfer_def
        checked_add_def)
  then show ?thesis
    unfolding withdraw_unbonded_stake_def acc
    using assms(3-5) c1 c2 c3 by (simp add: late_clock_def)
qed

definition example_leaving_chain :: chain where
  "example_leaving_chain = example_stake_chain\<lparr>validator_accounts :=
     [replicate 32 2 \<mapsto> example_staker\<lparr>va_is_active := False, va_stake_amount := 0,
        va_unbonding_amount := 2000, va_unbonding_slot := 500, va_token_stake_amount := 0,
        va_token_unbonding_amount := 400\<rparr>]\<rparr>"

theorem withdraw_exact_witness:
  "\<exists>c' ev. withdraw_unbonded_stake ref_runtime late_clock (replicate 32 2) (replicate 32 6)
     (replicate 32 4) example_leaving_chain = Ok (c', ev) \<and>
   unat (lamports c' (replicate 32 2)) = 2000000 \<and>
   token_balance (tokens c') (stake_token_vault_key ref_runtime) = 500"
proof -
  let ?c = example_leaving_chain and ?w = "replicate 32 2"
  let ?va = "example_staker\<lparr>va_is_active := False, va_stake_amount := 0,
        va_unbonding_amount := 2000, va_unbonding_slot := 500, va_token_stake_amount := 0,
        va_token_unbonding_amount := 400\<rparr>"
  have va: "validator_accounts ?c ?w = Some ?va"
    by (simp add: example_leaving_chain_def)
  obtain c' ev where ok: "withdraw_unbonded_stake ref_runtime late_clock ?w (replicate 32 6)
     (replicate 32 4) ?c = Ok (c', ev)"
    using example_withdraw_ok [OF va]
    by (auto simp: is_ok_iff example_leaving_chain_def example_stake_chain_def example_chain_def
        example_staker_def example_validator_def)
  have "\<forall>ta. tokens ?c (stake_token_vault_key ref_runtime) = Some ta \<longrightarrow>
      ta_owner ta = stake_vault_authority_key ref_runtime"
    using stake_vault_ne by (simp add: example_leaving_chain_def example_stake_chain_def)
  from withdraw_exact [OF ref_runtime_ok ref_signer_ok va this ok]
  have "unat (lamports c' ?w) = 2000000 \<and>
      token_balance (tokens c') (stake_token_vault_key ref_runtime) = 500"
    using stake_vault_ne by (simp add: example_leaving_chain_def example_stake_chain_def
        example_chain_def token_balance_def)
  then show ?thesis using ok by blast
qed

theorem deactivated_token_stake_is_stranded_witness:
  "\<exists>c1 ev1 c2 ev2. deactivate_validator example_clock (replicate 32 5) (replicate 32 2)
      example_stake_chain = Ok (c1, ev1) \<and>
    withdraw_unbonded_stake ref_runtime late_clock (replicate 32 2) (replicate 32 6)
      (replicate 32 4) c1 = Ok (c2, ev2) \<and>
    va_token_stake_amount (the (validator_accounts c1 (replicate 32 2))) = 400 \<and>
    validator_accounts c2 (replicate 32 2) = None \<and> tokens c2 = tokens example_stake_chain"
proof -
  let ?w = "replicate 32 2"
  have va: "validator_accounts example_stake_chain ?w = Some example_staker"
    "va_is_active example_staker" "va_token_unbonding_amount example_staker = 0"
    "0 < va_token_stake_amount example_staker"
    by (simp_all add: example_stake_chain_def example_staker_def example_validator_def)
  obtain c1 ev1 where d: "deactivate_validator example_clock (replicate 32 5) ?w
      example_stake_chain = Ok (c1, ev1)"
    using va by (simp add: deactivate_validator_def DeactivateValidator_accounts_def
      seeded_validator_account_def registry_with_authority_def example_stake_chain_def
      example_chain_def example_registry_def example_staker_def)
  then obtain va1 where va1: "validator_accounts c1 ?w = Some va1" "va_token_stake_amount va1 = 400"
    "va_validator va1 = ?w" "va_unbonding_amount va1 = 2000"
    "va_unbonding_slot va1 = saturating_add 10 UNBONDING_SLOTS" "va_pending_rewards va1 = 0"
    "va_token_unbonding_amount va1 = 0"
    and c1: "tokens c1 = tokens example_stake_chain" "lamports c1 = lamports example_stake_chain"
      "mint_decimals c1 = mint_decimals example_stake_chain"
    using va by (elim deactivate_validator_OkE)
      (auto simp: example_staker_def example_validator_def example_clock_def saturating_add_def)
  obtain c2 ev2 where w: "withdraw_unbonded_stake ref_runtime late_clock ?w (replicate 32 6)
      (replicate 32 4) c1 = Ok (c2, ev2)"
    using example_withdraw_ok [OF va1(1)] va1 c1
    by (auto simp: is_ok_iff example_stake_chain_def example_chain_def UNBONDING_SLOTS_def
        saturating_add_def)
  from deactivated_token_stake_is_stranded [OF va d w]
  show ?thesis using d w va1(1,2) by auto
qed

end
