(* ===== verification/Chain_Runs.thy ===== *)
theory Chain_Runs
  imports Validators
begin

text \<open>
  The program as a state machine. \<open>exec\<close> dispatches an instruction to its handler; a step of the
  ledger is either an instruction that succeeds, signed by a key that is not a program-derived
  address, or a transaction of another program, which cannot debit or rewrite what this program
  owns. A failing instruction leaves the ledger as it was and is no step. The lemmas say what each
  group of instructions does to the lamports of program-derived addresses; the invariants they
  serve are in the theories that follow.
\<close>

section \<open>Instructions\<close>

datatype instruction =
    IxInitialize pubkey u32 bytes32
  | IxInitializeMerkleTree pubkey
  | IxDepositNote pubkey u64 bytes32 bytes32
  | IxDepositNoteSpl pubkey pubkey pubkey u64 bytes32 bytes32
  | IxTransact pubkey pubkey "account_info list" settlement
  | IxTransactSpl pubkey spl_accounts "account_info list" settlement
  | IxPause pubkey
  | IxUnpause pubkey
  | IxSetBridgeAuthority pubkey pubkey
  | IxSetDepositCap pubkey u64
  | IxSetMinTokenStake pubkey u64
  | IxRegisterValidator pubkey pubkey pubkey u64 u64
  | IxUnregisterValidator pubkey
  | IxUpdateReputation pubkey pubkey pubkey u64
  | IxClaimRewards pubkey
  | IxSlashValidator pubkey pubkey pubkey pubkey u8
  | IxInitializeValidatorRegistry pubkey pubkey
  | IxInitStakeTokenVault pubkey pubkey
  | IxInitAssetVault pubkey pubkey
  | IxSetAssetDepositCap pubkey pubkey u64
  | IxResetValidatorRegistry pubkey pubkey u64 "account_info list" bytes
  | IxDeactivateValidator pubkey pubkey
  | IxWithdrawUnbondedStake pubkey pubkey pubkey

definition silent :: "(chain, error) result \<Rightarrow> (chain \<times> event, error) result" where
  "silent m = and_then m (\<lambda>c. Ok (c, NoEvent))"

fun exec :: "runtime \<Rightarrow> clock \<Rightarrow> instruction \<Rightarrow> chain \<Rightarrow> (chain \<times> event, error) result" where
  "exec rt clk (IxInitialize k version root) c = silent (initialize rt k version root c)"
| "exec rt clk (IxInitializeMerkleTree k) c = silent (initialize_merkle_tree rt k c)"
| "exec rt clk (IxDepositNote k amount pubkey blinding) c =
     deposit_note rt clk k amount pubkey blinding c"
| "exec rt clk (IxDepositNoteSpl k mint dta amount pubkey blinding) c =
     deposit_note_spl rt clk k mint dta amount pubkey blinding c"
| "exec rt clk (IxTransact k recipient infos s) c = transact rt clk k recipient infos s c"
| "exec rt clk (IxTransactSpl k accts infos s) c = transact_spl rt clk k accts infos s c"
| "exec rt clk (IxPause k) c = silent (pause k c)"
| "exec rt clk (IxUnpause k) c = silent (unpause k c)"
| "exec rt clk (IxSetBridgeAuthority k new_authority) c =
     silent (set_bridge_authority k new_authority c)"
| "exec rt clk (IxSetDepositCap k cap) c = silent (set_deposit_cap k cap c)"
| "exec rt clk (IxSetMinTokenStake k floor) c = silent (set_min_token_stake k floor c)"
| "exec rt clk (IxRegisterValidator k mint vta stake token_stake) c =
     register_validator rt clk k mint vta stake token_stake c"
| "exec rt clk (IxUnregisterValidator k) c = unregister_validator clk k c"
| "exec rt clk (IxUpdateReputation k wallet validator rep) c =
     update_reputation clk k wallet validator rep c"
| "exec rt clk (IxClaimRewards k) c = claim_rewards rt clk k c"
| "exec rt clk (IxSlashValidator k wallet mint validator pct) c =
     slash_validator rt clk k wallet mint validator pct c"
| "exec rt clk (IxInitializeValidatorRegistry k mint) c =
     silent (initialize_validator_registry rt k mint c)"
| "exec rt clk (IxInitStakeTokenVault k mint) c = silent (init_stake_token_vault rt k mint c)"
| "exec rt clk (IxInitAssetVault k mint) c = silent (init_asset_vault rt k mint c)"
| "exec rt clk (IxSetAssetDepositCap k mint cap) c = silent (set_asset_deposit_cap rt k mint cap c)"
| "exec rt clk (IxResetValidatorRegistry k mint expected infos data) c =
     reset_validator_registry rt clk k mint expected infos data c"
| "exec rt clk (IxDeactivateValidator k wallet) c = deactivate_validator clk k wallet c"
| "exec rt clk (IxWithdrawUnbondedStake k mint vta) c =
     withdraw_unbonded_stake rt clk k mint vta c"

fun instruction_signer :: "instruction \<Rightarrow> pubkey" where
  "instruction_signer (IxInitialize k _ _) = k"
| "instruction_signer (IxInitializeMerkleTree k) = k"
| "instruction_signer (IxDepositNote k _ _ _) = k"
| "instruction_signer (IxDepositNoteSpl k _ _ _ _ _) = k"
| "instruction_signer (IxTransact k _ _ _) = k"
| "instruction_signer (IxTransactSpl k _ _ _) = k"
| "instruction_signer (IxPause k) = k"
| "instruction_signer (IxUnpause k) = k"
| "instruction_signer (IxSetBridgeAuthority k _) = k"
| "instruction_signer (IxSetDepositCap k _) = k"
| "instruction_signer (IxSetMinTokenStake k _) = k"
| "instruction_signer (IxRegisterValidator k _ _ _ _) = k"
| "instruction_signer (IxUnregisterValidator k) = k"
| "instruction_signer (IxUpdateReputation k _ _ _) = k"
| "instruction_signer (IxClaimRewards k) = k"
| "instruction_signer (IxSlashValidator k _ _ _ _) = k"
| "instruction_signer (IxInitializeValidatorRegistry k _) = k"
| "instruction_signer (IxInitStakeTokenVault k _) = k"
| "instruction_signer (IxInitAssetVault k _) = k"
| "instruction_signer (IxSetAssetDepositCap k _ _) = k"
| "instruction_signer (IxResetValidatorRegistry k _ _ _ _) = k"
| "instruction_signer (IxDeactivateValidator k _) = k"
| "instruction_signer (IxWithdrawUnbondedStake k _ _) = k"

text \<open>The accounts passed in \<open>remaining_accounts\<close>, and that they carry the ledger's data: an
  account owned by the program at the address of a validator account deserialises to it.\<close>

fun instruction_infos :: "instruction \<Rightarrow> account_info list" where
  "instruction_infos (IxTransact _ _ infos _) = infos"
| "instruction_infos (IxTransactSpl _ _ infos _) = infos"
| "instruction_infos (IxResetValidatorRegistry _ _ _ infos _) = infos"
| "instruction_infos _ = []"

definition infos_reflect :: "runtime \<Rightarrow> chain \<Rightarrow> account_info list \<Rightarrow> bool" where
  "infos_reflect rt c infos \<longleftrightarrow>
     (\<forall>info\<in>set infos. \<forall>w. ai_owner info = program_id rt \<longrightarrow> ai_key info = validator_key rt w \<longrightarrow>
        validator_try_deserialize rt (ai_data info) = validator_accounts c w)"

section \<open>Steps and runs\<close>

definition off_curve :: "runtime \<Rightarrow> pubkey \<Rightarrow> bool" where
  "off_curve rt k \<longleftrightarrow> (\<exists>seeds. k = pda rt seeds)"

text \<open>What other programs can do: they cannot write this program's accounts, and without its
  signature they can neither debit its addresses nor the token accounts it owns.\<close>

definition environment :: "runtime \<Rightarrow> chain \<Rightarrow> chain \<Rightarrow> bool" where
  "environment rt c c' \<longleftrightarrow>
     bridge_state c' = bridge_state c \<and> merkle_tree c' = merkle_tree c \<and>
     validator_registry c' = validator_registry c \<and>
     validator_accounts c' = validator_accounts c \<and>
     nullifier_accounts c' = nullifier_accounts c \<and> asset_configs c' = asset_configs c \<and>
     (\<forall>k. off_curve rt k \<longrightarrow> lamports c k \<le> lamports c' k) \<and>
     (\<forall>k ta. tokens c k = Some ta \<longrightarrow> off_curve rt (ta_owner ta) \<longrightarrow>
        (\<exists>ta'. tokens c' k = Some ta' \<and> ta_owner ta' = ta_owner ta \<and> ta_mint ta' = ta_mint ta \<and>
           ta_amount ta \<le> ta_amount ta')) \<and>
     (\<forall>k. off_curve rt k \<longrightarrow> tokens c k = None \<longrightarrow> tokens c' k = None)"

datatype label = Executed clock instruction event | Other

text \<open>\<open>discipline\<close> is what the operators are assumed to respect beyond what the program checks;
  it is \<open>\<lambda>c i. True\<close> wherever a theorem needs nothing of them. The total lamport supply fits a
  \<open>u64\<close>, so that no sum of balances overflows.\<close>

definition supply_ok :: "chain \<Rightarrow> bool" where
  "supply_ok c \<longleftrightarrow> (\<forall>K. finite K \<longrightarrow> (\<Sum>k\<in>K. unat (lamports c k)) < 2 ^ 64)"

inductive chain_step ::
  "runtime \<Rightarrow> (chain \<Rightarrow> instruction \<Rightarrow> bool) \<Rightarrow> chain \<Rightarrow> label \<Rightarrow> chain \<Rightarrow> bool"
  for rt discipline where
  executed: "exec rt clk i c = Ok (c', ev) \<Longrightarrow> signer_ok rt (instruction_signer i) \<Longrightarrow>
     infos_reflect rt c (instruction_infos i) \<Longrightarrow> discipline c i \<Longrightarrow> supply_ok c' \<Longrightarrow>
     chain_step rt discipline c (Executed clk i ev) c'"
| other: "environment rt c c' \<Longrightarrow> supply_ok c' \<Longrightarrow> chain_step rt discipline c Other c'"

inductive chain_run ::
  "runtime \<Rightarrow> (chain \<Rightarrow> instruction \<Rightarrow> bool) \<Rightarrow> chain \<Rightarrow> label list \<Rightarrow> chain \<Rightarrow> bool"
  for rt discipline where
  refl: "chain_run rt discipline c [] c"
| snoc: "chain_run rt discipline c ls c' \<Longrightarrow> chain_step rt discipline c' l c'' \<Longrightarrow>
     chain_run rt discipline c (ls @ [l]) c''"

text \<open>A ledger on which the program is deployed and nothing is initialised.\<close>

definition genesis :: "runtime \<Rightarrow> chain \<Rightarrow> bool" where
  "genesis rt c \<longleftrightarrow>
     bridge_state c = None \<and> merkle_tree c = None \<and> validator_registry c = None \<and>
     validator_accounts c = Map.empty \<and> nullifier_accounts c = Map.empty \<and>
     asset_configs c = Map.empty \<and> (\<forall>k. off_curve rt k \<longrightarrow> tokens c k = None) \<and> supply_ok c"

inductive_cases chain_step_ExecutedE: "chain_step rt discipline c (Executed clk i ev) c'"
inductive_cases chain_step_OtherE: "chain_step rt discipline c Other c'"

lemma silent_Ok: "silent m = Ok (c', ev) \<longleftrightarrow> m = Ok c' \<and> ev = NoEvent"
  by (auto simp: silent_def rust_simps)

text \<open>An invariant of every step from a genesis ledger holds along every run.\<close>

lemma chain_run_invariant:
  assumes "chain_run rt D c ls c'" and "I c"
    and "\<And>c l c'. chain_step rt D c l c' \<Longrightarrow> I c \<Longrightarrow> I c'"
  shows "I c'"
  using assms by (induction rule: chain_run.induct) blast+

section \<open>Instructions that move no user or validator funds\<close>

text \<open>The deposited and withdrawn totals, zero before the bridge exists.\<close>

definition books :: "chain \<Rightarrow> nat \<times> nat" where
  "books c = (case bridge_state c of None \<Rightarrow> (0, 0)
     | Some bs \<Rightarrow> (unat (bs_total_deposited bs), unat (bs_total_withdrawn bs)))"

text \<open>A quiet step keeps the validator and nullifier accounts and the totals, and debits no
  program-derived address.\<close>

definition quiet :: "runtime \<Rightarrow> chain \<Rightarrow> chain \<Rightarrow> bool" where
  "quiet rt c c' \<longleftrightarrow>
     validator_accounts c' = validator_accounts c \<and>
     nullifier_accounts c' = nullifier_accounts c \<and>
     books c' = books c \<and>
     (\<forall>k. off_curve rt k \<longrightarrow> lamports c k \<le> lamports c' k)"

lemma off_curve_keys [simp]:
  "off_curve rt (validator_key rt w)" "off_curve rt (bridge_vault_key rt)"
  "off_curve rt (slashed_funds_vault_key rt)" "off_curve rt (nullifier_key rt n)"
  "off_curve rt (stake_vault_authority_key rt)" "off_curve rt (stake_token_vault_key rt)"
  "off_curve rt (asset_vault_key rt m)" "off_curve rt (asset_vault_authority_key rt)"
  "off_curve rt (bridge_state_key rt)" "off_curve rt (validator_registry_key rt)"
  "off_curve rt (merkle_tree_key rt)" "off_curve rt (asset_config_key rt m)"
  by (auto simp: off_curve_def validator_key_def bridge_vault_key_def slashed_funds_vault_key_def
      nullifier_key_def stake_vault_authority_key_def stake_token_vault_key_def asset_vault_key_def
      asset_vault_authority_key_def bridge_state_key_def validator_registry_key_def
      merkle_tree_key_def asset_config_key_def)

lemma signer_off_curve: "signer_ok rt k \<Longrightarrow> off_curve rt k' \<Longrightarrow> k \<noteq> k'"
  unfolding signer_ok_def off_curve_def by blast

lemma anchor_init_mono:
  assumes "runtime_ok rt" and "anchor_init rt payer acct space lam = Some lam'"
    and "signer_ok rt payer" and "off_curve rt acct"
  shows "\<forall>k. off_curve rt k \<longrightarrow> lam k \<le> lam' k"
  using anchor_initD(5) [OF assms(1) _ assms(2)] signer_off_curve [OF assms(3)] assms(4) by metis

lemma init_token_mono:
  assumes "runtime_ok rt"
    and "init_token_account rt payer acct mint authority (lam, ts) = Some (lam', ts')"
    and "signer_ok rt payer"
  shows "\<forall>k. off_curve rt k \<longrightarrow> lam k \<le> lam' k"
  using init_token_accountD(2) [OF assms(1,2)] signer_off_curve [OF assms(3)] by metis

lemma transfer_mono:
  assumes "runtime_ok rt" and "system_transfer rt src dst amount lam = Some lam'"
    and "signer_ok rt src"
  shows "\<forall>k. off_curve rt k \<longrightarrow> lam k \<le> lam' k"
  using moved_src_le [OF system_transfer_moved [OF runtime_okD(1) [OF assms(1)] assms(2)]]
    signer_off_curve [OF assms(3)] by metis

fun is_quiet :: "instruction \<Rightarrow> bool" where
  "is_quiet (IxInitialize _ _ _) = True"
| "is_quiet (IxInitializeMerkleTree _) = True"
| "is_quiet (IxPause _) = True"
| "is_quiet (IxUnpause _) = True"
| "is_quiet (IxSetBridgeAuthority _ _) = True"
| "is_quiet (IxSetDepositCap _ _) = True"
| "is_quiet (IxSetMinTokenStake _ _) = True"
| "is_quiet (IxInitializeValidatorRegistry _ _) = True"
| "is_quiet (IxInitStakeTokenVault _ _) = True"
| "is_quiet (IxInitAssetVault _ _) = True"
| "is_quiet (IxSetAssetDepositCap _ _ _) = True"
| "is_quiet (IxResetValidatorRegistry _ _ _ _ _) = True"
| "is_quiet (IxDepositNoteSpl _ _ _ _ _ _) = True"
| "is_quiet _ = False"

fun is_reset :: "instruction \<Rightarrow> bool" where
  "is_reset (IxResetValidatorRegistry _ _ _ _ _) = True"
| "is_reset _ = False"

lemma top_up_Ok:
  "(if P then transfer_lamports rt src dst n c else Ok c) = Ok c' \<longleftrightarrow>
     (\<exists>lam. (if P then system_transfer rt src dst n (lamports c) = Some lam else lam = lamports c) \<and>
        c' = c\<lparr>lamports := lam\<rparr>)"
  by (auto simp: rust_simps)

lemma reset_validator_registry_OkE:
  assumes "reset_validator_registry rt clk authority mint expected infos data c = Ok (c', ev)"
  obtains lam amount active where
    "check_upgrade_authority rt (program_data c) authority = Ok ()"
    "lam = lamports c \<or> (\<exists>n. system_transfer rt authority (validator_registry_key rt) n (lamports c)
       = Some lam)"
    "reset_loop rt infos [] 0 0 = Ok (amount, active)" "active = expected"
    "c' = c\<lparr>lamports := lam, validator_registry := Some \<lparr> vr_authority = authority,
       vr_total_validators = active, vr_active_validators = active,
       vr_minimum_stake = MIN_VALIDATOR_STAKE, vr_total_active_stake = amount,
       vr_stake_mint = mint, vr_min_token_stake = RECOMMENDED_MIN_TOKEN_STAKE \<rparr>\<rparr>"
    "ev = RegistryReset authority active amount (unix_timestamp clk)"
proof -
  let ?P = "lamports c (validator_registry_key rt)
      < minimum_balance rt (8 + ValidatorRegistry_INIT_SPACE)"
  obtain c1 amount active where steps:
    "check_upgrade_authority rt (program_data c) authority = Ok ()"
    "(if ?P then transfer_lamports rt authority (validator_registry_key rt)
        (minimum_balance rt (8 + ValidatorRegistry_INIT_SPACE)
          - lamports c (validator_registry_key rt)) c else Ok c) = Ok c1"
    "reset_loop rt infos [] 0 0 = Ok (amount, active)" "active = expected"
    "c' = c1\<lparr>validator_registry := Some \<lparr> vr_authority = authority,
       vr_total_validators = active, vr_active_validators = active,
       vr_minimum_stake = MIN_VALIDATOR_STAKE, vr_total_active_stake = amount,
       vr_stake_mint = mint, vr_min_token_stake = RECOMMENDED_MIN_TOKEN_STAKE \<rparr>\<rparr>"
    "ev = RegistryReset authority active amount (unix_timestamp clk)"
    using assms by (auto simp: reset_validator_registry_def Let_def and_then_eq_Ok require_eq_Ok)
  from steps(2) [unfolded top_up_Ok] obtain lam where
    l: "if ?P then system_transfer rt authority (validator_registry_key rt)
        (minimum_balance rt (8 + ValidatorRegistry_INIT_SPACE)
          - lamports c (validator_registry_key rt)) (lamports c) = Some lam
        else lam = lamports c" "c1 = c\<lparr>lamports := lam\<rparr>" by (elim exE conjE)
  then have "lam = lamports c \<or> (\<exists>n. system_transfer rt authority (validator_registry_key rt) n
      (lamports c) = Some lam)" by (auto split: if_splits)
  then show thesis using steps l(2) by (intro that) simp_all
qed

lemmas quiet_admin = silent_Ok initialize_Ok initialize_merkle_tree_Ok pause_Ok unpause_Ok
  set_bridge_authority_Ok set_deposit_cap_Ok set_min_token_stake_Ok
  initialize_validator_registry_Ok init_stake_token_vault_Ok init_asset_vault_Ok
  set_asset_deposit_cap_Ok

lemma mono_trans:
  fixes f g h :: "'k \<Rightarrow> u64"
  shows "\<forall>k. P k \<longrightarrow> f k \<le> g k \<Longrightarrow> \<forall>k. P k \<longrightarrow> g k \<le> h k \<Longrightarrow> \<forall>k. P k \<longrightarrow> f k \<le> h k"
  by (meson order_trans)

lemma quiet_exec:
  assumes "runtime_ok rt" and "signer_ok rt (instruction_signer i)" and "is_quiet i"
    and "exec rt clk i c = Ok (c', ev)"
  shows "quiet rt c c'"
  using assms(2-4)
  by (cases i) (auto simp: quiet_admin quiet_def books_def
      elim!: reset_validator_registry_OkE deposit_note_spl_OkE
      dest!: anchor_init_mono [OF assms(1)] init_token_mono [OF assms(1)] transfer_mono [OF assms(1)]
      dest: mono_trans)

lemma quiet_environment: "environment rt c c' \<Longrightarrow> quiet rt c c'"
  by (simp add: environment_def quiet_def books_def)


section \<open>The lamport effects of the other instructions\<close>

lemma transact_spl_effect:
  assumes "runtime_ok rt" and "signer_ok rt authority"
    and "transact_spl rt clk authority accts infos s c = Ok (c', ev)"
  obtains bs va where
    "bridge_state c = Some bs" "validator_accounts c authority = Some va"
    "bridge_state c' = Some (bs\<lparr>bs_withdrawal_count :=
       saturating_add (bs_withdrawal_count bs) 1\<rparr>)"
    "validator_accounts c' = (validator_accounts c)(authority \<mapsto> credit_task clk va)"
    "validator_registry c' = validator_registry c"
    "\<forall>k. off_curve rt k \<longrightarrow> lamports c k \<le> lamports c' k"
  using assms(3)
proof (rule transact_spl_OkE)
  fix bs tree decimals asset_vault va registry c1 c2 c3 new_root fee c4
  assume acc: "bridge_state c = Some bs" "validator_accounts c authority = Some va"
    and i0: "init_nullifier rt authority (st_nullifier0 s) c = Ok c1"
    and i1: "init_nullifier rt authority (st_nullifier1 s) c1 = Ok c2"
    and rec: "record_settlement rt clk (saturating_add (bs_withdrawal_count bs) 1) s tree c2
      = Ok (c3, new_root)"
    and pay: "spl_payout rt (sa_mint accts) decimals asset_vault (sa_recipient_token_account accts)
       (sa_fee_token_account accts) (st_ext_amount s) c3 = Ok (fee, c4)"
    and c': "c' = c4\<lparr>validator_accounts := (validator_accounts c4)(authority \<mapsto> credit_task clk va),
      bridge_state := Some (bs\<lparr>bs_withdrawal_count := saturating_add (bs_withdrawal_count bs) 1\<rparr>)\<rparr>"
  have m0: "\<forall>k. off_curve rt k \<longrightarrow> lamports c k \<le> lamports c1 k"
    using i0 anchor_init_mono [OF assms(1) _ assms(2)] by (auto simp: init_nullifier_Ok)
  have m1: "\<forall>k. off_curve rt k \<longrightarrow> lamports c1 k \<le> lamports c2 k"
    using i1 anchor_init_mono [OF assms(1) _ assms(2)] by (auto simp: init_nullifier_Ok)
  have c3: "lamports c3 = lamports c2" "validator_accounts c3 = validator_accounts c2"
    "validator_registry c3 = validator_registry c2"
    using rec by (auto simp: record_settlement_Ok)
  have c4: "lamports c4 = lamports c3" "validator_accounts c4 = validator_accounts c3"
    "validator_registry c4 = validator_registry c3"
    by (subst spl_payout_frame [OF pay], simp)+
  show thesis
    using that [OF acc] c' c3 c4 mono_trans [OF m0 m1] init_nullifier_frame [OF i0]
      init_nullifier_frame [OF i1] by simp
qed

lemma register_lamports:
  assumes "runtime_ok rt" and "signer_ok rt w"
    and "anchor_init rt w (validator_key rt w) n lam = Some lam1"
    and "system_transfer rt w (validator_key rt w) stake lam1 = Some lam2"
  shows "\<forall>k. off_curve rt k \<longrightarrow> lam k \<le> lam2 k"
    and "unat (minimum_balance rt n) + unat stake \<le> unat (lam2 (validator_key rt w))"
proof -
  have ne: "w \<noteq> validator_key rt w" using assms(2) by simp
  show "\<forall>k. off_curve rt k \<longrightarrow> lam k \<le> lam2 k"
    using mono_trans [OF anchor_init_mono [OF assms(1,3,2)] transfer_mono [OF assms(1,4,2)]] by simp
  show "unat (minimum_balance rt n) + unat stake \<le> unat (lam2 (validator_key rt w))"
    using anchor_initD(1) [OF assms(1) ne assms(3)]
      system_transferD(4) [OF runtime_okD(1) [OF assms(1)] assms(4) ne]
    by (simp add: word_le_nat_alt)
qed

end
