(* ===== verification/Example_Run.thy ===== *)
theory Example_Run
  imports Chain_Runs
begin

text \<open>
  A concrete run of the program on the reference runtime, from a deployed but uninitialised
  ledger: the three initialisations, two registrations, a deposit and a settlement signed by the
  bridge authority and co-signed by the other validator. It shows that the hypotheses of the
  theorems about runs can be met by a run in which money moves.
\<close>

section \<open>The actors\<close>

definition alice :: pubkey where "alice = replicate 32 1"

definition bob :: pubkey where "bob = replicate 32 2"

definition carol :: pubkey where "carol = replicate 32 4"

definition run_mint :: pubkey where "run_mint = replicate 32 6"

definition alice_tokens :: pubkey where "alice_tokens = replicate 32 11"

definition bob_tokens :: pubkey where "bob_tokens = replicate 32 12"

abbreviation run_clock :: clock where "run_clock \<equiv> \<lparr> slot = 10, unix_timestamp = 99 \<rparr>"

lemmas actor_defs = alice_def bob_def carol_def run_mint_def alice_tokens_def bob_tokens_def

lemma actors [simp]:
  "length alice = 32" "length bob = 32" "alice \<noteq> bob" "bob \<noteq> alice"
  "alice_tokens \<noteq> bob_tokens" "bob_tokens \<noteq> alice_tokens"
  by (simp_all add: actor_defs)

lemma actors_signer_ok [simp]:
  "signer_ok ref_runtime alice" "signer_ok ref_runtime bob" "signer_ok ref_runtime carol"
  "signer_ok ref_runtime alice_tokens" "signer_ok ref_runtime bob_tokens"
  by (simp_all add: actor_defs ref_signer_ok)

text \<open>The program's addresses the run touches; the ledger starts with all of them rent-exempt.\<close>

definition program_keys :: "pubkey list" where
  "program_keys = [bridge_state_key ref_runtime, bridge_vault_key ref_runtime,
     merkle_tree_key ref_runtime, validator_registry_key ref_runtime,
     stake_token_vault_key ref_runtime, validator_key ref_runtime alice,
     validator_key ref_runtime bob, nullifier_key ref_runtime (le_bytes 32 11),
     nullifier_key ref_runtime (le_bytes 32 12)]"

definition start_lamports :: balances where
  "start_lamports = (\<lambda>k. if k \<in> set (alice # bob # program_keys) then 10000000000 else 0)"

definition start_tokens :: token_accounts where
  "start_tokens = [alice_tokens \<mapsto> \<lparr> ta_mint = run_mint, ta_owner = alice, ta_amount = 10000000000000 \<rparr>,
     bob_tokens \<mapsto> \<lparr> ta_mint = run_mint, ta_owner = bob, ta_amount = 10000000000000 \<rparr>]"

definition start_chain :: chain where
  "start_chain =
     \<lparr> lamports = start_lamports, account_owner = (\<lambda>k. zero32), tokens = start_tokens,
       mint_decimals = [run_mint \<mapsto> 6], program_data = example_program_data alice,
       bridge_state = None, merkle_tree = None, validator_registry = None,
       validator_accounts = Map.empty, nullifier_accounts = Map.empty,
       asset_configs = Map.empty \<rparr>"

section \<open>Balances along the run\<close>

definition bounded_supply :: "balances \<Rightarrow> bool" where
  "bounded_supply lam \<longleftrightarrow> (\<forall>K. finite K \<longrightarrow> (\<Sum>k\<in>K. unat (lam k)) < 2 ^ 64)"

lemma supply_ok_bounded: "supply_ok c \<longleftrightarrow> bounded_supply (lamports c)"
  by (simp add: supply_ok_def bounded_supply_def)

definition funded :: "nat \<Rightarrow> balances \<Rightarrow> bool" where
  "funded n lam \<longleftrightarrow> bounded_supply lam \<and> n \<le> unat (lam alice) \<and> n \<le> unat (lam bob) \<and>
     (\<forall>k\<in>set program_keys. 1000000 \<le> unat (lam k))"

lemma moved_sum:
  assumes "moved src dst n lam lam'" and "src \<noteq> dst" and "finite K" and "{src, dst} \<subseteq> K"
  shows "(\<Sum>k\<in>K. unat (lam' k)) = (\<Sum>k\<in>K. unat (lam k))"
proof -
  have split: "(\<Sum>k\<in>K. f k) = f src + f dst + (\<Sum>k\<in>K - {src} - {dst}. f k)" for f :: "pubkey \<Rightarrow> nat"
    using assms(2-4) sum.remove [of K src f] sum.remove [of "K - {src}" dst f] by simp
  have "(\<Sum>k\<in>K - {src} - {dst}. unat (lam' k)) = (\<Sum>k\<in>K - {src} - {dst}. unat (lam k))"
    using assms(1,2) by (intro sum.cong) (auto simp: moved_def)
  then show ?thesis using assms(1,2) by (simp add: split moved_def)
qed

lemma bounded_supply_moved:
  assumes "moved src dst n lam lam'" and "bounded_supply lam"
  shows "bounded_supply lam'"
  unfolding bounded_supply_def
proof (intro allI impI)
  fix K :: "pubkey set" assume K: "finite K"
  show "(\<Sum>k\<in>K. unat (lam' k)) < 2 ^ 64"
  proof (cases "src = dst")
    case True
    then have "lam' = lam" using assms(1) by (simp add: moved_def)
    then show ?thesis using assms(2) K unfolding bounded_supply_def by blast
  next
    case False
    let ?K = "insert src (insert dst K)"
    have "(\<Sum>k\<in>K. unat (lam' k)) \<le> (\<Sum>k\<in>?K. unat (lam' k))"
      using K by (intro sum_mono2) (simp_all add: subset_insertI2)
    also have "\<dots> = (\<Sum>k\<in>?K. unat (lam k))"
      using K by (intro moved_sum [OF assms(1) False]) simp_all
    also have "\<dots> < 2 ^ 64"
      using assms(2) K unfolding bounded_supply_def by (metis finite_insert)
    finally show ?thesis .
  qed
qed

text \<open>Initialising a rent-exempt address costs nothing; a funded wallet can always pay.\<close>

lemma fundedD:
  assumes "funded n lam"
  shows "bounded_supply lam" and "n \<le> unat (lam alice)" and "n \<le> unat (lam bob)"
    and "k \<in> set program_keys \<Longrightarrow> 1000000 \<le> unat (lam k)"
  using assms by (simp_all add: funded_def)

lemma funded_init:
  assumes "funded n lam" and "acct \<in> set program_keys" and "space \<le> 1000000"
  shows "ref_anchor_init payer acct space lam = Some lam"
proof -
  have le: "space \<le> unat (lam acct)" using fundedD(4) [OF assms(1,2)] assms(3) by linarith
  then have "unat (of_nat space :: u64) = space"
    using unat_u64_bound [of "lam acct"] by (simp add: unat_of_nat take_bit_nat_eq_self)
  then have "saturating_sub (of_nat space) (lam acct) = 0"
    using le by (simp add: word_unat_eq_iff unat_saturating_sub)
  then show ?thesis
    using unat_u64_bound [of "lam acct"]
    by (simp add: ref_anchor_init_def ref_system_transfer_def checked_add_def)
qed

lemma ref_transfer_succeeds:
  assumes "bounded_supply lam" and "amount \<le> lam src"
  shows "\<exists>lam'. ref_system_transfer src dst amount lam = Some lam' \<and>
    moved src dst (unat amount) lam lam' \<and> bounded_supply lam'"
proof -
  have "\<exists>lam'. ref_system_transfer src dst amount lam = Some lam'"
  proof (cases "src = dst")
    case False
    have "(\<Sum>k\<in>{src, dst}. unat (lam k)) < 2 ^ 64"
      using assms(1) unfolding bounded_supply_def by (metis finite.emptyI finite_insert)
    then have "unat (lam dst) + unat amount < 2 ^ 64"
      using False assms(2) by (simp add: word_le_nat_alt)
    then show ?thesis using False assms(2) by (simp add: ref_system_transfer_def checked_add_def)
  qed (use assms(2) in \<open>simp add: ref_system_transfer_def\<close>)
  then obtain lam' where t: "ref_system_transfer src dst amount lam = Some lam'" by blast
  then have "moved src dst (unat amount) lam lam'"
    using system_transfer_moved [of ref_runtime] by simp
  then show ?thesis using t bounded_supply_moved [OF _ assms(1)] by blast
qed

lemma funded_pay:
  assumes "funded n lam" and "src = alice \<or> src = bob" and "dst \<in> set program_keys"
    and "unat amount \<le> n"
  shows "\<exists>lam'. ref_system_transfer src dst amount lam = Some lam' \<and>
    funded (n - unat amount) lam'"
proof -
  note funds = fundedD [OF assms(1)]
  have a: "amount \<le> lam src" using assms(2,4) funds(2,3) by (auto simp: word_le_nat_alt)
  obtain lam' where t: "ref_system_transfer src dst amount lam = Some lam'"
    "moved src dst (unat amount) lam lam'" "bounded_supply lam'"
    using ref_transfer_succeeds [OF funds(1) a] by blast
  have "off_curve ref_runtime k" if "k \<in> set program_keys" for k
    using that by (auto simp: program_keys_def)
  then have ne: "k \<noteq> alice" "k \<noteq> bob" if "k \<in> set program_keys" for k
    using that signer_off_curve [OF actors_signer_ok(1)] signer_off_curve [OF actors_signer_ok(2)]
    by blast+
  have keep: "n - unat amount \<le> unat (lam' k)" if "k = alice \<or> k = bob" for k
    using t(2) assms(2,4) funds(2,3) ne [OF assms(3)] that
    by (cases "k = src") (auto simp: moved_def)
  have "1000000 \<le> unat (lam' k)" if "k \<in> set program_keys" for k
  proof -
    have "unat (lam k) \<le> unat (lam' k)"
      using t(2) ne [OF that] ne [OF assms(3)] assms(2) by (cases "k = dst") (auto simp: moved_def)
    then show ?thesis using funds(4) [OF that] by linarith
  qed
  then show ?thesis using t(1,3) keep by (simp add: funded_def)
qed

section \<open>The states of the run\<close>

text \<open>\<open>c\<close> agrees with \<open>d\<close> on everything but balances and owners, of which only what the next
  steps need is kept.\<close>

definition ledger :: "nat \<Rightarrow> chain \<Rightarrow> chain \<Rightarrow> bool" where
  "ledger n d c \<longleftrightarrow> funded n (lamports c) \<and>
     account_owner c (bridge_vault_key ref_runtime) = zero32 \<and> account_owner c carol = zero32 \<and>
     tokens c = tokens d \<and> mint_decimals c = mint_decimals d \<and> program_data c = program_data d \<and>
     bridge_state c = bridge_state d \<and> merkle_tree c = merkle_tree d \<and>
     validator_registry c = validator_registry d \<and> validator_accounts c = validator_accounts d \<and>
     nullifier_accounts c = nullifier_accounts d \<and> asset_configs c = asset_configs d"

definition run_bridge :: BridgeState where
  "run_bridge = \<lparr> bs_program_version = 1, bs_authority = alice, bs_total_deposited = 0,
     bs_total_withdrawn = 0, bs_deposit_count = 0, bs_withdrawal_count = 0, bs_paused = False,
     bs_merkle_root = zero32, bs_deposit_cap = 0 \<rparr>"

definition run_registry :: "u64 \<Rightarrow> ValidatorRegistry" where
  "run_registry n = \<lparr> vr_authority = alice, vr_total_validators = n, vr_active_validators = n,
     vr_minimum_stake = MIN_VALIDATOR_STAKE, vr_total_active_stake = n * MIN_VALIDATOR_STAKE,
     vr_stake_mint = run_mint, vr_min_token_stake = RECOMMENDED_MIN_TOKEN_STAKE \<rparr>"

definition run_member :: "pubkey \<Rightarrow> ValidatorAccount" where
  "run_member k =
     new_validator_account run_clock k MIN_VALIDATOR_STAKE RECOMMENDED_MIN_TOKEN_STAKE"

definition run_vault :: "u64 \<Rightarrow> token_account" where
  "run_vault n = \<lparr> ta_mint = run_mint, ta_owner = stake_vault_authority_key ref_runtime,
     ta_amount = n * RECOMMENDED_MIN_TOKEN_STAKE \<rparr>"

definition deployed_chain :: chain where
  "deployed_chain = start_chain\<lparr>bridge_state := Some run_bridge\<rparr>"

definition tree_chain :: chain where
  "tree_chain = deployed_chain\<lparr>merkle_tree := Some initialize_tree\<rparr>"

definition registry_chain :: chain where
  "registry_chain = tree_chain\<lparr>validator_registry := Some (run_registry 0),
     tokens := start_tokens(stake_token_vault_key ref_runtime \<mapsto> run_vault 0)\<rparr>"

definition capped_chain :: chain where
  "capped_chain = registry_chain\<lparr>bridge_state := Some (run_bridge\<lparr>bs_deposit_cap := - 1\<rparr>)\<rparr>"

lemmas run_chain_defs = capped_chain_def registry_chain_def tree_chain_def deployed_chain_def
  start_chain_def

lemma vault_key_distinct [simp]:
  "bridge_vault_key ref_runtime \<noteq> bridge_state_key ref_runtime"
  "bridge_vault_key ref_runtime \<noteq> merkle_tree_key ref_runtime"
  "bridge_vault_key ref_runtime \<noteq> validator_registry_key ref_runtime"
  "bridge_vault_key ref_runtime \<noteq> validator_key ref_runtime w"
  "bridge_vault_key ref_runtime \<noteq> nullifier_key ref_runtime nf"
  by (simp_all add: bridge_vault_key_def bridge_state_key_def merkle_tree_key_def
      validator_registry_key_def validator_key_def nullifier_key_def ref_pda ascii_def)

lemma actors_off_curve [simp]:
  assumes "off_curve ref_runtime k"
  shows "alice \<noteq> k" "bob \<noteq> k" "carol \<noteq> k" "alice_tokens \<noteq> k" "bob_tokens \<noteq> k"
    "k \<noteq> alice" "k \<noteq> bob" "k \<noteq> carol" "k \<noteq> alice_tokens" "k \<noteq> bob_tokens"
  using actors_signer_ok [THEN signer_off_curve, OF assms] by auto

lemma run_authority [simp]:
  "check_upgrade_authority ref_runtime (example_program_data alice) alice = Ok ()"
  by (rule example_upgrade_authority) simp

section \<open>The steps\<close>

lemma run_initialize:
  assumes "ledger n start_chain c"
  shows "\<exists>c'. exec ref_runtime clk (IxInitialize alice 1 zero32) c = Ok (c', NoEvent) \<and>
    ledger n deployed_chain c'"
proof -
  have "funded n (lamports c)" using assms by (simp add: ledger_def)
  then have "ref_anchor_init alice (bridge_state_key ref_runtime) (8 + BridgeState_INIT_SPACE)
      (lamports c) = Some (lamports c)"
    by (rule funded_init) (simp_all add: program_keys_def BridgeState_INIT_SPACE_def)
  then show ?thesis
    using assms by (simp add: silent_Ok initialize_Ok ledger_def run_chain_defs run_bridge_def)
qed

lemma run_initialize_merkle_tree:
  assumes "ledger n deployed_chain c"
  shows "\<exists>c'. exec ref_runtime clk (IxInitializeMerkleTree alice) c = Ok (c', NoEvent) \<and>
    ledger n tree_chain c'"
proof -
  have "funded n (lamports c)" using assms by (simp add: ledger_def)
  then have "ref_anchor_init alice (merkle_tree_key ref_runtime) (8 + MERKLE_TREE_SIZE)
      (lamports c) = Some (lamports c)"
    by (rule funded_init) (simp_all add: program_keys_def MERKLE_TREE_SIZE_def TREE_DEPTH_def
        ROOT_HISTORY_SIZE_def)
  then show ?thesis
    using assms by (simp add: silent_Ok initialize_merkle_tree_Ok ledger_def run_chain_defs)
qed

lemma run_initialize_registry:
  assumes "ledger n tree_chain c"
  shows "\<exists>c'. exec ref_runtime clk (IxInitializeValidatorRegistry alice run_mint) c = Ok (c', NoEvent) \<and>
    ledger n registry_chain c'"
proof -
  have f: "funded n (lamports c)" using assms by (simp add: ledger_def)
  then have "ref_anchor_init alice (validator_registry_key ref_runtime)
      (8 + ValidatorRegistry_INIT_SPACE) (lamports c) = Some (lamports c)"
    by (rule funded_init) (simp_all add: program_keys_def ValidatorRegistry_INIT_SPACE_def)
  moreover have "ref_anchor_init alice (stake_token_vault_key ref_runtime) 165 (lamports c)
      = Some (lamports c)"
    using f by (rule funded_init) (simp_all add: program_keys_def)
  ultimately show ?thesis
    using assms
    by (simp add: silent_Ok initialize_validator_registry_Ok ref_init_token_account_def ledger_def
        run_chain_defs run_registry_def run_vault_def start_tokens_def)
qed

lemma run_set_cap:
  assumes "ledger n registry_chain c"
  shows "\<exists>c'. exec ref_runtime clk (IxSetDepositCap alice (- 1)) c = Ok (c', NoEvent) \<and>
    ledger n capped_chain c'"
  using assms
  by (simp add: silent_Ok set_deposit_cap_Ok ledger_def run_chain_defs run_registry_def)

text \<open>Registration of either wallet, as the \<open>k\<close>-th validator.\<close>

definition registered_chain :: "u64 \<Rightarrow> pubkey \<Rightarrow> pubkey \<Rightarrow> chain \<Rightarrow> chain" where
  "registered_chain k w wt d = d\<lparr>validator_registry := Some (run_registry (k + 1)),
     validator_accounts := (validator_accounts d)(w \<mapsto> run_member w),
     tokens := (tokens d)(
       wt \<mapsto> \<lparr> ta_mint = run_mint, ta_owner = w, ta_amount = 9000000000000 \<rparr>,
       stake_token_vault_key ref_runtime \<mapsto> run_vault (k + 1))\<rparr>"

lemma run_register:
  assumes "ledger n d c" and "w = alice \<or> w = bob" and "k = 0 \<or> k = 1" and "1000000000 \<le> n"
    and "validator_key ref_runtime w \<in> set program_keys" and "wt = alice_tokens \<or> wt = bob_tokens"
    and "validator_accounts d w = None" "validator_registry d = Some (run_registry k)"
      "mint_decimals d = [run_mint \<mapsto> 6]"
      "tokens d wt = Some \<lparr> ta_mint = run_mint, ta_owner = w, ta_amount = 10000000000000 \<rparr>"
      "tokens d (stake_token_vault_key ref_runtime) = Some (run_vault k)"
  shows "\<exists>c'. exec ref_runtime run_clock (IxRegisterValidator w run_mint wt MIN_VALIDATOR_STAKE
      RECOMMENDED_MIN_TOKEN_STAKE) c = Ok (c', ValidatorRegistered w MIN_VALIDATOR_STAKE 99) \<and>
    ledger (n - 1000000000) (registered_chain k w wt d) c'"
proof -
  have f: "funded n (lamports c)" using assms(1) by (simp add: ledger_def)
  then have init: "ref_anchor_init w (validator_key ref_runtime w)
      (8 + ValidatorAccount_INIT_SPACE) (lamports c) = Some (lamports c)"
    by (rule funded_init) (simp_all add: assms(5) ValidatorAccount_INIT_SPACE_def)
  obtain lam where pay: "ref_system_transfer w (validator_key ref_runtime w) MIN_VALIDATOR_STAKE
      (lamports c) = Some lam" "funded (n - 1000000000) lam"
    using funded_pay [OF f assms(2,5), of MIN_VALIDATOR_STAKE] assms(4)
    by (auto simp: MIN_VALIDATOR_STAKE_def)
  have ne: "wt \<noteq> stake_token_vault_key ref_runtime" using assms(6) by auto
  have tok: "ref_transfer_checked wt run_mint (stake_token_vault_key ref_runtime) w
      RECOMMENDED_MIN_TOKEN_STAKE 6 (tokens d) = Some (tokens (registered_chain k w wt d))"
    using assms(3,10,11) ne
    by (elim disjE) (simp_all add: ref_transfer_checked_def run_vault_def checked_add_def
        RECOMMENDED_MIN_TOKEN_STAKE_def registered_chain_def)
  have vault: "tokens (registered_chain k w wt d) (stake_token_vault_key ref_runtime) =
      Some (run_vault (k + 1))"
    "checked_sub (ta_amount (run_vault (k + 1))) (ta_amount (run_vault k)) =
      Some RECOMMENDED_MIN_TOKEN_STAKE"
    using assms(3)
    by (auto simp: registered_chain_def run_vault_def checked_sub_def RECOMMENDED_MIN_TOKEN_STAKE_def)
  have reg: "(run_registry k)\<lparr>
      vr_total_validators := saturating_add (vr_total_validators (run_registry k)) 1,
      vr_active_validators := saturating_add (vr_active_validators (run_registry k)) 1,
      vr_total_active_stake := saturating_add (vr_total_active_stake (run_registry k))
        MIN_VALIDATOR_STAKE\<rparr> = run_registry (k + 1)"
    using assms(3) by (auto simp: run_registry_def saturating_add_def MIN_VALIDATOR_STAKE_def)
  have acc: "RegisterValidator_accounts ref_runtime w run_mint wt c =
      Ok (c\<lparr>account_owner := (account_owner c)(validator_key ref_runtime w := program_id ref_runtime)\<rparr>,
        run_registry k, 6, run_vault k)"
    using assms(1,7-11) init
    by (simp add: RegisterValidator_accounts_Ok init_pda_Ok ledger_def run_registry_def)
  have floor: "vr_min_token_stake (run_registry k) = RECOMMENDED_MIN_TOKEN_STAKE"
    by (simp add: run_registry_def)
  show ?thesis
    using assms(1) pay tok vault reg floor
    by (simp add: register_validator_def acc transfer_lamports_def move_tokens_def ledger_def
        registered_chain_def run_member_def)
qed

definition staked_chain :: chain where
  "staked_chain = registered_chain 1 bob bob_tokens (registered_chain 0 alice alice_tokens capped_chain)"

definition deposited_chain :: "IncrementalMerkleTree \<Rightarrow> chain" where
  "deposited_chain t = staked_chain\<lparr>merkle_tree := Some t,
     bridge_state := Some (run_bridge\<lparr>bs_deposit_cap := - 1, bs_total_deposited := 100000,
       bs_deposit_count := 1\<rparr>)\<rparr>"

lemma staked_chain_sel:
  "bridge_state staked_chain = Some (run_bridge\<lparr>bs_deposit_cap := - 1\<rparr>)"
  "merkle_tree staked_chain = Some initialize_tree"
  "validator_registry staked_chain = Some (run_registry 2)"
  "validator_accounts staked_chain = [alice \<mapsto> run_member alice, bob \<mapsto> run_member bob]"
  "nullifier_accounts staked_chain = Map.empty"
  by (simp_all add: staked_chain_def registered_chain_def run_chain_defs)

lemma run_deposit:
  assumes "ledger n staked_chain c" and "100000 \<le> n"
  shows "\<exists>c' cm t r. exec ref_runtime run_clock (IxDepositNote bob 100000 (le_bytes 32 1) (le_bytes 32 2)) c
      = Ok (c', DepositNote \<lparr> de_depositor = bob, de_amount = 100000, de_commitment = cm,
           de_leaf_index = 0, de_timestamp = 99 \<rparr>) \<and>
    canonical cm \<and> tree_append ref_runtime initialize_tree cm = Ok (t, r) \<and>
    ledger (n - 100000) (deposited_chain t) c'"
proof -
  let ?v = "bridge_vault_key ref_runtime"
  have f: "funded n (lamports c)" using assms(1) by (simp add: ledger_def)
  have vault: "?v \<in> set program_keys" by (simp add: program_keys_def)
  obtain lam where pay: "ref_system_transfer bob ?v 100000 (lamports c) = Some lam"
    "funded (n - 100000) lam"
    using funded_pay [OF f _ vault, of bob 100000] assms(2) by auto
  then have "unat (lam ?v) = unat (lamports c ?v) + 100000"
    using ref_system_transferD(2) [OF pay(1)] by simp
  then have add: "checked_add (lamports c ?v) 100000 = Some (lamports c ?v + 100000)"
    using unat_u64_bound [of "lam ?v"] by (simp add: checked_add_def)
  obtain cm where cm: "commitment ref_runtime 100000 (le_bytes 32 1) (le_bytes 32 2)
      NATIVE_SOL_ASSET = Ok cm" "canonical cm" using ref_hash_commitment by blast
  obtain t r where t: "tree_append ref_runtime initialize_tree cm = Ok (t, r)"
    using ref_append_first [OF cm(2)] by blast
  have canon: "require_canonical_field ref_runtime (le_bytes 32 1) e = Ok ()"
    "require_canonical_field ref_runtime (le_bytes 32 2) e = Ok ()" for e
    by (simp_all add: rust_simps canonical_bytes_ref canonical_small)
  have acc: "DepositNote_accounts ref_runtime c =
      Ok (run_bridge\<lparr>bs_deposit_cap := - 1\<rparr>, initialize_tree)"
    using assms(1) by (simp add: DepositNote_accounts_Ok ledger_def staked_chain_sel)
  show ?thesis
    using assms(1) pay add cm t canon
    by (simp add: deposit_note_def acc transfer_lamports_def ledger_def deposited_chain_def
        run_bridge_def checked_add_def saturating_add_def initialize_tree_def)
qed

lemma run_root_known:
  assumes "tree_append ref_runtime initialize_tree cm = Ok (t, r)"
  shows "is_known_root t (ZERO_HASHES ! 32) = Some True"
  using known_empty_root known_root_iff [OF tree_repr_initialize [OF ref_zero_hashes_ok]]
    known_root_iff [OF conjunct1 [OF tree_append_repr
      [OF tree_repr_initialize [OF ref_zero_hashes_ok] assms]]]
  by fastforce

lemma run_appends_more:
  assumes "tree_append ref_runtime initialize_tree cm = Ok (t, r)" and "canonical cm"
  shows "\<exists>t1 r1 t2 r2. tree_append ref_runtime t (le_bytes 32 21) = Ok (t1, r1) \<and>
    tree_append ref_runtime t1 (le_bytes 32 22) = Ok (t2, r2)"
proof -
  have "\<exists>t'. run_appends ref_runtime [cm, le_bytes 32 21, le_bytes 32 22] initialize_tree = Ok t'"
    using assms(2) by (intro run_appends_succeeds [OF ref_poseidon_ok tree_canonical_initialize])
      (auto simp: canonical_small TREE_DEPTH_def initialize_tree_def)
  then show ?thesis using assms(1) by (auto simp: rust_simps)
qed

lemma run_member_sel [simp]:
  "va_validator (run_member k) = k" "va_stake_amount (run_member k) = MIN_VALIDATOR_STAKE"
  "va_is_active (run_member k)" "va_pending_rewards (run_member k) = 0"
  by (simp_all add: run_member_def new_validator_account_def)

lemma run_quorum:
  "verify_validator_quorum ref_runtime (run_registry 2) alice MIN_VALIDATOR_STAKE
     (cosigner_infos (run_member bob)) = Ok ()"
  using cosigner_loop [of "run_member bob" alice "[]" "[]" 0]
  by (simp add: verify_quorum_Ok run_registry_def quorum_threshold_def saturating_mul_def
      saturating_sub_def saturating_add_def MIN_VALIDATOR_STAKE_def)

lemma run_checks:
  assumes "tree_append ref_runtime initialize_tree cm = Ok (t, r)" and "\<not> bs_paused bs"
  shows "settlement_checks ref_runtime bs t (run_member alice) (run_registry 2) alice dest
    (Ok asset) (cosigner_infos (run_member bob)) example_settlement = Ok ()"
proof -
  obtain amount where "public_amount_bytes ref_runtime (- 1000) = Some amount"
    using public_amount_bytes_value [of ref_runtime "- 1000"] by auto
  moreover have "le_bytes 32 11 \<noteq> le_bytes 32 12" by (simp add: le_bytes_inject)
  moreover have "canonical (ZERO_HASHES ! 32)" by (simp add: ZERO_HASHES_canonical TREE_DEPTH_def)
  ultimately show ?thesis
    using run_quorum run_root_known [OF assms(1)] assms(2)
    by (simp add: settlement_checks_Ok settlement_input_checks_Ok example_settlement_def
        canonical_bytes_ref canonical_small MAX_PROOF_LEN_def ref_verify_transact)
qed

lemma run_payout:
  assumes "funded n (lamports c)" and "bs_total_withdrawn bs = 0"
  shows "\<exists>lam. native_payout ref_runtime carol (- 1000) (run_member alice) bs c =
      Ok (2, (run_member alice)\<lparr>va_pending_rewards := 2\<rparr>, bs\<lparr>bs_total_withdrawn := 1000\<rparr>,
        c\<lparr>lamports := lam\<rparr>) \<and> bounded_supply lam"
proof -
  have fee: "withdrawal_fee 1000 = Ok 2" by (simp add: withdrawal_fee_Ok)
  have abs: "unsigned_abs (- 1000) = 1000" by (simp add: unsigned_abs_def)
  let ?v = "bridge_vault_key ref_runtime"
  have v: "1000000 \<le> unat (lamports c ?v)"
    by (rule fundedD(4) [OF assms(1)]) (simp add: program_keys_def)
  then have le: "998 \<le> lamports c ?v" by (simp add: word_le_nat_alt)
  obtain lam where "ref_system_transfer ?v carol 998 (lamports c) = Some lam" "bounded_supply lam"
    using ref_transfer_succeeds [OF fundedD(1) [OF assms(1)] le] by blast
  then show ?thesis
    using fee abs le assms(2)
    by (intro exI [of _ lam]) (simp add: native_payout_def transfer_lamports_def checked_add_def checked_sub_def
        saturating_add_def Let_def)
qed

lemma run_init_nullifier:
  assumes "funded n (lamports c)" and "nullifier_accounts c nf = None"
    and "nullifier_key ref_runtime nf \<in> set program_keys"
  shows "\<exists>c'. init_nullifier ref_runtime payer nf c = Ok c' \<and> lamports c' = lamports c \<and>
    account_owner c' = (account_owner c)(nullifier_key ref_runtime nf := program_id ref_runtime) \<and>
    (\<forall>nf'. nf' \<noteq> nf \<longrightarrow> nullifier_accounts c' nf' = nullifier_accounts c nf')"
proof -
  have "ref_anchor_init payer (nullifier_key ref_runtime nf) (8 + NullifierAccount_INIT_SPACE)
      (lamports c) = Some (lamports c)"
    using assms(1,3) by (rule funded_init) (simp add: NullifierAccount_INIT_SPACE_def)
  then show ?thesis using assms(2) by (simp add: init_nullifier_Ok)
qed

lemma run_transact_accounts:
  assumes "ledger n (deposited_chain t) c"
  shows "\<exists>c2. Transact_accounts ref_runtime alice carol example_settlement c =
      Ok (run_bridge\<lparr>bs_deposit_cap := - 1, bs_total_deposited := 100000, bs_deposit_count := 1\<rparr>,
        t, c2, run_member alice, run_registry 2) \<and> lamports c2 = lamports c"
proof -
  have f: "funded n (lamports c)" using assms by (simp add: ledger_def)
  have fresh: "nullifier_accounts c = Map.empty"
    using assms by (simp add: ledger_def deposited_chain_def staked_chain_sel)
  have ne: "le_bytes 32 11 \<noteq> le_bytes 32 12" by (simp add: le_bytes_inject)
  have r: "carol \<noteq> nullifier_key ref_runtime nf" for nf by simp
  obtain c1 where c1: "init_nullifier ref_runtime alice (le_bytes 32 11) c = Ok c1"
    "lamports c1 = lamports c" "account_owner c1 carol = account_owner c carol"
    "nullifier_accounts c1 (le_bytes 32 12) = None"
    using run_init_nullifier [OF f, of "le_bytes 32 11" alice] fresh ne r
    by (auto simp: program_keys_def)
  obtain c2 where c2: "init_nullifier ref_runtime alice (le_bytes 32 12) c1 = Ok c2"
    "lamports c2 = lamports c" "account_owner c2 carol = account_owner c carol"
    using run_init_nullifier [of n c1 "le_bytes 32 12" alice] f c1 r by (auto simp: program_keys_def)
  show ?thesis
    using assms c1(1) c2
    by (simp add: Transact_accounts_def bridge_with_authority_def ledger_def deposited_chain_def
        staked_chain_sel run_bridge_def example_settlement_def require_system_account_def)
qed

abbreviation run_settle :: instruction where
  "run_settle \<equiv> IxTransact alice carol (cosigner_infos (run_member bob)) example_settlement"

lemma run_transact:
  assumes "ledger n (deposited_chain t) c"
    and "tree_append ref_runtime initialize_tree cm = Ok (t, r)" and "canonical cm"
  shows "\<exists>c' root bs' t'. exec ref_runtime run_clock run_settle c =
      Ok (c', settlement_event run_clock example_settlement root 2 carol 1) \<and> supply_ok c' \<and>
    merkle_tree c' = Some t' \<and> bridge_state c' = Some bs' \<and>
    bs_total_deposited bs' = 100000 \<and> bs_total_withdrawn bs' = 1000"
proof -
  let ?bs = "run_bridge\<lparr>bs_deposit_cap := - 1, bs_total_deposited := 100000, bs_deposit_count := 1\<rparr>"
  obtain c2 where c2: "Transact_accounts ref_runtime alice carol example_settlement c =
      Ok (?bs, t, c2, run_member alice, run_registry 2)" "lamports c2 = lamports c"
    using run_transact_accounts [OF assms(1)] by blast
  have checks: "settlement_checks ref_runtime ?bs t (run_member alice) (run_registry 2) alice carol
      (Ok NATIVE_SOL_ASSET) (cosigner_infos (run_member bob)) example_settlement = Ok ()"
    by (rule run_checks [OF assms(2)]) (simp add: run_bridge_def)
  obtain c3 root where c3: "record_settlement ref_runtime run_clock 1 example_settlement t c2
      = Ok (c3, root)" "lamports c3 = lamports c" "merkle_tree c3 \<noteq> None"
    using run_appends_more [OF assms(2,3)] c2(2)
    by (auto simp: record_settlement_def example_settlement_def Let_def)
  have "funded n (lamports c3)" using assms(1) c3(2) by (simp add: ledger_def)
  then obtain lam where "native_payout ref_runtime carol (- 1000) (run_member alice) ?bs c3
      = Ok (2, (run_member alice)\<lparr>va_pending_rewards := 2\<rparr>, ?bs\<lparr>bs_total_withdrawn := 1000\<rparr>,
          c3\<lparr>lamports := lam\<rparr>)" "bounded_supply lam"
    using run_payout [of n c3 ?bs] by (auto simp: run_bridge_def)
  moreover have "saturating_add (bs_withdrawal_count ?bs) 1 = 1"
    by (simp add: run_bridge_def saturating_add_def)
  moreover have "st_ext_amount example_settlement = - 1000" by (simp add: example_settlement_def)
  ultimately show ?thesis
    using c2(1) c3(1,3) checks by (auto simp: transact_def supply_ok_bounded run_bridge_def)
qed

lemma run_infos:
  assumes "ledger n (deposited_chain t) c"
  shows "infos_reflect ref_runtime c (cosigner_infos (run_member bob))"
proof -
  have "ref_validator_try_deserialize (ref_validator_serialize (run_member bob)) =
      Some (run_member bob)" by (rule ref_validator_roundtrip) simp
  moreover have "validator_accounts c bob = Some (run_member bob)"
    using assms by (simp add: ledger_def deposited_chain_def staked_chain_sel)
  ultimately show ?thesis
    by (auto simp: infos_reflect_def cosigner_infos_def zero32_def validator_key_def ref_pda)
qed

section \<open>The run\<close>

lemma start_funded: "funded 10000000000 start_lamports"
proof -
  let ?S = "set (alice # bob # program_keys)"
  have "(\<Sum>k\<in>K. unat (start_lamports k)) < 2 ^ 64" if "finite K" for K
  proof -
    have "(\<Sum>k\<in>K. unat (start_lamports k)) = (\<Sum>k\<in>K \<inter> ?S. unat (start_lamports k))"
      using that by (intro sum.mono_neutral_right) (auto simp: start_lamports_def)
    also have "\<dots> = card (K \<inter> ?S) * 10000000000"
      by (simp add: start_lamports_def)
    also have "card (K \<inter> ?S) \<le> length (alice # bob # program_keys)"
      by (rule order_trans [OF card_mono [of ?S] card_length]) auto
    finally show ?thesis by (simp add: program_keys_def)
  qed
  then show ?thesis by (simp add: funded_def bounded_supply_def start_lamports_def)
qed

lemma start_ledger: "ledger 10000000000 start_chain start_chain"
  using start_funded by (simp add: ledger_def start_chain_def)

lemma start_genesis: "genesis ref_runtime start_chain"
  using fundedD(1) [OF start_funded]
  by (auto simp: genesis_def start_chain_def start_tokens_def supply_ok_bounded
      dest: actors_off_curve(9,10))

lemma ledger_supply: "ledger n d c \<Longrightarrow> supply_ok c"
  by (simp add: ledger_def supply_ok_bounded funded_def)

text \<open>One more step of a run by an instruction without remaining accounts.\<close>

lemma run_extend:
  assumes "chain_run ref_runtime D start_chain ls c" and "\<And>c. D c i"
    and "\<exists>c'. exec ref_runtime clk i c = Ok (c', ev) \<and> ledger n d c'"
    and "signer_ok ref_runtime (instruction_signer i)" and "instruction_infos i = []"
  shows "\<exists>c'. chain_run ref_runtime D start_chain (ls @ [Executed clk i ev]) c' \<and> ledger n d c'"
proof -
  obtain c' where c': "exec ref_runtime clk i c = Ok (c', ev)" "ledger n d c'" using assms(3) by blast
  have "chain_step ref_runtime D c (Executed clk i ev) c'"
    using c' assms(2,4,5) ledger_supply by (intro chain_step.executed) (auto simp: infos_reflect_def)
  then show ?thesis using chain_run.snoc [OF assms(1)] c'(2) by blast
qed

definition setup_labels :: "label list" where
  "setup_labels =
     [Executed run_clock (IxInitialize alice 1 zero32) NoEvent,
      Executed run_clock (IxInitializeMerkleTree alice) NoEvent,
      Executed run_clock (IxInitializeValidatorRegistry alice run_mint) NoEvent,
      Executed run_clock (IxSetDepositCap alice (- 1)) NoEvent,
      Executed run_clock (IxRegisterValidator alice run_mint alice_tokens MIN_VALIDATOR_STAKE
        RECOMMENDED_MIN_TOKEN_STAKE) (ValidatorRegistered alice MIN_VALIDATOR_STAKE 99),
      Executed run_clock (IxRegisterValidator bob run_mint bob_tokens MIN_VALIDATOR_STAKE
        RECOMMENDED_MIN_TOKEN_STAKE) (ValidatorRegistered bob MIN_VALIDATOR_STAKE 99)]"

lemma setup_run:
  assumes D: "\<And>c i. \<not> is_reset i \<Longrightarrow> D c i"
  shows "\<exists>c. chain_run ref_runtime D start_chain setup_labels c \<and> ledger 8000000000 staked_chain c"
proof -
  obtain c1 where c1: "chain_run ref_runtime D start_chain [setup_labels ! 0] c1"
    "ledger 10000000000 deployed_chain c1"
    using run_extend [where clk = run_clock and D = D,
        OF chain_run.refl D run_initialize [OF start_ledger]]
    by (auto simp: setup_labels_def)
  obtain c2 where c2: "chain_run ref_runtime D start_chain (take 2 setup_labels) c2"
    "ledger 10000000000 tree_chain c2"
    using run_extend [where clk = run_clock and D = D,
        OF c1(1) D run_initialize_merkle_tree [OF c1(2)]]
    by (auto simp: setup_labels_def)
  obtain c3 where c3: "chain_run ref_runtime D start_chain (take 3 setup_labels) c3"
    "ledger 10000000000 registry_chain c3"
    using run_extend [where clk = run_clock and D = D,
        OF c2(1) D run_initialize_registry [OF c2(2)]]
    by (auto simp: setup_labels_def)
  obtain c4 where c4: "chain_run ref_runtime D start_chain (take 4 setup_labels) c4"
    "ledger 10000000000 capped_chain c4"
    using run_extend [where clk = run_clock and D = D,
        OF c3(1) D run_set_cap [OF c3(2)]]
    by (auto simp: setup_labels_def)
  obtain c5 where c5: "chain_run ref_runtime D start_chain (take 5 setup_labels) c5"
    "ledger 9000000000 (registered_chain 0 alice alice_tokens capped_chain) c5"
    using run_extend [where clk = run_clock and D = D,
        OF c4(1) D run_register [OF c4(2), of alice 0 alice_tokens]]
    by (auto simp: setup_labels_def program_keys_def run_chain_defs start_tokens_def)
  obtain c6 where c6: "chain_run ref_runtime D start_chain (take 6 setup_labels) c6"
    "ledger 8000000000 staked_chain c6"
    using run_extend [where clk = run_clock and D = D,
        OF c5(1) D run_register [OF c5(2), of bob 1 bob_tokens]]
    by (auto simp: setup_labels_def program_keys_def run_chain_defs start_tokens_def
        registered_chain_def staked_chain_def)
  then show ?thesis by (auto simp: setup_labels_def)
qed

definition deposit_label :: "bytes32 \<Rightarrow> label" where
  "deposit_label cm =
     Executed run_clock (IxDepositNote bob 100000 (le_bytes 32 1) (le_bytes 32 2))
       (DepositNote \<lparr> de_depositor = bob, de_amount = 100000, de_commitment = cm,
          de_leaf_index = 0, de_timestamp = 99 \<rparr>)"

definition settle_label :: "bytes32 \<Rightarrow> label" where
  "settle_label root =
     Executed run_clock run_settle (settlement_event run_clock example_settlement root 2 carol 1)"

text \<open>The run up to the settlement, and the settlement as its next step.\<close>

lemma example_run:
  assumes D: "\<And>c i. \<not> is_reset i \<Longrightarrow> D c i"
  shows "\<exists>c c' cm root t bs. chain_run ref_runtime D start_chain (setup_labels @ [deposit_label cm]) c \<and>
    chain_step ref_runtime D c (settle_label root) c' \<and>
    validator_accounts c = [alice \<mapsto> run_member alice, bob \<mapsto> run_member bob] \<and>
    validator_registry c = Some (run_registry 2) \<and>
    merkle_tree c' = Some t \<and> bridge_state c' = Some bs \<and>
    bs_total_deposited bs = 100000 \<and> bs_total_withdrawn bs = 1000"
proof -
  obtain c0 where c0: "chain_run ref_runtime D start_chain setup_labels c0"
    "ledger 8000000000 staked_chain c0" using setup_run [of D] D by blast
  obtain c cm t r where step: "exec ref_runtime run_clock
      (IxDepositNote bob 100000 (le_bytes 32 1) (le_bytes 32 2)) c0 = Ok (c, DepositNote
        \<lparr> de_depositor = bob, de_amount = 100000, de_commitment = cm, de_leaf_index = 0,
          de_timestamp = 99 \<rparr>)"
    and cm: "canonical cm" "tree_append ref_runtime initialize_tree cm = Ok (t, r)"
    and c: "ledger 7999900000 (deposited_chain t) c"
    using run_deposit [OF c0(2)] by auto
  have run: "chain_run ref_runtime D start_chain (setup_labels @ [deposit_label cm]) c"
    unfolding deposit_label_def using step ledger_supply [OF c]
    by (intro chain_run.snoc [OF c0(1)] chain_step.executed D) (auto simp: infos_reflect_def)
  obtain c' root bs' t' where s: "exec ref_runtime run_clock run_settle c =
      Ok (c', settlement_event run_clock example_settlement root 2 carol 1)" "supply_ok c'"
    "merkle_tree c' = Some t'" "bridge_state c' = Some bs'"
    "bs_total_deposited bs' = 100000" "bs_total_withdrawn bs' = 1000"
    using run_transact [OF c cm(2,1)] by blast
  have "chain_step ref_runtime D c (settle_label root) c'"
    unfolding settle_label_def using run_infos [OF c] s(1,2)
    by (intro chain_step.executed D) simp_all
  then show ?thesis
    using run c s(3-6) by (auto simp: ledger_def deposited_chain_def staked_chain_sel)
qed

lemma example_whole_run:
  assumes "\<And>c i. \<not> is_reset i \<Longrightarrow> D c i"
  shows "\<exists>c cm root t bs. chain_run ref_runtime D start_chain
      (setup_labels @ [deposit_label cm, settle_label root]) c \<and>
    merkle_tree c = Some t \<and> bridge_state c = Some bs \<and>
    bs_total_deposited bs = 100000 \<and> bs_total_withdrawn bs = 1000"
proof -
  obtain c c' cm root t bs where
    run: "chain_run ref_runtime D start_chain (setup_labels @ [deposit_label cm]) c"
      "chain_step ref_runtime D c (settle_label root) c'"
    and c': "merkle_tree c' = Some t" "bridge_state c' = Some bs"
      "bs_total_deposited bs = 100000" "bs_total_withdrawn bs = 1000"
    using example_run [of D] assms by blast
  from chain_run.snoc [OF run] c' show ?thesis by auto
qed

end
