(* ===== verification/Spent_Set.thy ===== *)
theory Spent_Set
  imports Prelude
begin

text \<open>
  The contract of a double-spend defence, shared by the nullifier accounts of the program and the
  nullifier set of the node: a step that spends nullifiers finds all of them unspent and distinct
  and records exactly them. What follows for every sequence of steps is proved once here.
\<close>

locale spent_set =
  fixes spent :: "'s \<Rightarrow> 'n set" and step :: "'s \<Rightarrow> 'n list \<Rightarrow> 's \<Rightarrow> bool"
  assumes step_fresh: "step s ns s' \<Longrightarrow> distinct ns \<and> set ns \<inter> spent s = {}"
    and step_spent: "step s ns s' \<Longrightarrow> spent s' = spent s \<union> set ns"
begin

fun steps :: "'s \<Rightarrow> 'n list list \<Rightarrow> 's \<Rightarrow> bool" where
  "steps s [] s' \<longleftrightarrow> s' = s"
| "steps s (ns # nss) s' \<longleftrightarrow> (\<exists>t. step s ns t \<and> steps t nss s')"

lemma steps_snoc: "steps s nss t \<Longrightarrow> step t ns s' \<Longrightarrow> steps s (nss @ [ns]) s'"
  by (induction nss arbitrary: s) auto

lemma spent_once:
  "steps s nss s' \<Longrightarrow> distinct (concat nss) \<and> set (concat nss) \<inter> spent s = {} \<and>
     spent s' = spent s \<union> set (concat nss)"
proof (induction nss arbitrary: s)
  case (Cons ns nss)
  then obtain t where t: "step s ns t" "steps t nss s'" by auto
  then show ?case
    using Cons.IH [OF t(2)] step_fresh [OF t(1)] step_spent [OF t(1)] by auto
qed simp

lemma no_second_spend: "steps s nss s' \<Longrightarrow> n \<in> set (concat nss) \<Longrightarrow> \<not> step s' (n # ns) s''"
  using spent_once step_fresh by fastforce

end

end
