(* ===== verification/Chain_History.thy ===== *)
theory Chain_History
  imports Example_Run Spent_Set
begin

text \<open>
  What a run leaves behind: the nullifiers its settlements announce are pairwise distinct and
  are exactly the recorded ones, the tree is the Merkle tree over the commitments its events
  announce, in order, and the root a settlement names is the root of a recent prefix of them.
\<close>

section \<open>What an event announces\<close>

fun event_nullifiers :: "event \<Rightarrow> bytes32 list" where
  "event_nullifiers (TransactSettled te) = [te_nullifier0 te, te_nullifier1 te]"
| "event_nullifiers _ = []"

fun event_leaves :: "event \<Rightarrow> bytes32 list" where
  "event_leaves (DepositNote de) = [de_commitment de]"
| "event_leaves (DepositNoteSpl ds) = [ds_commitment ds]"
| "event_leaves (TransactSettled te) = [te_out_commitment0 te, te_out_commitment1 te]"
| "event_leaves _ = []"

fun label_nullifiers :: "label \<Rightarrow> bytes32 list" where
  "label_nullifiers (Executed _ _ ev) = event_nullifiers ev"
| "label_nullifiers Other = []"

fun label_leaves :: "label \<Rightarrow> bytes32 list" where
  "label_leaves (Executed _ _ ev) = event_leaves ev"
| "label_leaves Other = []"

definition run_nullifiers :: "label list \<Rightarrow> bytes32 list" where
  "run_nullifiers ls = concat (map label_nullifiers ls)"

definition run_leaves :: "label list \<Rightarrow> bytes32 list" where
  "run_leaves ls = concat (map label_leaves ls)"

section \<open>Settlements and everything else\<close>

fun is_settlement :: "instruction \<Rightarrow> bool" where
  "is_settlement (IxTransact _ _ _ _) = True"
| "is_settlement (IxTransactSpl _ _ _ _) = True"
| "is_settlement _ = False"

fun instruction_settlement :: "instruction \<Rightarrow> settlement" where
  "instruction_settlement (IxTransact _ _ _ s) = s"
| "instruction_settlement (IxTransactSpl _ _ _ s) = s"

text \<open>What both settlement instructions do to the tree and the nullifiers.\<close>

lemma settlement_history:
  assumes "is_settlement i" and "exec rt clk i c = Ok (c', ev)"
  obtains tree t1 r1 t2 r2 where
    "merkle_tree c = Some tree"
    "is_known_root tree (st_root (instruction_settlement i)) = Some True"
    "tree_append rt tree (st_out0 (instruction_settlement i)) = Ok (t1, r1)"
    "tree_append rt t1 (st_out1 (instruction_settlement i)) = Ok (t2, r2)"
    "merkle_tree c' = Some t2"
    "event_leaves ev = [st_out0 (instruction_settlement i), st_out1 (instruction_settlement i)]"
    "distinct (event_nullifiers ev)" "set (event_nullifiers ev) \<inter> dom (nullifier_accounts c) = {}"
    "dom (nullifier_accounts c') = dom (nullifier_accounts c) \<union> set (event_nullifiers ev)"
proof -
  obtain authority dest asset infos where
    settled: "settled_soundly rt authority dest asset infos (instruction_settlement i) c c'"
    and ev: "event_leaves ev = [st_out0 (instruction_settlement i), st_out1 (instruction_settlement i)]"
      "event_nullifiers ev =
        [st_nullifier0 (instruction_settlement i), st_nullifier1 (instruction_settlement i)]"
  proof (cases i)
    case (IxTransact k recipient infos s)
    then have t: "transact rt clk k recipient infos s c = Ok (c', ev)" using assms(2) by simp
    have "settled_soundly rt k recipient NATIVE_SOL_ASSET infos (instruction_settlement i) c c'"
      using transact_settled [OF t] IxTransact by simp
    moreover have "\<exists>r f k n. ev = settlement_event clk s r f k n"
      using t by (elim transact_OkE) blast
    ultimately show ?thesis using that IxTransact by (auto simp: settlement_event_def)
  next
    case (IxTransactSpl k accts infos s)
    then have t: "transact_spl rt clk k accts infos s c = Ok (c', ev)" using assms(2) by simp
    then obtain asset where
      "settled_soundly rt k (sa_recipient_token_account accts) asset infos s c c'"
      using transact_spl_settled by blast
    moreover have "\<exists>r f k n. ev = settlement_event clk s r f k n"
      using t by (elim transact_spl_OkE) blast
    ultimately show ?thesis using that IxTransactSpl by (auto simp: settlement_event_def)
  qed (use assms(1) in simp_all)
  then show thesis by (auto simp: settled_soundly_def intro!: that)
qed

lemma settlement_quorum:
  assumes "is_settlement i" and "exec rt clk i c = Ok (c', ev)"
  obtains va registry where
    "validator_accounts c (instruction_signer i) = Some va" "va_is_active va"
    "validator_registry c = Some registry"
    "verify_validator_quorum rt registry (instruction_signer i) (va_stake_amount va)
       (instruction_infos i) = Ok ()"
proof (cases i)
  case (IxTransact k recipient infos s)
  then have "settled_soundly rt k recipient NATIVE_SOL_ASSET infos s c c'"
    using assms(2) transact_settled by simp
  then show ?thesis using that IxTransact by (auto simp: settled_soundly_def)
next
  case (IxTransactSpl k accts infos s)
  then have "\<exists>asset. settled_soundly rt k (sa_recipient_token_account accts) asset infos s c c'"
    using assms(2) transact_spl_settled by fastforce
  then show ?thesis using that IxTransactSpl by (auto simp: settled_soundly_def)
qed (use assms(1) in simp_all)

lemma other_history:
  assumes "\<not> is_settlement i" and "exec rt clk i c = Ok (c', ev)"
  shows "nullifier_accounts c' = nullifier_accounts c" and "event_nullifiers ev = []"
  using assms
  by (cases i; auto simp: quiet_admin elim!: deposit_note_OkE deposit_note_spl_OkE
      register_validator_OkE unregister_validator_OkE update_reputation_OkE claim_rewards_OkE
      slash_validator_OkE deactivate_validator_OkE withdraw_unbonded_stake_OkE
      reset_validator_registry_OkE)+

section \<open>No double spend\<close>

definition spending_step ::
  "runtime \<Rightarrow> (chain \<Rightarrow> instruction \<Rightarrow> bool) \<Rightarrow> chain \<Rightarrow> bytes32 list \<Rightarrow> chain \<Rightarrow> bool" where
  "spending_step rt D c ns c' \<longleftrightarrow> (\<exists>l. chain_step rt D c l c' \<and> label_nullifiers l = ns)"

lemma chain_step_nullifiers:
  assumes "chain_step rt D c l c'"
  shows "distinct (label_nullifiers l)"
    and "set (label_nullifiers l) \<inter> dom (nullifier_accounts c) = {}"
    and "dom (nullifier_accounts c') = dom (nullifier_accounts c) \<union> set (label_nullifiers l)"
proof -
  have "distinct (label_nullifiers l) \<and> set (label_nullifiers l) \<inter> dom (nullifier_accounts c) = {} \<and>
    dom (nullifier_accounts c') = dom (nullifier_accounts c) \<union> set (label_nullifiers l)"
    using assms
  proof cases
    case (executed clk i ev)
    then show ?thesis
      using settlement_history [OF _ executed(2)] other_history [OF _ executed(2)]
      by (cases "is_settlement i") (simp, metis, simp)
  next
    case other
    then show ?thesis by (simp add: environment_def)
  qed
  then show "distinct (label_nullifiers l)"
    "set (label_nullifiers l) \<inter> dom (nullifier_accounts c) = {}"
    "dom (nullifier_accounts c') = dom (nullifier_accounts c) \<union> set (label_nullifiers l)" by simp_all
qed

interpretation nullifier_pdas: spent_set "\<lambda>c. dom (nullifier_accounts c)" "spending_step rt D"
  for rt D
proof unfold_locales
  fix c c' ns assume "spending_step rt D c ns c'"
  then obtain l where l: "chain_step rt D c l c'" "label_nullifiers l = ns"
    by (auto simp: spending_step_def)
  show "distinct ns \<and> set ns \<inter> dom (nullifier_accounts c) = {}"
    using chain_step_nullifiers(1,2) [OF l(1)] l(2) by simp
  show "dom (nullifier_accounts c') = dom (nullifier_accounts c) \<union> set ns"
    using chain_step_nullifiers(3) [OF l(1)] l(2) by simp
qed

lemma chain_run_steps:
  "chain_run rt D c ls c' \<Longrightarrow>
   spent_set.steps (spending_step rt D) c (map label_nullifiers ls) c'"
proof (induction rule: chain_run.induct)
  case (refl c)
  then show ?case by (simp add: nullifier_pdas.steps.simps)
next
  case (snoc c ls c' l c'')
  then have "spending_step rt D c' (label_nullifiers l) c''"
    by (auto simp: spending_step_def)
  with snoc.IH show ?case by (simp add: nullifier_pdas.steps_snoc)
qed

text \<open>C1. No double spend over any history: in a run from the deployment of the program, with
  any interleaving of instructions and of other programs' transactions, no nullifier is announced
  twice, neither by two settlements nor within one, and the recorded nullifiers are exactly the
  announced ones.\<close>

theorem no_double_spend:
  assumes "genesis rt c0" and "chain_run rt D c0 ls c"
  shows "distinct (run_nullifiers ls) \<and> dom (nullifier_accounts c) = set (run_nullifiers ls)"
  using nullifier_pdas.spent_once [OF chain_run_steps [OF assms(2)]] assms(1)
  by (simp add: run_nullifiers_def genesis_def)

lemma run_nullifiers_example:
  "run_nullifiers (setup_labels @ [deposit_label cm, settle_label root]) =
     [le_bytes 32 11, le_bytes 32 12]"
  by (simp add: run_nullifiers_def setup_labels_def deposit_label_def settle_label_def
      settlement_event_def example_settlement_def)

theorem no_double_spend_witness:
  "\<exists>c cm root. chain_run ref_runtime (\<lambda>c i. True) start_chain
      (setup_labels @ [deposit_label cm, settle_label root]) c \<and>
    dom (nullifier_accounts c) = {le_bytes 32 11, le_bytes 32 12}"
proof -
  obtain c cm root where run: "chain_run ref_runtime (\<lambda>c i. True) start_chain
      (setup_labels @ [deposit_label cm, settle_label root]) c"
    using example_whole_run [of "\<lambda>c i. True"] by blast
  from no_double_spend [OF start_genesis run] run show ?thesis
    by (auto simp: run_nullifiers_example simp del: le_bytes.simps)
qed

section \<open>The tree holds the announced commitments\<close>

definition tree_of_leaves :: "runtime \<Rightarrow> chain \<Rightarrow> bytes32 list \<Rightarrow> bool" where
  "tree_of_leaves rt c xs \<longleftrightarrow>
     (case merkle_tree c of None \<Rightarrow> xs = [] | Some t \<Rightarrow> tree_repr rt t xs)"

lemma tree_of_leaves_append:
  assumes "tree_of_leaves rt c xs" and "merkle_tree c = Some t" and "tree_append rt t x = Ok (t', r)"
  shows "tree_repr rt t' (xs @ [x])"
  using assms tree_append_repr by (fastforce simp: tree_of_leaves_def)

fun touches_tree :: "instruction \<Rightarrow> bool" where
  "touches_tree (IxInitializeMerkleTree _) = True"
| "touches_tree (IxDepositNote _ _ _ _) = True"
| "touches_tree (IxDepositNoteSpl _ _ _ _ _ _) = True"
| "touches_tree i = is_settlement i"

lemma untouched_tree:
  assumes "\<not> touches_tree i" and "exec rt clk i c = Ok (c', ev)"
  shows "merkle_tree c' = merkle_tree c" and "event_leaves ev = []"
  using assms
  by (cases i; auto simp: quiet_admin elim!:
      register_validator_OkE unregister_validator_OkE update_reputation_OkE claim_rewards_OkE
      slash_validator_OkE deactivate_validator_OkE withdraw_unbonded_stake_OkE
      reset_validator_registry_OkE)+

lemma other_leaves:
  assumes "zero_hashes_ok rt" and "\<not> is_settlement i" and "exec rt clk i c = Ok (c', ev)"
    and "tree_of_leaves rt c xs"
  shows "tree_of_leaves rt c' (xs @ event_leaves ev)"
proof (cases "touches_tree i")
  case False
  then show ?thesis using untouched_tree [OF False assms(3)] assms(4) by (simp add: tree_of_leaves_def)
next
  case True
  then show ?thesis
    using assms(2,3) tree_of_leaves_append [OF assms(4)] tree_repr_initialize [OF assms(1)] assms(4)
    by (cases i) (auto simp: quiet_admin tree_of_leaves_def [of _ c'] tree_of_leaves_def [of _ c]
        elim!: deposit_note_OkE deposit_note_spl_OkE)
qed

lemma settlement_leaves:
  assumes "is_settlement i" and "exec rt clk i c = Ok (c', ev)" and "tree_of_leaves rt c xs"
  shows "tree_of_leaves rt c' (xs @ event_leaves ev)"
  using assms(1,2)
proof (rule settlement_history)
  let ?s = "instruction_settlement i"
  fix tree t1 r1 t2 r2
  assume t: "merkle_tree c = Some tree" "tree_append rt tree (st_out0 ?s) = Ok (t1, r1)"
    "tree_append rt t1 (st_out1 ?s) = Ok (t2, r2)" "merkle_tree c' = Some t2"
    "event_leaves ev = [st_out0 ?s, st_out1 ?s]"
  have "tree_repr rt t1 (xs @ [st_out0 ?s])"
    using tree_of_leaves_append [OF assms(3) t(1,2)] .
  from tree_append_repr [OF this t(3)] show ?thesis using t(4,5) by (simp add: tree_of_leaves_def)
qed

lemma chain_run_leaves:
  assumes "zero_hashes_ok rt" and "chain_run rt D c0 ls c" and "genesis rt c0"
  shows "tree_of_leaves rt c (run_leaves ls)"
  using assms(2,3)
proof (induction rule: chain_run.induct)
  case (refl c)
  then show ?case by (simp add: genesis_def tree_of_leaves_def run_leaves_def)
next
  case (snoc c ls c' l c'')
  then have IH: "tree_of_leaves rt c' (run_leaves ls)" by simp
  from snoc.hyps(2) show ?case
  proof cases
    case (executed clk i ev)
    then show ?thesis
      using settlement_leaves [OF _ executed(2) IH] other_leaves [OF assms(1) _ executed(2) IH]
      by (cases "is_settlement i") (simp_all add: run_leaves_def)
  next
    case other
    then show ?thesis using IH by (simp add: environment_def tree_of_leaves_def run_leaves_def)
  qed
qed

text \<open>C7. At any point of any run the tree account holds exactly the commitments that the
  deposit and settlement events announced so far, in order: its root is the root of the complete
  Poseidon tree over them, and its next index is their number. A wallet that replays the events
  rebuilds the tree.\<close>

theorem tree_replays_events:
  assumes "zero_hashes_ok rt" and "genesis rt c0" and "chain_run rt D c0 ls c"
    and "merkle_tree c = Some t"
  shows "mt_root t = full_root (poseidon_node rt) 32 (get_or zero32 (run_leaves ls)) \<and>
    unat (mt_next_index t) = length (run_leaves ls)"
proof -
  have "tree_repr rt t (run_leaves ls)"
    using chain_run_leaves [OF assms(1,3,2)] assms(4) by (simp add: tree_of_leaves_def)
  then show ?thesis
    using onchain.tree_root_full [of "run_leaves ls" 32 rt]
    by (simp add: tree_repr_def onchain_root_def TREE_DEPTH_def)
qed

lemma run_leaves_example:
  "run_leaves (setup_labels @ [deposit_label cm]) = [cm]"
  "run_leaves (setup_labels @ [deposit_label cm, settle_label root]) =
     [cm, le_bytes 32 21, le_bytes 32 22]"
  by (simp_all add: run_leaves_def setup_labels_def deposit_label_def settle_label_def
      settlement_event_def example_settlement_def)

theorem tree_replays_events_witness:
  "\<exists>c cm root t. chain_run ref_runtime (\<lambda>c i. True) start_chain
      (setup_labels @ [deposit_label cm, settle_label root]) c \<and>
    merkle_tree c = Some t \<and> unat (mt_next_index t) = 3"
proof -
  obtain c cm root t where run: "chain_run ref_runtime (\<lambda>c i. True) start_chain
      (setup_labels @ [deposit_label cm, settle_label root]) c" "merkle_tree c = Some t"
    using example_whole_run [of "\<lambda>c i. True"] by blast
  have "unat (mt_next_index t) = 3"
    using tree_replays_events [OF ref_zero_hashes_ok start_genesis run]
    by (simp add: run_leaves_example)
  then show ?thesis using run by blast
qed

text \<open>C11. A settlement is always proved against a tree the program really published: if an
  execution of \<open>transact\<close> or \<open>transact_spl\<close> follows a run, the root it names is the root over
  a prefix of the commitments announced before it, and at most 63 of them came after that
  prefix.\<close>

theorem settlement_root_was_published:
  assumes "zero_hashes_ok rt" and "genesis rt c0" and "chain_run rt D c0 ls c"
    and "is_settlement i" and "exec rt clk i c = Ok (c', ev)"
  shows "\<exists>n \<le> length (run_leaves ls). length (run_leaves ls) < n + 64 \<and>
    st_root (instruction_settlement i) = onchain_root rt (take n (run_leaves ls))"
  using assms(4,5)
proof (rule settlement_history)
  fix tree
  assume t: "merkle_tree c = Some tree"
    "is_known_root tree (st_root (instruction_settlement i)) = Some True"
  have "tree_repr rt tree (run_leaves ls)"
    using chain_run_leaves [OF assms(1,3,2)] t(1) by (simp add: tree_of_leaves_def)
  then show ?thesis using t(2) by (simp add: known_root_iff)
qed

theorem settlement_root_was_published_witness:
  "\<exists>cm. \<exists>n \<le> 1. ZERO_HASHES ! 32 = onchain_root ref_runtime (take n [cm])"
proof -
  obtain c c' cm root where
    run: "chain_run ref_runtime (\<lambda>c i. True) start_chain (setup_labels @ [deposit_label cm]) c"
    and step: "chain_step ref_runtime (\<lambda>c i. True) c (settle_label root) c'"
    using example_run [of "\<lambda>c i. True"] by blast
  from step have "exec ref_runtime run_clock run_settle c =
      Ok (c', settlement_event run_clock example_settlement root 2 carol 1)"
    unfolding settle_label_def by (rule chain_step_ExecutedE)
  from settlement_root_was_published [OF ref_zero_hashes_ok start_genesis run _ this] show ?thesis
    by (auto simp: run_leaves_example example_settlement_def)
qed

end
