(* ===== verification/Chain_Stake.thy ===== *)
theory Chain_Stake
  imports Chain_Safety Chain_History
begin

text \<open>
  The registry's counters are the truth about the validator accounts: along every run in which
  each registry reset passes the complete set of active validators (the documented precondition
  of \<open>reset_validator_registry\<close>), \<open>total_active_stake\<close> is the sum of the stakes the active
  validators hold and \<open>active_validators\<close> their number. With that the settlement quorum, which
  trusts the counter, is a quorum of the ledger's own stake.
\<close>

section \<open>Counters and sums\<close>

definition staked :: "chain \<Rightarrow> nat" where
  "staked c = map_sum (\<lambda>va. unat (va_stake_amount va)) (validator_accounts c)"

definition active_count :: "chain \<Rightarrow> nat" where
  "active_count c = map_sum (\<lambda>va. if va_is_active va then 1 else 0) (validator_accounts c)"

definition registry_exact :: "chain \<Rightarrow> bool" where
  "registry_exact c \<longleftrightarrow>
     (case validator_registry c of
        None \<Rightarrow> validator_accounts c = Map.empty
      | Some r \<Rightarrow> vr_minimum_stake r = MIN_VALIDATOR_STAKE \<and>
          unat (vr_total_active_stake r) = staked c \<and>
          unat (vr_active_validators r) = active_count c)"

definition accounted :: "runtime \<Rightarrow> chain \<Rightarrow> bool" where
  "accounted rt c \<longleftrightarrow>
     finite (dom (validator_accounts c)) \<and> backed rt c \<and> supply_ok c \<and> registry_exact c \<and>
     (\<forall>w va. validator_accounts c w = Some va \<longrightarrow> va_is_active va \<longrightarrow>
        MIN_VALIDATOR_STAKE \<le> va_stake_amount va \<and> va_unbonding_amount va = 0)"

text \<open>The documented precondition of a registry reset: every active validator is passed.\<close>

fun reset_complete :: "runtime \<Rightarrow> chain \<Rightarrow> instruction \<Rightarrow> bool" where
  "reset_complete rt c (IxResetValidatorRegistry _ _ _ infos _) \<longleftrightarrow>
     (\<forall>w va. validator_accounts c w = Some va \<longrightarrow> va_is_active va \<longrightarrow>
        validator_key rt w \<in> ai_key ` set infos)"
| "reset_complete rt c _ \<longleftrightarrow> True"

lemma map_sum_mono:
  "finite (dom m) \<Longrightarrow> (\<And>k v. m k = Some v \<Longrightarrow> f v \<le> g v) \<Longrightarrow> map_sum f m \<le> map_sum g m"
  unfolding map_sum_def by (intro sum_mono) auto

lemma staked_bound:
  assumes "runtime_ok rt" and "finite (dom (validator_accounts c))" and "backed rt c"
    and "supply_ok c"
  shows "staked c < 2 ^ 64"
proof -
  let ?D = "dom (validator_accounts c)" and ?k = "validator_key rt"
  have "staked c \<le> (\<Sum>w\<in>?D. unat (lamports c (?k w)))"
    unfolding staked_def map_sum_def
    using backedD [OF assms(3)] by (intro sum_mono) (fastforce simp: holds_stake_def)
  also have "\<dots> = (\<Sum>k\<in>?k ` ?D. unat (lamports c k))"
    using pda_okD(1) [OF assms(1)] by (subst sum.reindex) (auto simp: inj_on_def)
  also have "\<dots> < 2 ^ 64" using assms(2,4) by (simp add: supply_ok_def)
  finally show ?thesis .
qed

lemma active_count_bound:
  assumes "finite (dom (validator_accounts c))"
    and "\<forall>w va. validator_accounts c w = Some va \<longrightarrow> va_is_active va \<longrightarrow>
        MIN_VALIDATOR_STAKE \<le> va_stake_amount va"
  shows "active_count c \<le> staked c"
  unfolding active_count_def staked_def
proof (rule map_sum_mono [OF assms(1)])
  fix w va assume "validator_accounts c w = Some va"
  then have "va_is_active va \<Longrightarrow> 1000000000 \<le> unat (va_stake_amount va)"
    using assms(2) by (auto simp: MIN_VALIDATOR_STAKE_def word_le_nat_alt)
  then show "(if va_is_active va then 1 else 0) \<le> unat (va_stake_amount va)" by auto
qed

text \<open>A step that keeps accounts and registry counters, and one that rewrites one account.\<close>

lemma accounted_same:
  assumes "accounted rt c" and "backed rt c'" and "supply_ok c'"
    and "validator_accounts c' = validator_accounts c" and "registry_exact c'"
  shows "accounted rt c'"
  using assms by (simp add: accounted_def)

lemma registry_exact_same:
  "validator_accounts c' = validator_accounts c \<Longrightarrow> validator_registry c' = validator_registry c \<Longrightarrow>
   registry_exact c' = registry_exact c"
  by (simp add: registry_exact_def staked_def active_count_def cong: option.case_cong)

lemma accounted_update:
  assumes "accounted rt c" and "backed rt c'" and "supply_ok c'"
    and "validator_accounts c w = Some va"
    and "validator_accounts c' = (validator_accounts c)(w \<mapsto> va')"
    and "validator_registry c = Some r" and "validator_registry c' = Some r'"
    and "vr_minimum_stake r' = vr_minimum_stake r"
    and "va_is_active va' \<Longrightarrow>
      MIN_VALIDATOR_STAKE \<le> va_stake_amount va' \<and> va_unbonding_amount va' = 0"
    and "unat (vr_total_active_stake r') + unat (va_stake_amount va)
      = unat (vr_total_active_stake r) + unat (va_stake_amount va')"
    and "unat (vr_active_validators r') + (if va_is_active va then 1 else 0)
      = unat (vr_active_validators r) + (if va_is_active va' then 1 else 0)"
  shows "accounted rt c'"
proof -
  have fin: "finite (dom (validator_accounts c))" using assms(1) by (simp add: accounted_def)
  have ex: "registry_exact c" using assms(1) by (simp add: accounted_def)
  have "staked c' + unat (va_stake_amount va) = staked c + unat (va_stake_amount va')"
    unfolding staked_def assms(5) by (rule map_sum_upd_old [OF fin assms(4)])
  moreover have "active_count c' + (if va_is_active va then 1 else 0)
      = active_count c + (if va_is_active va' then 1 else 0)"
    unfolding active_count_def assms(5) by (rule map_sum_upd_old [OF fin assms(4)])
  ultimately have "registry_exact c'"
    using ex assms(6-8,10,11) by (simp add: registry_exact_def)
  then show ?thesis
    using assms(1-3,5,9) by (auto simp: accounted_def)
qed

lemma accountedD:
  assumes "accounted rt c" and "validator_accounts c w = Some va"
  obtains r where "validator_registry c = Some r" "vr_minimum_stake r = MIN_VALIDATOR_STAKE"
    "unat (va_stake_amount va) \<le> unat (vr_total_active_stake r)"
    "va_is_active va \<longrightarrow> 0 < unat (vr_active_validators r)"
    "va_is_active va \<longrightarrow> MIN_VALIDATOR_STAKE \<le> va_stake_amount va \<and> va_unbonding_amount va = 0"
    "va_is_active va \<or> va_stake_amount va = 0"
proof -
  have fin: "finite (dom (validator_accounts c))" and ex: "registry_exact c"
    using assms(1) by (simp_all add: accounted_def)
  obtain r where r: "validator_registry c = Some r" "vr_minimum_stake r = MIN_VALIDATOR_STAKE"
    "unat (vr_total_active_stake r) = staked c" "unat (vr_active_validators r) = active_count c"
    using ex assms(2) by (auto simp: registry_exact_def split: option.splits)
  moreover have "unat (va_stake_amount va) \<le> staked c"
    unfolding staked_def by (rule map_sum_member_le [OF fin assms(2)])
  moreover have "(if va_is_active va then 1 else 0) \<le> active_count c"
    unfolding active_count_def by (rule map_sum_member_le [OF fin assms(2)])
  moreover have "holds_stake rt w va (unat (lamports c (validator_key rt w)))"
    using assms by (simp add: accounted_def backedD)
  ultimately show thesis
    using assms by (intro that [of r]) (auto simp: accounted_def holds_stake_def)
qed

section \<open>Each instruction keeps the counters exact\<close>

lemma quiet_registry:
  assumes "is_quiet i" and "\<not> is_reset i" and "exec rt clk i c = Ok (c', ev)"
  shows "validator_accounts c' = validator_accounts c"
    and "validator_registry c' = validator_registry c \<or>
      (\<exists>r m. validator_registry c = Some r \<and>
         validator_registry c' = Some (r\<lparr>vr_min_token_stake := m\<rparr>)) \<or>
      validator_registry c = None \<and> (\<exists>r. validator_registry c' = Some r \<and>
         vr_total_active_stake r = 0 \<and> vr_active_validators r = 0 \<and>
         vr_minimum_stake r = MIN_VALIDATOR_STAKE)"
  using assms by (cases i; auto simp: quiet_admin elim!: deposit_note_spl_OkE)+

lemma accounted_quiet:
  assumes "accounted rt c" and "backed rt c'" and "supply_ok c'"
    and "is_quiet i" and "\<not> is_reset i" and "exec rt clk i c = Ok (c', ev)"
  shows "accounted rt c'"
proof -
  note q = quiet_registry [OF assms(4-6)]
  have "staked c' = staked c" "active_count c' = active_count c"
    using q(1) by (simp_all add: staked_def active_count_def)
  moreover have "validator_accounts c = Map.empty \<Longrightarrow> staked c = 0 \<and> active_count c = 0"
    by (simp add: staked_def active_count_def)
  moreover have "registry_exact c" using assms(1) by (simp add: accounted_def)
  ultimately have "registry_exact c'"
    using q by (auto simp: registry_exact_def split: option.splits)
  then show ?thesis by (intro accounted_same [OF assms(1-3) q(1)])
qed

lemma accounted_deposit_note:
  assumes "accounted rt c" and "backed rt c'" and "supply_ok c'"
    and "deposit_note rt clk k amount pubkey blinding c = Ok (c', ev)"
  shows "accounted rt c'"
proof -
  have "validator_accounts c' = validator_accounts c" "validator_registry c' = validator_registry c"
    using assms(4) by (auto elim: deposit_note_OkE)
  then show ?thesis
    using assms(1) by (intro accounted_same [OF assms(1-3)])
      (simp_all add: accounted_def registry_exact_same [of c' c])
qed

text \<open>A step that rewrites fields of one account the registry does not count.\<close>

lemma accounted_uncounted:
  assumes "accounted rt c" and "backed rt c'" and "supply_ok c'"
    and "validator_accounts c w = Some va"
    and "validator_accounts c' = (validator_accounts c)(w \<mapsto> va')"
    and "validator_registry c' = validator_registry c"
    and "va_is_active va' = va_is_active va" and "va_stake_amount va' = va_stake_amount va"
    and "va_unbonding_amount va' = va_unbonding_amount va"
  shows "accounted rt c'"
proof -
  obtain r where r: "validator_registry c = Some r"
    "va_is_active va \<longrightarrow> MIN_VALIDATOR_STAKE \<le> va_stake_amount va \<and> va_unbonding_amount va = 0"
    by (rule accountedD [OF assms(1,4)])
  then show ?thesis
    using assms(6-9) by (intro accounted_update [OF assms(1-5) r(1), of r]) simp_all
qed

lemma accounted_settlement:
  assumes "runtime_ok rt" and "signer_ok rt k" and "accounted rt c" and "backed rt c'"
    and "supply_ok c'"
  shows "transact rt clk k recipient infos s c = Ok (c', ev) \<Longrightarrow> accounted rt c'"
    and "transact_spl rt clk k accts infos s c = Ok (c', ev) \<Longrightarrow> accounted rt c'"
proof -
  show "accounted rt c'" if t: "transact rt clk k recipient infos s c = Ok (c', ev)"
  proof -
    obtain va n where va: "validator_accounts c k = Some va"
      "validator_accounts c' = (validator_accounts c)(k \<mapsto> credit_task clk (va\<lparr>va_pending_rewards := n\<rparr>))"
      "validator_registry c' = validator_registry c"
      by (rule transact_effect [OF assms(1,2) t])
    then show ?thesis
      by (intro accounted_uncounted [OF assms(3-5) va]) (simp_all add: credit_task_def)
  qed
  show "accounted rt c'" if t: "transact_spl rt clk k accts infos s c = Ok (c', ev)"
  proof -
    obtain va where va: "validator_accounts c k = Some va"
      "validator_accounts c' = (validator_accounts c)(k \<mapsto> credit_task clk va)"
      "validator_registry c' = validator_registry c"
      by (rule transact_spl_effect [OF assms(1,2) t])
    then show ?thesis
      by (intro accounted_uncounted [OF assms(3-5) va]) (simp_all add: credit_task_def)
  qed
qed

lemma accounted_claim:
  assumes "accounted rt c" and "backed rt c'" and "supply_ok c'"
  shows "claim_rewards rt clk k c = Ok (c', ev) \<Longrightarrow> accounted rt c'"
    and "update_reputation clk k w v rep c = Ok (c', ev) \<Longrightarrow> accounted rt c'"
proof -
  show "accounted rt c'" if u: "claim_rewards rt clk k c = Ok (c', ev)"
    using u
    by (elim claim_rewards_OkE) (rule accounted_uncounted
      [OF assms, of k _ "the (validator_accounts c' k)"], assumption, auto)
  show "accounted rt c'" if u: "update_reputation clk k w v rep c = Ok (c', ev)"
    using u
    by (elim update_reputation_OkE) (rule accounted_uncounted
      [OF assms, of w _ "the (validator_accounts c' w)"], assumption, auto)
qed

lemma accounted_leave:
  assumes "accounted rt c" and "backed rt c'" and "supply_ok c'"
    and "validator_accounts c w = Some va" and "va_is_active va"
    and "validator_accounts c' = (validator_accounts c)(w \<mapsto> va')"
    and "validator_registry c = Some r" and "validator_registry c' = Some r'"
    and "vr_minimum_stake r' = vr_minimum_stake r"
    and "\<not> va_is_active va'" and "va_stake_amount va' = 0"
    and "vr_total_active_stake r' = saturating_sub (vr_total_active_stake r) (va_stake_amount va)"
    and "vr_active_validators r' = saturating_sub (vr_active_validators r) 1"
  shows "accounted rt c'"
proof -
  obtain r1 where "validator_registry c = Some r1"
    "unat (va_stake_amount va) \<le> unat (vr_total_active_stake r1)"
    "va_is_active va \<longrightarrow> 0 < unat (vr_active_validators r1)"
    by (rule accountedD [OF assms(1,4)])
  then show ?thesis
    using assms(5,7,10-13)
    by (intro accounted_update [OF assms(1-4) assms(6-9)]) (simp_all add: unat_simps)
qed

lemma accounted_unregister:
  assumes "accounted rt c" and "backed rt c'" and "supply_ok c'"
  shows "unregister_validator clk w c = Ok (c', ev) \<Longrightarrow> accounted rt c'"
    and "deactivate_validator clk k w c = Ok (c', ev) \<Longrightarrow> accounted rt c'"
proof -
  show "accounted rt c'" if u: "unregister_validator clk w c = Ok (c', ev)"
    using u
    by (elim unregister_validator_OkE) (rule accounted_leave [OF assms, of w _
        "the (validator_accounts c' w)" _ "the (validator_registry c')"], assumption+, auto)
  show "accounted rt c'" if d: "deactivate_validator clk k w c = Ok (c', ev)"
    using d
  proof (cases rule: deactivate_validator_OkE)
    case (active va registry)
    then show ?thesis
      by (intro accounted_leave [OF assms active(1,4), of "the (validator_accounts c' w)" registry
            "the (validator_registry c')"]) auto
  qed (use assms in simp)
qed

lemma accounted_register:
  assumes "runtime_ok rt" and "accounted rt c" and "backed rt c'" and "supply_ok c'"
    and "register_validator rt clk w mint vta stake token_stake c = Ok (c', ev)"
  shows "accounted rt c'"
proof -
  obtain r credited where new: "validator_accounts c w = None" "validator_registry c = Some r"
    and min: "MIN_VALIDATOR_STAKE \<le> stake"
    and c': "validator_accounts c' = (validator_accounts c)(w \<mapsto>
        new_validator_account clk w stake credited)"
      "validator_registry c' = Some (r\<lparr>
        vr_total_validators := saturating_add (vr_total_validators r) 1,
        vr_active_validators := saturating_add (vr_active_validators r) 1,
        vr_total_active_stake := saturating_add (vr_total_active_stake r) stake\<rparr>)"
    using assms(5) by (elim register_validator_OkE) simp
  have fin: "finite (dom (validator_accounts c))" and ex: "registry_exact c"
    using assms(2) by (simp_all add: accounted_def)
  have active: "\<forall>w va. validator_accounts c' w = Some va \<longrightarrow> va_is_active va \<longrightarrow>
      MIN_VALIDATOR_STAKE \<le> va_stake_amount va \<and> va_unbonding_amount va = 0"
    using assms(2) c'(1) min by (auto simp: accounted_def new_validator_account_def)
  have "staked c' = staked c + unat stake"
    unfolding staked_def c'(1) map_sum_upd_new [OF fin new(1)] by (simp add: new_validator_account_def)
  moreover have "active_count c' = active_count c + 1"
    unfolding active_count_def c'(1) map_sum_upd_new [OF fin new(1)]
    by (simp add: new_validator_account_def)
  moreover have fin': "finite (dom (validator_accounts c'))" using fin c'(1) by simp
  moreover have "staked c' < 2 ^ 64"
    using staked_bound [OF assms(1) fin' assms(3,4)] .
  moreover have "active_count c' \<le> staked c'"
    using active_count_bound [OF fin'] active by blast
  ultimately have "registry_exact c'"
    using ex new(2) c'(2) by (simp add: registry_exact_def unat_simps)
  then show ?thesis using fin' assms(3,4) active by (simp add: accounted_def)
qed

lemma accounted_withdraw:
  assumes "accounted rt c" and "backed rt c'" and "supply_ok c'"
    and "withdraw_unbonded_stake rt clk w mint vta c = Ok (c', ev)"
  shows "accounted rt c'"
proof -
  obtain va where va: "validator_accounts c w = Some va"
    "0 < va_unbonding_amount va \<or> \<not> va_is_active va"
    and c': "validator_accounts c' = (validator_accounts c)(w := None)"
      "validator_registry c' = validator_registry c"
    using assms(4) by (elim withdraw_unbonded_stake_OkE) auto
  have fin: "finite (dom (validator_accounts c))" and ex: "registry_exact c"
    using assms(1) by (simp_all add: accounted_def)
  obtain r where r: "validator_registry c = Some r"
    "va_is_active va \<longrightarrow> MIN_VALIDATOR_STAKE \<le> va_stake_amount va \<and> va_unbonding_amount va = 0"
    "va_is_active va \<or> va_stake_amount va = 0"
    by (rule accountedD [OF assms(1) va(1)])
  then have "\<not> va_is_active va" "va_stake_amount va = 0" using va(2) by auto
  then have "staked c' = staked c" "active_count c' = active_count c"
    using map_sum_remove [OF fin va(1), of "\<lambda>va. unat (va_stake_amount va)"]
      map_sum_remove [OF fin va(1), of "\<lambda>va. if va_is_active va then 1 else 0"]
    by (simp_all add: staked_def active_count_def c'(1))
  then have "registry_exact c'"
    using ex c'(2) r(1) by (simp add: registry_exact_def)
  then show ?thesis
    using assms(1-3) fin c'(1) by (auto simp: accounted_def)
qed

lemma accounted_slash:
  assumes "accounted rt c" and "backed rt c'" and "supply_ok c'"
    and "slash_validator rt clk authority w mint validator pct c = Ok (c', ev)"
  shows "accounted rt c'"
proof -
  obtain va r sl where va: "validator_accounts c w = Some va" "validator_registry c = Some r"
    and p: "pct \<le> 100"
    and sl: "slash_structs clk (slash_share (at_risk_stake va) pct)
      (slash_share (at_risk_token va) pct) va r = sl"
    and c': "validator_accounts c' = (validator_accounts c)(w \<mapsto> fst sl)"
      "validator_registry c' = Some (snd sl)"
    using assms(4) by (elim slash_validator_OkE) simp
  let ?s = "slash_share (at_risk_stake va) pct"
  have le: "?s \<le> at_risk_stake va" "slash_share (at_risk_token va) pct \<le> at_risk_token va"
    using p by (simp_all add: slash_share_le)
  note e = slash_structs_effect [OF le, of clk r "fst sl" "snd sl", simplified sl, simplified]
  obtain r1 where r1: "validator_registry c = Some r1" "vr_minimum_stake r1 = MIN_VALIDATOR_STAKE"
    "unat (va_stake_amount va) \<le> unat (vr_total_active_stake r1)"
    "va_is_active va \<longrightarrow> 0 < unat (vr_active_validators r1)"
    "va_is_active va \<longrightarrow> MIN_VALIDATOR_STAKE \<le> va_stake_amount va \<and> va_unbonding_amount va = 0"
    by (rule accountedD [OF assms(1) va(1)])
  show ?thesis
  proof (cases "va_is_active va")
    case False
    then show ?thesis
      using e c' by (intro accounted_update [OF assms(1-3) va(1) c'(1) va(2) c'(2)]) simp_all
  next
    case True
    then have s: "?s \<le> va_stake_amount va" using le(1) by (simp add: at_risk_stake_def)
    show ?thesis
      using e True r1 va(2) s
      by (intro accounted_update [OF assms(1-3) va(1) c'(1) va(2) c'(2)])
        (auto simp: unat_simps word_le_nat_alt unat_minus_no_wrap unsigned_eq_0_iff)
  qed
qed

section \<open>A complete reset\<close>

definition ledger_stake :: "chain \<Rightarrow> pubkey \<Rightarrow> u64" where
  "ledger_stake c w = va_stake_amount (the (validator_accounts c w))"

lemma reset_loop_members:
  assumes "reset_loop rt infos seen t a = Ok (t', a')" and "infos_reflect rt c infos"
  shows "\<exists>ws. map ai_key infos = map (validator_key rt) ws \<and> distinct (map ai_key infos) \<and>
    set (map ai_key infos) \<inter> set seen = {} \<and>
    (\<forall>w\<in>set ws. \<exists>va. validator_accounts c w = Some va \<and> va_is_active va) \<and>
    t' = fold (\<lambda>w t. saturating_add t (ledger_stake c w)) ws t \<and>
    a' = fold (\<lambda>w a. saturating_add a 1) ws a"
  using assms
proof (induction infos arbitrary: seen t a)
  case (Cons info infos)
  obtain v where v: "ai_owner info = program_id rt"
    "validator_try_deserialize rt (ai_data info) = Some v"
    "ai_key info = validator_key rt (va_validator v)" "va_is_active v" "ai_key info \<notin> set seen"
    and rest: "reset_loop rt infos (seen @ [ai_key info])
      (saturating_add t (va_stake_amount v)) (saturating_add a 1) = Ok (t', a')"
    using Cons.prems(1) by (auto simp: rust_simps validator_key_def pda_def)
  have acc: "validator_accounts c (va_validator v) = Some v"
    using Cons.prems(2) v(1-3) by (auto simp: infos_reflect_def)
  have "infos_reflect rt c infos" using Cons.prems(2) by (simp add: infos_reflect_def)
  from Cons.IH [OF rest this] obtain ws where ws:
    "map ai_key infos = map (validator_key rt) ws" "distinct (map ai_key infos)"
    "set (map ai_key infos) \<inter> set (seen @ [ai_key info]) = {}"
    "\<forall>w\<in>set ws. \<exists>va. validator_accounts c w = Some va \<and> va_is_active va"
    "t' = fold (\<lambda>w t. saturating_add t (ledger_stake c w)) ws (saturating_add t (va_stake_amount v))"
    "a' = fold (\<lambda>w a. saturating_add a 1) ws (saturating_add a 1)" by blast
  show ?case
    using ws v acc by (intro exI [of _ "va_validator v # ws"]) (auto simp: ledger_stake_def)
qed simp

lemma unat_fold_saturating_add:
  fixes f :: "'a \<Rightarrow> u64"
  assumes "unat t + (\<Sum>w\<leftarrow>ws. unat (f w)) < 2 ^ 64"
  shows "unat (fold (\<lambda>w t. saturating_add t (f w)) ws t) = unat t + (\<Sum>w\<leftarrow>ws. unat (f w))"
  using assms
proof (induction ws arbitrary: t)
  case (Cons w ws)
  then have "unat (saturating_add t (f w)) = unat t + unat (f w)" by (simp add: unat_simps)
  then show ?case using Cons.IH [of "saturating_add t (f w)"] Cons.prems by simp
qed simp

lemma active_sums:
  assumes "accounted rt c" and "distinct ws"
    and "set ws = {w. \<exists>va. validator_accounts c w = Some va \<and> va_is_active va}"
  shows "(\<Sum>w\<leftarrow>ws. unat (ledger_stake c w)) = staked c" and "length ws = active_count c"
proof -
  let ?D = "dom (validator_accounts c)" and ?v = "\<lambda>w. the (validator_accounts c w)"
  have fin: "finite ?D" using assms(1) by (simp add: accounted_def)
  have sub: "set ws \<subseteq> ?D" using assms(3) by auto
  have out: "\<not> va_is_active (?v w) \<and> va_stake_amount (?v w) = 0" if w: "w \<in> ?D - set ws" for w
    using w assms(3) backedD [of rt c w] assms(1) by (auto simp: accounted_def holds_stake_def)
  have inn: "va_is_active (?v w)" if "w \<in> set ws" for w using that assms(3) by auto
  show "(\<Sum>w\<leftarrow>ws. unat (ledger_stake c w)) = staked c"
    unfolding staked_def map_sum_def sum_list_distinct_conv_sum_set [OF assms(2)] ledger_stake_def
    using out by (intro sum.mono_neutral_left [OF fin sub]) auto
  have "(\<Sum>w\<in>set ws. 1) = (\<Sum>w\<in>?D. if va_is_active (?v w) then 1 else 0 :: nat)"
    using out inn by (intro sum.mono_neutral_cong_left [OF fin sub]) auto
  then show "length ws = active_count c"
    using distinct_card [OF assms(2)] by (simp add: active_count_def map_sum_def)
qed

lemma accounted_reset:
  assumes "runtime_ok rt" and "accounted rt c" and "backed rt c'" and "supply_ok c'"
    and "reset_validator_registry rt clk authority mint expected infos data c = Ok (c', ev)"
    and "infos_reflect rt c infos"
    and "\<forall>w va. validator_accounts c w = Some va \<longrightarrow> va_is_active va \<longrightarrow>
        validator_key rt w \<in> ai_key ` set infos"
  shows "accounted rt c'"
proof -
  obtain t a where loop: "reset_loop rt infos [] 0 0 = Ok (t, a)"
    and c': "validator_accounts c' = validator_accounts c"
      "validator_registry c' = Some \<lparr> vr_authority = authority,
       vr_total_validators = a, vr_active_validators = a,
       vr_minimum_stake = MIN_VALIDATOR_STAKE, vr_total_active_stake = t,
       vr_stake_mint = mint, vr_min_token_stake = RECOMMENDED_MIN_TOKEN_STAKE \<rparr>"
    using assms(5) by (elim reset_validator_registry_OkE) simp
  obtain ws where ws: "map ai_key infos = map (validator_key rt) ws" "distinct (map ai_key infos)"
    "\<forall>w\<in>set ws. \<exists>va. validator_accounts c w = Some va \<and> va_is_active va"
    "t = fold (\<lambda>w t. saturating_add t (ledger_stake c w)) ws 0"
    "a = fold (\<lambda>w a. saturating_add a 1) ws 0"
    using reset_loop_members [OF loop assms(6)] by auto
  have d: "distinct ws" using ws(1,2) by (metis distinct_map)
  have keys: "ai_key ` set infos = validator_key rt ` set ws" using ws(1) by (metis list.set_map)
  have "set ws = {w. \<exists>va. validator_accounts c w = Some va \<and> va_is_active va}"
    using ws(3) assms(7) keys pda_okD(1) [OF assms(1)] by (fastforce simp: image_iff)
  note sums = active_sums [OF assms(2) d this]
  have fin: "finite (dom (validator_accounts c))" using assms(2) by (simp add: accounted_def)
  have b: "staked c < 2 ^ 64" using assms(2) staked_bound [OF assms(1) fin] by (auto simp: accounted_def)
  have ac: "active_count c \<le> staked c"
    using assms(2) by (intro active_count_bound [OF fin]) (simp add: accounted_def)
  have "unat t = staked c"
    using unat_fold_saturating_add [of 0 "ledger_stake c" ws] sums(1) b ws(4) by simp
  moreover have "unat a = active_count c"
    using unat_fold_saturating_add [of 0 "\<lambda>_. 1" ws] sums(2) b ac ws(5)
    by (simp add: sum_list_triv)
  ultimately have "registry_exact c'"
    using c' by (simp add: registry_exact_def staked_def active_count_def)
  then show ?thesis by (intro accounted_same [OF assms(2-4) c'(1)])
qed

lemma accounted_step:
  assumes "runtime_ok rt" and "chain_step rt (reset_complete rt) c l c'" and "accounted rt c"
  shows "accounted rt c'"
proof -
  have b: "backed rt c'" using backed_step [OF assms(1,2)] assms(3) by (simp add: accounted_def)
  from assms(2) show ?thesis
  proof cases
    case (executed clk i ev)
    note pre = assms(3) b executed(6)
    consider "is_reset i" | "is_quiet i" "\<not> is_reset i" | "\<not> is_quiet i" by blast
    then show ?thesis
    proof cases
      case 1
      then show ?thesis
        using executed accounted_reset [OF assms(1) pre] by (cases i) auto
    next
      case 2
      then show ?thesis using accounted_quiet [OF pre _ _ executed(2)] by blast
    next
      case 3
      then show ?thesis
        using executed(2,3) accounted_settlement [OF assms(1) _ pre]
          accounted_register [OF assms(1) pre]
        by (cases i) (auto intro: accounted_deposit_note [OF pre] accounted_claim [OF pre]
            accounted_unregister [OF pre] accounted_withdraw [OF pre] accounted_slash [OF pre])
    qed
  next
    case other
    then have "validator_accounts c' = validator_accounts c" "registry_exact c'"
      using assms(3) by (simp_all add: environment_def accounted_def registry_exact_same [of c' c])
    then show ?thesis using accounted_same [OF assms(3) b other(3)] by blast
  qed
qed

section \<open>Properties\<close>

definition active_wallets :: "chain \<Rightarrow> pubkey set" where
  "active_wallets c = {w. \<exists>va. validator_accounts c w = Some va \<and> va_is_active va}"

lemma genesis_accounted: "genesis rt c \<Longrightarrow> accounted rt c"
  by (simp add: genesis_def accounted_def backed_def registry_exact_def)

lemma run_accounted:
  assumes "runtime_ok rt" and "genesis rt c0" and "chain_run rt (reset_complete rt) c0 ls c"
  shows "accounted rt c"
  using assms(3) genesis_accounted [OF assms(2)] accounted_step [OF assms(1)]
  by (metis chain_run_invariant [where I = "accounted rt"])

lemma finite_active: "accounted rt c \<Longrightarrow> finite (active_wallets c)"
  unfolding accounted_def active_wallets_def
  by (auto intro: finite_subset [of _ "dom (validator_accounts c)"])

lemma active_wallets_sums:
  assumes "accounted rt c"
  shows "(\<Sum>w\<in>active_wallets c. unat (ledger_stake c w)) = staked c"
    and "card (active_wallets c) = active_count c"
proof -
  obtain ws where ws: "distinct ws" "set ws = active_wallets c"
    using finite_distinct_list [OF finite_active [OF assms]] by blast
  note sums = active_sums [OF assms ws(1) ws(2) [unfolded active_wallets_def]]
  show "(\<Sum>w\<in>active_wallets c. unat (ledger_stake c w)) = staked c"
    using sums(1) ws by (simp add: sum_list_distinct_conv_sum_set)
  show "card (active_wallets c) = active_count c"
    using sums(2) ws distinct_card by metis
qed

text \<open>The example run, up to its settlement, keeps the discipline.\<close>

lemma example_stake_run:
  obtains c c' cm root where
    "chain_run ref_runtime (reset_complete ref_runtime) start_chain
      (setup_labels @ [deposit_label cm]) c"
    "chain_step ref_runtime (reset_complete ref_runtime) c (settle_label root) c'"
    "validator_accounts c = [alice \<mapsto> run_member alice, bob \<mapsto> run_member bob]"
    "validator_registry c = Some (run_registry 2)"
    "active_wallets c = {alice, bob}"
    "ledger_stake c alice = MIN_VALIDATOR_STAKE" "ledger_stake c bob = MIN_VALIDATOR_STAKE"
proof -
  have "\<not> is_reset i \<Longrightarrow> reset_complete ref_runtime c i" for c i
    by (cases i) simp_all
  then obtain c c' cm root where run:
    "chain_run ref_runtime (reset_complete ref_runtime) start_chain
      (setup_labels @ [deposit_label cm]) c"
    "chain_step ref_runtime (reset_complete ref_runtime) c (settle_label root) c'"
    "validator_accounts c = [alice \<mapsto> run_member alice, bob \<mapsto> run_member bob]"
    "validator_registry c = Some (run_registry 2)"
    using example_run [of "reset_complete ref_runtime"] by blast
  have "active_wallets c = {alice, bob}"
    using run(3) by (auto simp: active_wallets_def split: if_splits)
  moreover have "ledger_stake c alice = MIN_VALIDATOR_STAKE" "ledger_stake c bob = MIN_VALIDATOR_STAKE"
    using run(3) by (simp_all add: ledger_stake_def)
  ultimately show thesis using run by (intro that)
qed

text \<open>C6. Along every run whose registry resets pass all active validators, the registry's
  \<open>total_active_stake\<close> is exactly the sum of the stakes of the active validators and
  \<open>active_validators\<close> their number, and every active validator has at least the minimum
  stake.\<close>

theorem registry_counters_exact:
  assumes "runtime_ok rt" and "genesis rt c0" and "chain_run rt (reset_complete rt) c0 ls c"
    and "validator_registry c = Some r"
  shows "unat (vr_total_active_stake r) = (\<Sum>w\<in>active_wallets c. unat (ledger_stake c w)) \<and>
    unat (vr_active_validators r) = card (active_wallets c) \<and>
    (\<forall>w\<in>active_wallets c. MIN_VALIDATOR_STAKE \<le> ledger_stake c w)"
proof -
  have acc: "accounted rt c" using run_accounted [OF assms(1-3)] .
  then show ?thesis
    using active_wallets_sums [OF acc] assms(4)
    by (auto simp: accounted_def registry_exact_def active_wallets_def ledger_stake_def)
qed

theorem registry_counters_exact_witness:
  "\<exists>c r. validator_registry c = Some r \<and> active_wallets c = {alice, bob} \<and>
     unat (vr_total_active_stake r) = 2000000000"
proof (rule example_stake_run)
  fix c c' cm root
  assume run: "chain_run ref_runtime (reset_complete ref_runtime) start_chain
      (setup_labels @ [deposit_label cm]) c"
    and c: "validator_registry c = Some (run_registry 2)" "active_wallets c = {alice, bob}"
      "ledger_stake c alice = MIN_VALIDATOR_STAKE" "ledger_stake c bob = MIN_VALIDATOR_STAKE"
  from registry_counters_exact [OF ref_runtime_ok start_genesis run c(1)] c show ?thesis
    by (auto simp: MIN_VALIDATOR_STAKE_def)
qed

text \<open>C12. Along every run each validator account holds, on top of its rent, all the stake it
  records, active or unbonding, and is stored under the wallet it names; so neither a slash nor
  a withdrawal of recorded stake can overdraw it.\<close>

theorem stake_always_held:
  assumes "runtime_ok rt" and "genesis rt c0" and "chain_run rt D c0 ls c"
    and "validator_accounts c w = Some va"
  shows "va_validator va = w \<and>
    unat (minimum_balance rt (8 + ValidatorAccount_INIT_SPACE)) + unat (va_stake_amount va)
      + unat (va_unbonding_amount va) \<le> unat (lamports c (validator_key rt w))"
proof -
  have "backed rt c0" using genesis_accounted [OF assms(2)] by (simp add: accounted_def)
  then have "backed rt c"
    using assms(3) backed_step [OF assms(1)] by (metis chain_run_invariant [where I = "backed rt"])
  from backedD [OF this assms(4)] show ?thesis by (simp add: holds_stake_def)
qed

theorem stake_always_held_witness:
  "\<exists>c :: chain. validator_accounts c alice = Some (run_member alice) \<and>
     1000000145 \<le> unat (lamports c (validator_key ref_runtime alice))"
proof (rule example_stake_run)
  fix c c' cm root
  assume run: "chain_run ref_runtime (reset_complete ref_runtime) start_chain
      (setup_labels @ [deposit_label cm]) c"
    and c: "validator_accounts c = [alice \<mapsto> run_member alice, bob \<mapsto> run_member bob]"
  then have va: "validator_accounts c alice = Some (run_member alice)" by simp
  have "1000000145 \<le> unat (lamports c (validator_key ref_runtime alice))"
    using stake_always_held [OF ref_runtime_ok start_genesis run va]
    by (simp add: MIN_VALIDATOR_STAKE_def ValidatorAccount_INIT_SPACE_def)
  then show ?thesis using va by blast
qed

section \<open>The quorum is one of the ledger's stake\<close>

lemma vouched_ledger:
  assumes "infos_reflect rt c infos" and "vouched rt authority infos v"
  shows "validator_accounts c (va_validator v) = Some v"
  using assms by (auto simp: infos_reflect_def vouched_def)



section \<open>A full co-signature is accepted\<close>

definition cosigns ::
  "runtime \<Rightarrow> chain \<Rightarrow> (pubkey \<Rightarrow> account_info) \<Rightarrow> (pubkey \<Rightarrow> account_info) \<Rightarrow> pubkey \<Rightarrow> bool" where
  "cosigns rt c s p w \<longleftrightarrow>
     ai_key (s w) = w \<and> ai_is_signer (s w) \<and> ai_owner (p w) = program_id rt \<and>
     ai_key (p w) = validator_key rt w \<and>
     validator_try_deserialize rt (ai_data (p w)) = validator_accounts c w"

lemma counted_members_all:
  assumes "backed rt c" and "distinct ws" and "set ws \<subseteq> active_wallets c - {k}"
    and "\<forall>w\<in>set ws. cosigns rt c s p w" and "set ws \<inter> set seen = {}"
  shows "counted_members rt k (concat (map (\<lambda>w. [s w, p w]) ws)) seen
    = map (\<lambda>w. the (validator_accounts c w)) ws"
  using assms(2-5)
proof (induction ws arbitrary: seen)
  case (Cons w ws)
  then obtain va where va: "validator_accounts c w = Some va" "va_is_active va"
    by (auto simp: active_wallets_def)
  then have "va_validator va = w" using backedD [OF assms(1)] by (simp add: holds_stake_def)
  then have "pair_member rt k (s w) (p w) = Some va"
    using Cons.prems(2,3) va by (auto simp: pair_member_def cosigns_def)
  moreover have "ai_key (s w) = w" using Cons.prems(3) by (simp add: cosigns_def)
  ultimately show ?case using Cons va(1) by auto
qed simp



end
