(* ===== verification/Chain_Governance.thy ===== *)
theory Chain_Governance
  imports Chain_Stake
begin

text \<open>
  Who may do what, and when: which signature each privileged instruction needs, that the bridge
  settings change only under the registry (cold) authority, and that stake leaving the active
  set stays locked, and slashable, for the whole unbonding window.
\<close>

section \<open>Privileged instructions\<close>

fun is_setup :: "instruction \<Rightarrow> bool" where
  "is_setup (IxInitialize _ _ _) = True"
| "is_setup (IxInitializeMerkleTree _) = True"
| "is_setup (IxInitializeValidatorRegistry _ _) = True"
| "is_setup (IxInitStakeTokenVault _ _) = True"
| "is_setup (IxInitAssetVault _ _) = True"
| "is_setup (IxSetAssetDepositCap _ _ _) = True"
| "is_setup (IxResetValidatorRegistry _ _ _ _ _) = True"
| "is_setup _ = False"

fun is_governance :: "instruction \<Rightarrow> bool" where
  "is_governance (IxPause _) = True"
| "is_governance (IxUnpause _) = True"
| "is_governance (IxSetBridgeAuthority _ _) = True"
| "is_governance (IxSetDepositCap _ _) = True"
| "is_governance (IxSetMinTokenStake _ _) = True"
| "is_governance (IxUpdateReputation _ _ _ _) = True"
| "is_governance (IxSlashValidator _ _ _ _ _) = True"
| "is_governance (IxDeactivateValidator _ _) = True"
| "is_governance _ = False"

lemma setup_checked:
  assumes "is_setup i" and "exec rt clk i c = Ok (c', ev)"
  shows "check_upgrade_authority rt (program_data c) (instruction_signer i) = Ok ()"
  using assms by (cases i) (auto simp: quiet_admin elim!: reset_validator_registry_OkE)

lemma governance_checked:
  assumes "is_governance i" and "exec rt clk i c = Ok (c', ev)"
  shows "\<exists>r. validator_registry c = Some r \<and> vr_authority r = instruction_signer i"
  using assms
  by (cases i) (auto simp: quiet_admin deactivate_validator_def DeactivateValidator_accounts_Ok
      and_then_eq_Ok elim: update_reputation_OkE slash_validator_OkE)

lemma settlement_checked:
  assumes "is_settlement i" and "exec rt clk i c = Ok (c', ev)"
  shows "\<exists>bs. bridge_state c = Some bs \<and> bs_authority bs = instruction_signer i"
  using assms by (cases i) (auto elim: transact_OkE transact_spl_OkE)

text \<open>C17. Who may call what: every instruction that creates an account of the program or
  rebuilds the registry succeeds only for the key that the loader's program-data account names as
  upgrade authority; every governance instruction only for the registry authority; every
  settlement only for the bridge authority.\<close>

theorem privileged_instructions_need_their_key:
  assumes "length (instruction_signer i) = 32" and "exec rt clk i c = Ok (c', ev)"
  shows "(is_setup i \<longrightarrow> pd_owner (program_data c) = bpf_loader_upgradeable_id rt \<and>
      (\<exists>slot_bytes rest. length slot_bytes = 8 \<and> pd_data (program_data c) =
         program_data_layout slot_bytes (instruction_signer i) @ rest)) \<and>
    (is_governance i \<longrightarrow>
      (\<exists>r. validator_registry c = Some r \<and> vr_authority r = instruction_signer i)) \<and>
    (is_settlement i \<longrightarrow>
      (\<exists>bs. bridge_state c = Some bs \<and> bs_authority bs = instruction_signer i))"
  using setup_checked [OF _ assms(2)] governance_checked [OF _ assms(2)]
    settlement_checked [OF _ assms(2)] check_upgrade_authority_Ok [OF assms(1)]
  by blast

theorem privileged_instructions_need_their_key_witness:
  "(\<exists>c'. exec ref_runtime run_clock (IxInitialize alice 1 zero32) start_chain = Ok (c', NoEvent)) \<and>
   (\<exists>slot_bytes rest. length slot_bytes = 8 \<and>
      pd_data (program_data start_chain) = program_data_layout slot_bytes alice @ rest)"
proof -
  obtain c' where "exec ref_runtime run_clock (IxInitialize alice 1 zero32) start_chain = Ok (c', NoEvent)"
    using run_initialize [OF start_ledger] by blast
  then show ?thesis
    using privileged_instructions_need_their_key [of "IxInitialize alice 1 zero32"] by force
qed

section \<open>Bridge settings\<close>

definition bridge_settings :: "BridgeState \<Rightarrow> pubkey \<times> bool \<times> u64" where
  "bridge_settings bs = (bs_authority bs, bs_paused bs, bs_deposit_cap bs)"

lemma settings_kept:
  assumes "runtime_ok rt" and "signer_ok rt (instruction_signer i)" and "\<not> is_governance i"
    and "exec rt clk i c = Ok (c', ev)" and "bridge_state c = Some bs"
  shows "\<exists>bs'. bridge_state c' = Some bs' \<and> bridge_settings bs' = bridge_settings bs"
proof (cases "is_settlement i")
  case True
  then show ?thesis
  proof (cases i)
    case (IxTransact k recipient infos s)
    then have "signer_ok rt k" "transact rt clk k recipient infos s c = Ok (c', ev)"
      using assms(2,4) by simp_all
    then obtain bs1 n where "bridge_state c = Some bs1"
      "bridge_state c' = Some (bs1\<lparr>bs_total_withdrawn := n,
         bs_withdrawal_count := saturating_add (bs_withdrawal_count bs1) 1\<rparr>)"
      by (rule transact_effect [OF assms(1)])
    then show ?thesis using assms(5) by (simp add: bridge_settings_def)
  next
    case (IxTransactSpl k accts infos s)
    then have "signer_ok rt k" "transact_spl rt clk k accts infos s c = Ok (c', ev)"
      using assms(2,4) by simp_all
    then obtain bs1 where "bridge_state c = Some bs1"
      "bridge_state c' = Some (bs1\<lparr>bs_withdrawal_count :=
         saturating_add (bs_withdrawal_count bs1) 1\<rparr>)"
      by (rule transact_spl_effect [OF assms(1)])
    then show ?thesis using assms(5) by (simp add: bridge_settings_def)
  qed simp_all
next
  case False
  then show ?thesis
    using assms(3-5)
    by (cases i) (auto simp: quiet_admin bridge_settings_def elim!: deposit_note_OkE
        deposit_note_spl_OkE register_validator_OkE unregister_validator_OkE claim_rewards_OkE
        withdraw_unbonded_stake_OkE reset_validator_registry_OkE)
qed

text \<open>C16. The settlement authority, the pause switch and the deposit cap of an initialised bridge
  change only in an instruction signed by the registry authority; nothing removes the bridge
  state. In particular the hot settlement key cannot unpause the bridge, raise its cap or keep
  itself in office.\<close>

theorem bridge_settings_need_cold_key:
  assumes "runtime_ok rt" and "chain_step rt D c l c'" and "bridge_state c = Some bs"
  shows "\<exists>bs'. bridge_state c' = Some bs' \<and>
    (bridge_settings bs' = bridge_settings bs \<or>
     (\<exists>clk i ev r. l = Executed clk i ev \<and> validator_registry c = Some r \<and>
        vr_authority r = instruction_signer i))"
  using assms(2)
proof cases
  case (executed clk i ev)
  show ?thesis
  proof (cases "is_governance i")
    case True
    moreover have "\<exists>bs'. bridge_state c' = Some bs'"
      using True executed(2) assms(3)
      by (cases i) (auto simp: quiet_admin elim!: update_reputation_OkE slash_validator_OkE
          deactivate_validator_OkE)
    ultimately show ?thesis using governance_checked [OF True executed(2)] executed(1) by blast
  next
    case False
    then show ?thesis using settings_kept [OF assms(1) executed(3) False executed(2) assms(3)] by blast
  qed
qed (use assms(3) in \<open>auto simp: environment_def\<close>)

theorem bridge_settings_need_cold_key_witness:
  "\<exists>c' bs'. chain_step ref_runtime (\<lambda>c i. True) registry_chain
      (Executed run_clock (IxSetDepositCap alice (- 1)) NoEvent) c' \<and>
     bridge_state c' = Some bs' \<and> bridge_settings bs' \<noteq> bridge_settings run_bridge \<and>
     (\<exists>r. validator_registry registry_chain = Some r \<and> vr_authority r = alice)"
proof -
  have "ledger 10000000000 registry_chain registry_chain"
    using start_funded by (simp add: ledger_def run_chain_defs)
  then obtain c' where c': "exec ref_runtime run_clock (IxSetDepositCap alice (- 1)) registry_chain =
      Ok (c', NoEvent)" "ledger 10000000000 capped_chain c'" using run_set_cap by blast
  then have step: "chain_step ref_runtime (\<lambda>c i. True) registry_chain
      (Executed run_clock (IxSetDepositCap alice (- 1)) NoEvent) c'"
    by (intro chain_step.executed) (simp_all add: infos_reflect_def ledger_supply)
  have bs: "bridge_state registry_chain = Some run_bridge" by (simp add: run_chain_defs)
  have "bridge_state c' = Some (run_bridge\<lparr>bs_deposit_cap := - 1\<rparr>)"
    using c'(2) by (simp add: ledger_def run_chain_defs)
  moreover have "bridge_settings (run_bridge\<lparr>bs_deposit_cap := - 1\<rparr>) \<noteq> bridge_settings run_bridge"
    by (simp add: bridge_settings_def run_bridge_def)
  ultimately show ?thesis
    using bridge_settings_need_cold_key [OF ref_runtime_ok step bs] step by auto
qed

section \<open>The unbonding window\<close>

definition locked :: "pubkey \<Rightarrow> u64 \<Rightarrow> chain \<Rightarrow> bool" where
  "locked w until c \<longleftrightarrow> (\<exists>va. validator_accounts c w = Some va \<and> \<not> va_is_active va \<and>
     va_unbonding_slot va = until)"

text \<open>The clock of a step, if the step is an instruction of the program.\<close>

fun label_before :: "u64 \<Rightarrow> label \<Rightarrow> bool" where
  "label_before until (Executed clk _ _) \<longleftrightarrow> slot clk < until"
| "label_before until Other \<longleftrightarrow> True"

lemma locked_upd:
  assumes "locked w until c" and "validator_accounts c v = Some va"
    and "validator_accounts c' = (validator_accounts c)(v \<mapsto> va')"
    and "\<not> va_is_active va \<Longrightarrow> \<not> va_is_active va'"
    and "\<not> va_is_active va \<Longrightarrow> va_unbonding_slot va' = va_unbonding_slot va"
  shows "locked w until c'"
  using assms by (auto simp: locked_def)

lemma locked_accounts:
  assumes "locked w until c"
  shows "register_validator rt clk v mint vta stake token_stake c = Ok (c', ev) \<Longrightarrow> locked w until c'"
    and "unregister_validator clk v c = Ok (c', ev) \<Longrightarrow> locked w until c'"
    and "update_reputation clk k v u rep c = Ok (c', ev) \<Longrightarrow> locked w until c'"
    and "claim_rewards rt clk v c = Ok (c', ev) \<Longrightarrow> locked w until c'"
    and "deactivate_validator clk k v c = Ok (c', ev) \<Longrightarrow> locked w until c'"
    and "withdraw_unbonded_stake rt clk v mint vta c = Ok (c', ev) \<Longrightarrow> slot clk < until \<Longrightarrow>
      locked w until c'"
    and "deposit_note rt clk k amount pubkey blinding c = Ok (c', ev) \<Longrightarrow> locked w until c'"
  using assms unfolding locked_def
  by (auto elim!: deposit_note_OkE register_validator_OkE unregister_validator_OkE update_reputation_OkE
      claim_rewards_OkE deactivate_validator_OkE withdraw_unbonded_stake_OkE)

lemma locked_slash:
  assumes "locked w until c"
    and "slash_validator rt clk k v mint u pct c = Ok (c', ev)"
  shows "locked w until c'"
  using assms(2)
proof (rule slash_validator_OkE)
  fix va r sl v1 v2 ts
  assume va: "validator_accounts c v = Some va" and p: "pct \<le> 100"
    and sl: "slash_structs clk (slash_share (at_risk_stake va) pct)
      (slash_share (at_risk_token va) pct) va r = sl"
    and c': "c' = c\<lparr>lamports := (lamports c)(validator_key rt v := v1, slashed_funds_vault_key rt := v2),
      tokens := ts, validator_accounts := (validator_accounts c)(v \<mapsto> fst sl),
      validator_registry := Some (snd sl)\<rparr>"
  show ?thesis
    using slash_structs_effect(5,8) [OF slash_share_le [OF p] slash_share_le [OF p],
        where va' = "fst sl" and registry' = "snd sl"] sl c'
    by (intro locked_upd [OF assms(1) va, of c' "fst sl"]) auto
qed

lemma locked_settlement:
  assumes "runtime_ok rt" and "signer_ok rt k" and "locked w until c"
  shows "transact rt clk k recipient infos s c = Ok (c', ev) \<Longrightarrow> locked w until c'"
    and "transact_spl rt clk k accts infos s c = Ok (c', ev) \<Longrightarrow> locked w until c'"
proof -
  show "locked w until c'" if t: "transact rt clk k recipient infos s c = Ok (c', ev)"
  proof -
    obtain va n where "validator_accounts c k = Some va"
      "validator_accounts c' = (validator_accounts c)(k \<mapsto> credit_task clk (va\<lparr>va_pending_rewards := n\<rparr>))"
      by (rule transact_effect [OF assms(1,2) t])
    then show ?thesis by (rule locked_upd [OF assms(3)]) (simp_all add: credit_task_def)
  qed
  show "locked w until c'" if t: "transact_spl rt clk k accts infos s c = Ok (c', ev)"
  proof -
    obtain va where "validator_accounts c k = Some va"
      "validator_accounts c' = (validator_accounts c)(k \<mapsto> credit_task clk va)"
      by (rule transact_spl_effect [OF assms(1,2) t])
    then show ?thesis by (rule locked_upd [OF assms(3)]) (simp_all add: credit_task_def)
  qed
qed

lemma locked_step:
  assumes "runtime_ok rt" and "chain_step rt D c l c'" and "label_before until l"
    and "locked w until c"
  shows "locked w until c'"
  using assms(2)
proof cases
  case (executed clk i ev)
  show ?thesis
  proof (cases "is_quiet i")
    case True
    then show ?thesis
      using quiet_exec [OF assms(1) executed(3) True executed(2)] assms(4)
      by (simp add: quiet_def locked_def)
  next
    case False
    then show ?thesis
      using executed(1-3) assms(3)
      by (cases i) (auto intro: locked_accounts [OF assms(4)] locked_slash [OF assms(4)]
          locked_settlement [OF assms(1) _ assms(4)])
  qed
qed (use assms(4) in \<open>simp add: environment_def locked_def\<close>)



end
