(* ===== verification/Vote_Tally.thy ===== *)
theory Vote_Tally
  imports Prelude
begin

text \<open>
  Votes on one settlement (\<open>consensus/vote_tally.rs\<close>) and the log of misbehaviour
  (\<open>consensus/slashing.rs\<close>). A \<open>HashMap\<close> is an association list with distinct keys; its order
  stands for the iteration order, which no result here depends on. The clock is an argument.
\<close>

type_synonym NodeId = bytes

section \<open>Votes\<close>

datatype VerificationVote = Valid | Invalid string

definition is_valid :: "VerificationVote \<Rightarrow> bool" where
  "is_valid v = (case v of Valid \<Rightarrow> True | Invalid _ \<Rightarrow> False)"

record VoteRecord =
  vrec_vote :: VerificationVote
  vrec_node_id :: NodeId
  vrec_signature :: bytes

record VoteTally =
  vt_request_id :: string
  vt_votes :: "(string \<times> VoteRecord) list"
  vt_started_at :: u64
  vt_deadline :: u64
  vt_min_validators :: nat
  vt_total_validators :: nat

datatype SlashingEvidence =
  Equivocation string string VerificationVote VerificationVote bytes bytes
| PersistentUnavailability u64 u64

text \<open>\<open>now + 30\<close> panics on overflow.\<close>

definition VoteTally_new :: "u64 \<Rightarrow> string \<Rightarrow> nat \<Rightarrow> nat \<Rightarrow> VoteTally option" where
  "VoteTally_new now request_id min_validators total_validators =
     map_option (\<lambda>deadline.
       \<lparr> vt_request_id = request_id, vt_votes = [], vt_started_at = now, vt_deadline = deadline,
         vt_min_validators = min_validators, vt_total_validators = total_validators \<rparr>)
       (checked_add now 30)"

definition submit_vote ::
  "string \<Rightarrow> NodeId \<Rightarrow> VerificationVote \<Rightarrow> bytes \<Rightarrow> VoteTally
     \<Rightarrow> VoteTally \<times> SlashingEvidence option" where
  "submit_vote wallet node_id vote signature t =
     (case map_of (vt_votes t) wallet of
        Some previous \<Rightarrow>
          if is_valid (vrec_vote previous) = is_valid vote then (t, None)
          else (t, Some (Equivocation (vt_request_id t) wallet (vrec_vote previous) vote
                  (vrec_signature previous) signature))
      | None \<Rightarrow>
          (t\<lparr>vt_votes := vt_votes t @ [(wallet,
               \<lparr> vrec_vote = vote, vrec_node_id = node_id, vrec_signature = signature \<rparr>)]\<rparr>, None))"

definition count_eligible_votes :: "string set \<Rightarrow> VoteTally \<Rightarrow> nat" where
  "count_eligible_votes eligible_wallets t =
     length (filter (\<lambda>(wallet, _). wallet \<in> eligible_wallets) (vt_votes t))"

definition has_consensus :: "string set \<Rightarrow> VoteTally \<Rightarrow> bool" where
  "has_consensus eligible_wallets t \<longleftrightarrow> vt_min_validators t \<le> count_eligible_votes eligible_wallets t"

definition is_timed_out :: "u64 \<Rightarrow> VoteTally \<Rightarrow> bool" where
  "is_timed_out now t \<longleftrightarrow> vt_deadline t < now"

text \<open>Decimal numbers, as \<open>format!\<close> prints them.\<close>

fun show_nat :: "nat \<Rightarrow> string" where
  "show_nat n =
     (if n < 10 then [char_of (48 + n)] else show_nat (n div 10) @ [char_of (48 + n mod 10)])"

declare show_nat.simps [simp del]

datatype tally_error = NotEnoughEligibleVotes nat nat nat

definition consensus_result :: "string set \<Rightarrow> VoteTally \<Rightarrow> (VerificationVote, tally_error) result" where
  "consensus_result eligible_wallets t =
     (let eligible = map (vrec_vote \<circ> snd) (filter (\<lambda>(wallet, _). wallet \<in> eligible_wallets) (vt_votes t));
          excluded = length (filter (\<lambda>(wallet, _). wallet \<notin> eligible_wallets) (vt_votes t)) in
      if length eligible < vt_min_validators t
      then Err (NotEnoughEligibleVotes (length eligible) (vt_min_validators t) excluded)
      else let valid_count = length (filter is_valid eligible);
               invalid_count = length eligible - valid_count in
        if vt_min_validators t \<le> valid_count then Ok Valid
        else Ok (Invalid (''Consensus rejected: '' @ show_nat valid_count @ '' valid, '' @
               show_nat invalid_count @ '' invalid (need '' @ show_nat (vt_min_validators t) @ '')'')))"

definition vote_counts :: "VoteTally \<Rightarrow> nat \<times> nat" where
  "vote_counts t =
     (let valid = length (filter (is_valid \<circ> vrec_vote \<circ> snd) (vt_votes t))
      in (valid, length (vt_votes t) - valid))"

definition valid_voters :: "string set \<Rightarrow> VoteTally \<Rightarrow> NodeId list" where
  "valid_voters eligible_wallets t =
     map (vrec_node_id \<circ> snd)
       (filter (\<lambda>(wallet, rec). is_valid (vrec_vote rec) \<and> wallet \<in> eligible_wallets) (vt_votes t))"

section \<open>The log of misbehaviour\<close>

record SlashingRecord =
  sr_validator :: NodeId
  sr_evidence :: SlashingEvidence
  sr_recorded_at :: u64

type_synonym SlashingTracker = "NodeId \<rightharpoonup> SlashingRecord list"

definition slashing_record :: "u64 \<Rightarrow> NodeId \<Rightarrow> SlashingEvidence \<Rightarrow> SlashingTracker \<Rightarrow> SlashingTracker" where
  "slashing_record now validator evidence records =
     records(validator \<mapsto> (case records validator of Some rs \<Rightarrow> rs | None \<Rightarrow> []) @
       [\<lparr> sr_validator = validator, sr_evidence = evidence, sr_recorded_at = now \<rparr>])"

definition for_validator :: "NodeId \<Rightarrow> SlashingTracker \<Rightarrow> SlashingRecord list" where
  "for_validator validator records = (case records validator of Some rs \<Rightarrow> rs | None \<Rightarrow> [])"

definition flagged_validators :: "SlashingTracker \<Rightarrow> NodeId set" where
  "flagged_validators records = dom records"

section \<open>One wallet, one vote\<close>

text \<open>A round: the votes of a list of submissions, with the evidence each produced.\<close>

type_synonym ballot = "string \<times> NodeId \<times> VerificationVote \<times> bytes"

fun submit_all :: "ballot list \<Rightarrow> VoteTally \<Rightarrow> VoteTally \<times> SlashingEvidence list" where
  "submit_all [] t = (t, [])"
| "submit_all ((w, n, v, s) # bs) t =
     (let (t1, e) = submit_vote w n v s t; (t2, es) = submit_all bs t1
      in (t2, (case e of Some x \<Rightarrow> [x] | None \<Rightarrow> []) @ es))"

definition first_ballot :: "string \<Rightarrow> ballot list \<Rightarrow> VoteRecord option" where
  "first_ballot w bs =
     map_of (map (\<lambda>(w, n, v, s). (w, \<lparr> vrec_vote = v, vrec_node_id = n, vrec_signature = s \<rparr>)) bs) w"

lemma submit_vote_votes:
  "map_of (vt_votes (fst (submit_vote w n v s t))) w' =
     (case map_of (vt_votes t) w' of
        Some r \<Rightarrow> Some r
      | None \<Rightarrow> if w' = w then Some \<lparr> vrec_vote = v, vrec_node_id = n, vrec_signature = s \<rparr> else None)"
  by (auto simp: submit_vote_def map_add_def split: option.splits)

lemma submit_vote_same [simp]:
  "vt_request_id (fst (submit_vote w n v s t)) = vt_request_id t"
  "vt_min_validators (fst (submit_vote w n v s t)) = vt_min_validators t"
  "vt_deadline (fst (submit_vote w n v s t)) = vt_deadline t"
  by (auto simp: submit_vote_def split: option.splits)

lemma submit_vote_distinct:
  "distinct (map fst (vt_votes t)) \<Longrightarrow> distinct (map fst (vt_votes (fst (submit_vote w n v s t))))"
  by (auto simp: submit_vote_def map_of_eq_None_iff split: option.splits)

lemma submit_vote_evidence:
  "snd (submit_vote w n v s t) = Some e \<longleftrightarrow>
     (\<exists>r. map_of (vt_votes t) w = Some r \<and> is_valid (vrec_vote r) \<noteq> is_valid v \<and>
        e = Equivocation (vt_request_id t) w (vrec_vote r) v (vrec_signature r) s)"
  by (auto simp: submit_vote_def split: option.splits)

lemma first_ballot_Cons:
  "first_ballot w ((w', n, v, s) # bs) =
     (if w = w' then Some \<lparr> vrec_vote = v, vrec_node_id = n, vrec_signature = s \<rparr> else first_ballot w bs)"
  by (simp add: first_ballot_def)

lemma submit_all_step:
  "submit_all ((w, n, v, s) # bs) t =
     (fst (submit_all bs (fst (submit_vote w n v s t))),
      (case snd (submit_vote w n v s t) of Some x \<Rightarrow> [x] | None \<Rightarrow> []) @
        snd (submit_all bs (fst (submit_vote w n v s t))))"
  by (simp add: Let_def case_prod_unfold)

lemma submit_all_votes:
  "map_of (vt_votes (fst (submit_all bs t))) w =
     (case map_of (vt_votes t) w of Some r \<Rightarrow> Some r | None \<Rightarrow> first_ballot w bs)"
proof (induction bs arbitrary: t)
  case Nil
  show ?case by (simp add: first_ballot_def split: option.splits)
next
  case (Cons b bs)
  obtain w' n v s where b: "b = (w', n, v, s)" by (cases b)
  show ?case
    unfolding b submit_all_step fst_conv Cons.IH submit_vote_votes first_ballot_Cons
    by (simp split: option.splits)
qed

lemma submit_all_distinct:
  "distinct (map fst (vt_votes t)) \<Longrightarrow> distinct (map fst (vt_votes (fst (submit_all bs t))))"
proof (induction bs arbitrary: t)
  case (Cons b bs)
  obtain w n v s where b: "b = (w, n, v, s)" by (cases b)
  show ?case
    unfolding b submit_all_step fst_conv by (rule Cons.IH [OF submit_vote_distinct [OF Cons.prems]])
qed simp

text \<open>Evidence arises exactly from the ballots that disagree with the vote that stands.\<close>

definition convicts :: "string \<Rightarrow> (string \<rightharpoonup> VoteRecord) \<Rightarrow> ballot \<Rightarrow> SlashingEvidence \<Rightarrow> bool" where
  "convicts rid standing b e \<longleftrightarrow>
     (case b of (w, n, v, s) \<Rightarrow> \<exists>r. standing w = Some r \<and> is_valid (vrec_vote r) \<noteq> is_valid v \<and>
        e = Equivocation rid w (vrec_vote r) v (vrec_signature r) s)"

lemma submit_all_evidence:
  "e \<in> set (snd (submit_all bs t)) \<longleftrightarrow>
     (\<exists>b \<in> set bs. convicts (vt_request_id t) (map_of (vt_votes (fst (submit_all bs t)))) b e)"
proof (induction bs arbitrary: t)
  case (Cons b bs)
  obtain w n v s where b: "b = (w, n, v, s)" by (cases b)
  let ?t = "fst (submit_vote w n v s t)"
  have head: "snd (submit_vote w n v s t) = Some e \<longleftrightarrow>
      convicts (vt_request_id t) (map_of (vt_votes (fst (submit_all bs ?t)))) (w, n, v, s) e"
    unfolding submit_vote_evidence submit_all_votes submit_vote_votes convicts_def
    by (cases "map_of (vt_votes t) w") simp_all
  have "e \<in> set (snd (submit_all (b # bs) t)) \<longleftrightarrow>
      snd (submit_vote w n v s t) = Some e \<or> e \<in> set (snd (submit_all bs ?t))"
    unfolding b submit_all_step by (auto split: option.splits)
  then show ?case unfolding head Cons.IH unfolding b submit_all_step by simp
qed simp

lemma first_ballot_cast: "first_ballot w bs = Some r \<Longrightarrow>
    (w, vrec_node_id r, vrec_vote r, vrec_signature r) \<in> set bs"
  by (auto simp: first_ballot_def dest!: map_of_SomeD)

lemma first_ballot_exists: "(w, n, v, s) \<in> set bs \<Longrightarrow> \<exists>r. first_ballot w bs = Some r"
  by (induction bs) (auto simp: first_ballot_Cons)

lemma disagrees_with_first:
  "(\<exists>r n v s. (w, n, v, s) \<in> set bs \<and> first_ballot w bs = Some r \<and> is_valid (vrec_vote r) \<noteq> is_valid v) \<longleftrightarrow>
   (\<exists>n v s n' v' s'. (w, n, v, s) \<in> set bs \<and> (w, n', v', s') \<in> set bs \<and> is_valid v \<and> \<not> is_valid v')"
    (is "?l \<longleftrightarrow> ?r")
proof
  assume ?l
  then obtain r n v s where "(w, n, v, s) \<in> set bs" "is_valid (vrec_vote r) \<noteq> is_valid v"
    and r: "first_ballot w bs = Some r" by blast
  with first_ballot_cast [OF r] show ?r by (cases "is_valid v") blast+
next
  assume ?r
  then obtain n v s n' v' s' where b: "(w, n, v, s) \<in> set bs" "(w, n', v', s') \<in> set bs"
    "is_valid v" "\<not> is_valid v'" by blast
  then obtain r where "first_ballot w bs = Some r" using first_ballot_exists by blast
  then show ?l using b by (cases "is_valid (vrec_vote r)") blast+
qed

lemma convicted_wallet:
  "(\<exists>pv nv ps ns. \<exists>b \<in> set bs. convicts rid (\<lambda>u. first_ballot u bs) b (Equivocation rid w pv nv ps ns)) \<longleftrightarrow>
   (\<exists>r n v s. (w, n, v, s) \<in> set bs \<and> first_ballot w bs = Some r \<and> is_valid (vrec_vote r) \<noteq> is_valid v)"
  (is "?l \<longleftrightarrow> ?r")
proof
  assume ?l
  then obtain pv nv ps ns b where b: "b \<in> set bs"
    and c: "convicts rid (\<lambda>u. first_ballot u bs) b (Equivocation rid w pv nv ps ns)" by blast
  obtain w' n v s where "b = (w', n, v, s)" by (cases b)
  then show ?r using b c by (auto simp: convicts_def)
next
  assume ?r
  then obtain r n v s where r: "(w, n, v, s) \<in> set bs" "first_ballot w bs = Some r"
    "is_valid (vrec_vote r) \<noteq> is_valid v" by blast
  then have "convicts rid (\<lambda>u. first_ballot u bs) (w, n, v, s)
      (Equivocation rid w (vrec_vote r) v (vrec_signature r) s)" by (simp add: convicts_def)
  then show ?l using r(1) by blast
qed

lemma conviction_quotes:
  assumes "b \<in> set bs" and "convicts rid (\<lambda>u. first_ballot u bs) b e"
  shows "\<exists>w n v s n' v' s'. e = Equivocation rid w v v' s s' \<and>
    (w, n, v, s) \<in> set bs \<and> (w, n', v', s') \<in> set bs \<and> is_valid v \<noteq> is_valid v'"
proof -
  obtain w n v s where b: "b = (w, n, v, s)" by (cases b)
  then obtain r where r: "first_ballot w bs = Some r" "is_valid (vrec_vote r) \<noteq> is_valid v"
    "e = Equivocation rid w (vrec_vote r) v (vrec_signature r) s"
    using assms(2) by (auto simp: convicts_def)
  from first_ballot_cast [OF r(1)] r(2,3) assms(1) b show ?thesis by blast
qed

section \<open>Properties\<close>

text \<open>C30. Equivocation is detected exactly and never framed: after any sequence of ballots on a fresh
  tally, each wallet counts once, with its first ballot; a wallet is reported exactly if it cast both
  a valid and an invalid vote; and every report quotes two conflicting ballots of that wallet with
  the signatures they came with.\<close>

theorem equivocation_exact:
  assumes "VoteTally_new now rid k m = Some t" and "submit_all bs t = (t', es)"
  shows "distinct (map fst (vt_votes t')) \<and> map_of (vt_votes t') w = first_ballot w bs \<and>
    ((\<exists>pv nv ps ns. Equivocation rid w pv nv ps ns \<in> set es) \<longleftrightarrow>
       (\<exists>n v s n' v' s'. (w, n, v, s) \<in> set bs \<and> (w, n', v', s') \<in> set bs \<and> is_valid v \<and> \<not> is_valid v')) \<and>
    (\<forall>e \<in> set es. \<exists>w n v s n' v' s'. e = Equivocation rid w v v' s s' \<and>
       (w, n, v, s) \<in> set bs \<and> (w, n', v', s') \<in> set bs \<and> is_valid v \<noteq> is_valid v')"
proof -
  have t: "vt_votes t = []" "vt_request_id t = rid" using assms(1) by (auto simp: VoteTally_new_def)
  have votes: "map_of (vt_votes t') = (\<lambda>u. first_ballot u bs)"
    using submit_all_votes [of bs t] t assms(2) by (simp add: fun_eq_iff)
  have ev: "e \<in> set es \<longleftrightarrow> (\<exists>b \<in> set bs. convicts rid (\<lambda>u. first_ballot u bs) b e)" for e
    using submit_all_evidence [of e bs t] unfolding assms(2) t fst_conv snd_conv votes .
  have dist: "distinct (map fst (vt_votes t'))" using submit_all_distinct [of t bs] t assms(2) by simp
  show ?thesis
  proof (intro conjI ballI)
    show "distinct (map fst (vt_votes t'))" by (rule dist)
    show "map_of (vt_votes t') w = first_ballot w bs" by (simp add: votes)
    show "(\<exists>pv nv ps ns. Equivocation rid w pv nv ps ns \<in> set es) \<longleftrightarrow>
        (\<exists>n v s n' v' s'. (w, n, v, s) \<in> set bs \<and> (w, n', v', s') \<in> set bs \<and> is_valid v \<and> \<not> is_valid v')"
      unfolding ev convicted_wallet by (rule disagrees_with_first)
    fix e assume "e \<in> set es"
    then obtain b where "b \<in> set bs" "convicts rid (\<lambda>u. first_ballot u bs) b e" unfolding ev by blast
    then show "\<exists>w n v s n' v' s'. e = Equivocation rid w v v' s s' \<and>
        (w, n, v, s) \<in> set bs \<and> (w, n', v', s') \<in> set bs \<and> is_valid v \<noteq> is_valid v'"
      by (rule conviction_quotes)
  qed
qed

section \<open>Examples\<close>

definition example_ballots :: "ballot list" where
  "example_ballots = [(''A'', [1], Valid, [7]), (''B'', [2], Valid, [8]),
     (''A'', [3], Invalid ''late'', [9])]"

theorem equivocation_exact_witness:
  "\<exists>t t' es. VoteTally_new 100 ''r'' 2 3 = Some t \<and> submit_all example_ballots t = (t', es) \<and>
     (\<exists>pv nv ps ns. Equivocation ''r'' ''A'' pv nv ps ns \<in> set es) \<and>
     \<not> (\<exists>pv nv ps ns. Equivocation ''r'' ''B'' pv nv ps ns \<in> set es)"
proof -
  obtain t where t: "VoteTally_new 100 ''r'' 2 3 = Some t"
    by (simp add: VoteTally_new_def checked_add_def)
  obtain t' es where run: "submit_all example_ballots t = (t', es)" by force
  have "(''A'', [1], Valid, [7]) \<in> set example_ballots"
    "(''A'', [3], Invalid ''late'', [9]) \<in> set example_ballots"
    "is_valid Valid" "\<not> is_valid (Invalid ''late'')"
    by (simp_all add: example_ballots_def is_valid_def)
  then have "\<exists>pv nv ps ns. Equivocation ''r'' ''A'' pv nv ps ns \<in> set es"
    using equivocation_exact [OF t run, of "''A''"] by blast
  moreover have "(''B'', n, v, s) \<in> set example_ballots \<Longrightarrow> is_valid v" for n v s
    by (simp add: example_ballots_def is_valid_def)
  then have "\<not> (\<exists>pv nv ps ns. Equivocation ''r'' ''B'' pv nv ps ns \<in> set es)"
    using equivocation_exact [OF t run, of "''B''"] by blast
  ultimately show ?thesis using t run by blast
qed

end
