(* ===== verification/Reputation.thy ===== *)
theory Reputation
  imports Vote_Tally
begin

text \<open>
  Reputation of the validators (\<open>consensus/reputation.rs\<close>). The clock is an argument, and so is
  whether a snapshot could be written to disk. The decay is computed in floating point with
  \<open>f64::powi\<close>, whose precision the standard library leaves open: the argument \<open>decayed\<close> stands for
  the expression \<open>(reputation as f64 * (1.0 - rate).powi(days)) as u64\<close>. Sums that overflow panic.
\<close>

section \<open>Metrics\<close>

definition BASE_REPUTATION :: u64 where "BASE_REPUTATION = 1000"

definition MAX_REPUTATION :: u64 where "MAX_REPUTATION = 10000"

definition MIN_REPUTATION :: u64 where "MIN_REPUTATION = 100"

definition REPUTATION_INCREASE_SUCCESS :: u64 where "REPUTATION_INCREASE_SUCCESS = 10"

definition REPUTATION_DECREASE_FAILURE :: u64 where "REPUTATION_DECREASE_FAILURE = 50"

definition REPUTATION_DECREASE_TIMEOUT :: u64 where "REPUTATION_DECREASE_TIMEOUT = 30"

definition REPUTATION_BONUS_CONSENSUS :: u64 where "REPUTATION_BONUS_CONSENSUS = 5"

definition SECONDS_PER_DAY :: u64 where "SECONDS_PER_DAY = 86400"

lemmas reputation_constants = BASE_REPUTATION_def MAX_REPUTATION_def MIN_REPUTATION_def
  REPUTATION_INCREASE_SUCCESS_def REPUTATION_DECREASE_FAILURE_def REPUTATION_DECREASE_TIMEOUT_def
  REPUTATION_BONUS_CONSENSUS_def

record ValidatorMetrics =
  vm_node_id :: NodeId
  vm_reputation :: u64
  vm_total_verifications :: u64
  vm_successful_verifications :: u64
  vm_failed_verifications :: u64
  vm_timeouts :: u64
  vm_last_active :: u64
  vm_registered_at :: u64

definition ValidatorMetrics_new :: "u64 \<Rightarrow> NodeId \<Rightarrow> ValidatorMetrics" where
  "ValidatorMetrics_new now node_id =
     \<lparr> vm_node_id = node_id, vm_reputation = BASE_REPUTATION, vm_total_verifications = 0,
       vm_successful_verifications = 0, vm_failed_verifications = 0, vm_timeouts = 0,
       vm_last_active = now, vm_registered_at = now \<rparr>"

definition days_inactive :: "u64 \<Rightarrow> ValidatorMetrics \<Rightarrow> u64" where
  "days_inactive now m = saturating_sub now (vm_last_active m) div SECONDS_PER_DAY"

text \<open>\<open>days_inactive as i32\<close> keeps the low 32 bits.\<close>

definition apply_decay ::
  "(u64 \<Rightarrow> 32 word \<Rightarrow> u64) \<Rightarrow> u64 \<Rightarrow> ValidatorMetrics \<Rightarrow> ValidatorMetrics" where
  "apply_decay decayed now m =
     (let days = days_inactive now m in
      if days = 0 then m
      else m\<lparr>vm_reputation := max (decayed (vm_reputation m) (ucast days)) MIN_REPUTATION\<rparr>)"

definition mark_active :: "u64 \<Rightarrow> ValidatorMetrics \<Rightarrow> ValidatorMetrics" where
  "mark_active now m = m\<lparr>vm_last_active := now\<rparr>"

section \<open>The tracker\<close>

text \<open>\<open>rt_disk\<close> is \<open>None\<close> for a tracker without a file, otherwise the last snapshot written.\<close>

type_synonym metrics_map = "NodeId \<rightharpoonup> ValidatorMetrics"

record ReputationTracker =
  rt_metrics :: metrics_map
  rt_disk :: "metrics_map option"

datatype reputation_error = ValidatorNotFound | CounterOverflow

definition ReputationTracker_new :: ReputationTracker where
  "ReputationTracker_new = \<lparr> rt_metrics = Map.empty, rt_disk = None \<rparr>"

text \<open>Loading from a file that holds a snapshot, or that is missing or unreadable.\<close>

definition with_persistence :: "metrics_map option \<Rightarrow> ReputationTracker" where
  "with_persistence snapshot =
     (let metrics = (case snapshot of Some m \<Rightarrow> m | None \<Rightarrow> Map.empty)
      in \<lparr> rt_metrics = metrics, rt_disk = Some metrics \<rparr>)"

definition persist_locked :: "bool \<Rightarrow> ReputationTracker \<Rightarrow> ReputationTracker" where
  "persist_locked written t =
     (case rt_disk t of
        None \<Rightarrow> t
      | Some _ \<Rightarrow> if written then t\<lparr>rt_disk := Some (rt_metrics t)\<rparr> else t)"

definition reputation_register :: "u64 \<Rightarrow> bool \<Rightarrow> NodeId \<Rightarrow> ReputationTracker \<Rightarrow> ReputationTracker" where
  "reputation_register now written node_id t =
     persist_locked written
       (case rt_metrics t node_id of
          Some _ \<Rightarrow> t
        | None \<Rightarrow> t\<lparr>rt_metrics := (rt_metrics t)(node_id \<mapsto> ValidatorMetrics_new now node_id)\<rparr>)"

definition reputation_unregister :: "bool \<Rightarrow> NodeId \<Rightarrow> ReputationTracker \<Rightarrow> ReputationTracker" where
  "reputation_unregister written node_id t =
     persist_locked written (t\<lparr>rt_metrics := (rt_metrics t)(node_id := None)\<rparr>)"

text \<open>\<open>+= 1\<close> on a counter.\<close>

definition bump :: "u64 \<Rightarrow> (u64, reputation_error) result" where
  "bump n = ok_or (checked_add n 1) CounterOverflow"

definition record_success ::
  "u64 \<Rightarrow> bool \<Rightarrow> NodeId \<Rightarrow> ReputationTracker \<Rightarrow> (ReputationTracker \<times> u64, reputation_error) result"
  where
  "record_success now written node_id t =
     and_then (ok_or (rt_metrics t node_id) ValidatorNotFound) (\<lambda>v.
     and_then (bump (vm_total_verifications v)) (\<lambda>n_total.
     and_then (bump (vm_successful_verifications v)) (\<lambda>n_successful.
     and_then (ok_or (checked_add (vm_reputation v) REPUTATION_INCREASE_SUCCESS) CounterOverflow) (\<lambda>r1.
     and_then (ok_or (checked_add r1 REPUTATION_BONUS_CONSENSUS) CounterOverflow) (\<lambda>r2.
     let reputation = min r2 MAX_REPUTATION;
         v' = mark_active now (v\<lparr>vm_total_verifications := n_total,
                vm_successful_verifications := n_successful\<rparr>)\<lparr>vm_reputation := reputation\<rparr>
     in Ok (persist_locked written (t\<lparr>rt_metrics := (rt_metrics t)(node_id \<mapsto> v')\<rparr>), reputation))))))"

definition record_failure ::
  "u64 \<Rightarrow> bool \<Rightarrow> NodeId \<Rightarrow> ReputationTracker \<Rightarrow> (ReputationTracker \<times> u64, reputation_error) result"
  where
  "record_failure now written node_id t =
     and_then (ok_or (rt_metrics t node_id) ValidatorNotFound) (\<lambda>v.
     and_then (bump (vm_total_verifications v)) (\<lambda>n_total.
     and_then (bump (vm_failed_verifications v)) (\<lambda>n_failed.
     let reputation = max (saturating_sub (vm_reputation v) REPUTATION_DECREASE_FAILURE) MIN_REPUTATION;
         v' = mark_active now (v\<lparr>vm_total_verifications := n_total,
                vm_failed_verifications := n_failed\<rparr>)\<lparr>vm_reputation := reputation\<rparr>
     in Ok (persist_locked written (t\<lparr>rt_metrics := (rt_metrics t)(node_id \<mapsto> v')\<rparr>), reputation))))"

definition record_timeout ::
  "bool \<Rightarrow> NodeId \<Rightarrow> ReputationTracker \<Rightarrow> (ReputationTracker \<times> u64, reputation_error) result"
  where
  "record_timeout written node_id t =
     and_then (ok_or (rt_metrics t node_id) ValidatorNotFound) (\<lambda>v.
     and_then (bump (vm_total_verifications v)) (\<lambda>n_total.
     and_then (bump (vm_timeouts v)) (\<lambda>n_timeouts.
     let reputation = max (saturating_sub (vm_reputation v) REPUTATION_DECREASE_TIMEOUT) MIN_REPUTATION;
         v' = v\<lparr>vm_total_verifications := n_total, vm_timeouts := n_timeouts,
                vm_reputation := reputation\<rparr>
     in Ok (persist_locked written (t\<lparr>rt_metrics := (rt_metrics t)(node_id \<mapsto> v')\<rparr>), reputation))))"

text \<open>The decay of all validators, with the number of scores that changed; it is not written to
  disk.\<close>

definition apply_decay_all ::
  "(u64 \<Rightarrow> 32 word \<Rightarrow> u64) \<Rightarrow> u64 \<Rightarrow> ReputationTracker \<Rightarrow> ReputationTracker \<times> nat" where
  "apply_decay_all decayed now t =
     (let metrics = (\<lambda>n. map_option (apply_decay decayed now) (rt_metrics t n))
      in (t\<lparr>rt_metrics := metrics\<rparr>,
          card {n \<in> dom (rt_metrics t).
            map_option vm_reputation (metrics n) \<noteq> map_option vm_reputation (rt_metrics t n)}))"

definition get_metrics :: "NodeId \<Rightarrow> ReputationTracker \<Rightarrow> ValidatorMetrics option" where
  "get_metrics node_id t = rt_metrics t node_id"

definition get_reputation :: "NodeId \<Rightarrow> ReputationTracker \<Rightarrow> u64 option" where
  "get_reputation node_id t = map_option vm_reputation (rt_metrics t node_id)"

definition low_reputation :: "ReputationTracker \<Rightarrow> NodeId set" where
  "low_reputation t = {n. \<exists>m. rt_metrics t n = Some m \<and> vm_reputation m \<le> MIN_REPUTATION}"

section \<open>Histories\<close>

text \<open>An event of the tracker with the clock and the outcome of the disk write. An event for an
  unknown validator is refused and changes nothing; a counter that reaches its end ends the
  history.\<close>

datatype reputation_event =
  Registered NodeId | Unregistered NodeId | Success NodeId | Failure NodeId | TimedOut NodeId | Decayed

definition keep_or :: "ReputationTracker \<Rightarrow> (ReputationTracker \<times> u64, reputation_error) result
    \<Rightarrow> ReputationTracker option" where
  "keep_or t r = (case r of Ok (t', _) \<Rightarrow> Some t' | Err ValidatorNotFound \<Rightarrow> Some t
     | Err CounterOverflow \<Rightarrow> None)"

fun reputation_step ::
  "(u64 \<Rightarrow> 32 word \<Rightarrow> u64) \<Rightarrow> u64 \<times> bool \<times> reputation_event \<Rightarrow> ReputationTracker \<Rightarrow> ReputationTracker option"
  where
  "reputation_step decayed (now, written, Registered n) t = Some (reputation_register now written n t)"
| "reputation_step decayed (now, written, Unregistered n) t = Some (reputation_unregister written n t)"
| "reputation_step decayed (now, written, Success n) t = keep_or t (record_success now written n t)"
| "reputation_step decayed (now, written, Failure n) t = keep_or t (record_failure now written n t)"
| "reputation_step decayed (now, written, TimedOut n) t = keep_or t (record_timeout written n t)"
| "reputation_step decayed (now, written, Decayed) t = Some (fst (apply_decay_all decayed now t))"

fun reputation_run ::
  "(u64 \<Rightarrow> 32 word \<Rightarrow> u64) \<Rightarrow> (u64 \<times> bool \<times> reputation_event) list \<Rightarrow> ReputationTracker
     \<Rightarrow> ReputationTracker option" where
  "reputation_run decayed [] t = Some t"
| "reputation_run decayed (e # es) t =
     (case reputation_step decayed e t of None \<Rightarrow> None | Some t' \<Rightarrow> reputation_run decayed es t')"

text \<open>A multiplier between 0 and 1 does not raise a score.\<close>

definition decay_ok :: "(u64 \<Rightarrow> 32 word \<Rightarrow> u64) \<Rightarrow> bool" where
  "decay_ok decayed \<longleftrightarrow> (\<forall>r days. 0 < sint days \<longrightarrow> decayed r days \<le> r)"

definition metrics_bounded :: "metrics_map \<Rightarrow> bool" where
  "metrics_bounded m \<longleftrightarrow>
     (\<forall>n v. m n = Some v \<longrightarrow> MIN_REPUTATION \<le> vm_reputation v \<and> vm_reputation v \<le> MAX_REPUTATION)"

definition tracker_bounded :: "ReputationTracker \<Rightarrow> bool" where
  "tracker_bounded t \<longleftrightarrow> metrics_bounded (rt_metrics t) \<and>
     (case rt_disk t of None \<Rightarrow> True | Some m \<Rightarrow> metrics_bounded m)"

lemma metrics_boundedD:
  "metrics_bounded m \<Longrightarrow> m n = Some v \<Longrightarrow> MIN_REPUTATION \<le> vm_reputation v \<and> vm_reputation v \<le> MAX_REPUTATION"
  unfolding metrics_bounded_def by blast

lemma metrics_bounded_upd:
  "metrics_bounded m \<Longrightarrow> MIN_REPUTATION \<le> vm_reputation v \<Longrightarrow> vm_reputation v \<le> MAX_REPUTATION \<Longrightarrow>
   metrics_bounded (m(n \<mapsto> v))"
  by (simp add: metrics_bounded_def)

lemma metrics_bounded_del: "metrics_bounded m \<Longrightarrow> metrics_bounded (m(n := None))"
  by (simp add: metrics_bounded_def)

lemma persist_locked_bounded:
  "tracker_bounded t \<Longrightarrow> metrics_bounded m \<Longrightarrow> tracker_bounded (persist_locked w (t\<lparr>rt_metrics := m\<rparr>))"
  by (auto simp: tracker_bounded_def persist_locked_def split: option.splits)

lemma persist_locked_same: "tracker_bounded t \<Longrightarrow> tracker_bounded (persist_locked w t)"
  by (auto simp: tracker_bounded_def persist_locked_def split: option.splits)

lemma saturating_sub_le: "saturating_sub a b \<le> (a :: 'a::len word)"
  by (simp add: word_le_nat_alt unat_simps)

lemma sint_ucast_small:
  assumes "unat (d :: u64) < 2 ^ 31"
  shows "sint (ucast d :: 32 word) = int (unat d)"
proof -
  let ?w = "ucast d :: 32 word"
  have unat: "unat ?w = unat d" using assms by (simp add: unsigned_ucast_eq take_bit_nat_eq_self)
  then have "uint ?w < 2 ^ 31" using assms by (metis of_nat_less_iff of_nat_numeral of_nat_power uint_nat)
  then have "signed_take_bit 31 (uint ?w) = uint ?w"
    by (intro signed_take_bit_int_eq_self) (auto intro: order_trans [OF _ uint_ge_0])
  then have "sint ?w = uint ?w" by (simp only: sint_uint) simp
  then show ?thesis using unat by (simp only: uint_nat)
qed

lemma apply_decay_bounded:
  assumes "decay_ok decayed" and "unat now < 2 ^ 31 * 86400"
    and "MIN_REPUTATION \<le> vm_reputation m" and "vm_reputation m \<le> MAX_REPUTATION"
  shows "MIN_REPUTATION \<le> vm_reputation (apply_decay decayed now m)"
    and "vm_reputation (apply_decay decayed now m) \<le> MAX_REPUTATION"
proof -
  let ?d = "days_inactive now m"
  have "saturating_sub now (vm_last_active m) \<le> now" by (rule saturating_sub_le)
  then have "unat ?d \<le> unat now div 86400"
    by (simp add: days_inactive_def SECONDS_PER_DAY_def unat_div word_le_nat_alt div_le_mono)
  then have small: "unat ?d < 2 ^ 31" using assms(2) by (simp add: less_mult_imp_div_less)
  have "decayed (vm_reputation m) (ucast ?d) \<le> vm_reputation m" if "?d \<noteq> 0"
  proof -
    have "0 < unat ?d" using that by (simp add: unat_gt_0)
    moreover have "sint (ucast ?d :: 32 word) = int (unat ?d)" by (rule sint_ucast_small [OF small])
    ultimately have "0 < sint (ucast ?d :: 32 word)" by (simp only: of_nat_0_less_iff)
    then show ?thesis using assms(1) unfolding decay_ok_def by blast
  qed
  then show "MIN_REPUTATION \<le> vm_reputation (apply_decay decayed now m)"
    "vm_reputation (apply_decay decayed now m) \<le> MAX_REPUTATION"
    using assms(3,4) by (auto simp: apply_decay_def Let_def max_def)
qed

lemma bump_Ok: "bump n = Ok m \<longleftrightarrow> unat m = unat n + 1"
  by (simp add: bump_def ok_or_eq_Ok checked_simps)

lemma success_score: "min r MAX_REPUTATION \<le> MAX_REPUTATION"
  by simp

lemma penalty_bounds:
  "MIN_REPUTATION \<le> max (saturating_sub r k) MIN_REPUTATION"
  "r \<le> MAX_REPUTATION \<Longrightarrow> max (saturating_sub r k) MIN_REPUTATION \<le> MAX_REPUTATION"
  using saturating_sub_le [of r k] by (auto simp: MAX_REPUTATION_def MIN_REPUTATION_def)

lemma reputation_sum:
  assumes "MIN_REPUTATION \<le> r" and "r \<le> MAX_REPUTATION"
  shows "\<exists>r1 r2. checked_add r REPUTATION_INCREASE_SUCCESS = Some r1 \<and>
    checked_add r1 REPUTATION_BONUS_CONSENSUS = Some r2 \<and> MIN_REPUTATION \<le> min r2 MAX_REPUTATION"
proof -
  have r: "100 \<le> unat r" "unat r \<le> 10000"
    using assms by (simp_all add: word_le_nat_alt reputation_constants)
  have u: "unat (r + 10) = unat r + 10" "unat (r + 15) = unat r + 15"
    using r by (simp_all add: unat_plus_no_wrap)
  have "checked_add r REPUTATION_INCREASE_SUCCESS = Some (r + 10)"
    "checked_add (r + 10) REPUTATION_BONUS_CONSENSUS = Some (r + 15)"
    using r u by (simp_all add: checked_simps reputation_constants)
  moreover have "MIN_REPUTATION \<le> min (r + 15) MAX_REPUTATION"
    unfolding min.bounded_iff using u r by (simp add: word_le_nat_alt reputation_constants)
  ultimately show ?thesis by blast
qed

lemma record_success_bounded:
  assumes "tracker_bounded t" and "record_success now w n t = Ok (t', r)"
  shows "tracker_bounded t'"
proof -
  obtain v where v: "rt_metrics t n = Some v"
    using assms(2) by (auto simp: record_success_def and_then_eq_Ok ok_or_eq_Ok)
  have b: "metrics_bounded (rt_metrics t)" using assms(1) by (simp add: tracker_bounded_def)
  obtain r1 r2 where r: "checked_add (vm_reputation v) REPUTATION_INCREASE_SUCCESS = Some r1"
    "checked_add r1 REPUTATION_BONUS_CONSENSUS = Some r2" "MIN_REPUTATION \<le> min r2 MAX_REPUTATION"
    using reputation_sum metrics_boundedD [OF b v] by blast
  show ?thesis
    using assms(2) v r
    by (auto simp: record_success_def and_then_eq_Ok Let_def
        intro!: persist_locked_bounded [OF assms(1)] metrics_bounded_upd [OF b])
qed

lemma penalty_step_bounded:
  assumes "tracker_bounded t" and "rt_metrics t n = Some v"
    and "vm_reputation v' = max (saturating_sub (vm_reputation v) k) MIN_REPUTATION"
  shows "tracker_bounded (persist_locked w (t\<lparr>rt_metrics := (rt_metrics t)(n \<mapsto> v')\<rparr>))"
proof -
  have b: "metrics_bounded (rt_metrics t)" using assms(1) by (simp add: tracker_bounded_def)
  show ?thesis
    using penalty_bounds(1) [of "vm_reputation v" k] penalty_bounds(2) [of "vm_reputation v" k]
      metrics_boundedD [OF b assms(2)]
    by (intro persist_locked_bounded [OF assms(1)] metrics_bounded_upd [OF b]) (simp_all only: assms(3))
qed

lemma record_failure_bounded:
  "tracker_bounded t \<Longrightarrow> record_failure now w n t = Ok (t', r) \<Longrightarrow> tracker_bounded t'"
  by (auto simp: record_failure_def and_then_eq_Ok ok_or_eq_Ok Let_def intro!: penalty_step_bounded)

lemma record_timeout_bounded:
  "tracker_bounded t \<Longrightarrow> record_timeout w n t = Ok (t', r) \<Longrightarrow> tracker_bounded t'"
  by (auto simp: record_timeout_def and_then_eq_Ok ok_or_eq_Ok Let_def intro!: penalty_step_bounded)

lemma register_bounded: "tracker_bounded t \<Longrightarrow> tracker_bounded (reputation_register now w n t)"
proof -
  assume t: "tracker_bounded t"
  then have "metrics_bounded (rt_metrics t)" by (simp add: tracker_bounded_def)
  then have "metrics_bounded ((rt_metrics t)(n \<mapsto> ValidatorMetrics_new now n))"
    by (rule metrics_bounded_upd) (simp_all add: ValidatorMetrics_new_def reputation_constants)
  then show ?thesis
    using persist_locked_bounded [OF t] persist_locked_same [OF t]
    by (auto simp: reputation_register_def split: option.splits)
qed

lemma unregister_bounded: "tracker_bounded t \<Longrightarrow> tracker_bounded (reputation_unregister w n t)"
  using persist_locked_bounded metrics_bounded_del
  by (auto simp: reputation_unregister_def tracker_bounded_def)

lemma decay_all_bounded:
  assumes "decay_ok decayed" and "unat now < 2 ^ 31 * 86400" and "tracker_bounded t"
  shows "tracker_bounded (fst (apply_decay_all decayed now t))"
proof -
  have b: "metrics_bounded (rt_metrics t)" using assms(3) by (simp add: tracker_bounded_def)
  have "metrics_bounded (\<lambda>n. map_option (apply_decay decayed now) (rt_metrics t n))"
    unfolding metrics_bounded_def
    using apply_decay_bounded [OF assms(1,2)] metrics_boundedD [OF b] by auto
  then show ?thesis using assms(3) by (simp add: apply_decay_all_def tracker_bounded_def Let_def)
qed

lemma keep_or_bounded:
  assumes "tracker_bounded t" and "\<And>t' r. res = Ok (t', r) \<Longrightarrow> tracker_bounded t'"
    and "keep_or t res = Some t''"
  shows "tracker_bounded t''"
  using assms by (auto simp: keep_or_def split: result.splits reputation_error.splits)

lemma reputation_step_bounded:
  assumes "decay_ok decayed" and "tracker_bounded t" and "unat (fst e) < 2 ^ 31 * 86400"
    and "reputation_step decayed e t = Some t'"
  shows "tracker_bounded t'"
proof -
  obtain now w ev where e: "e = (now, w, ev)" by (cases e)
  show ?thesis
    using assms unfolding e
    by (cases ev) (auto simp: register_bounded unregister_bounded decay_all_bounded
        elim!: keep_or_bounded [rotated 2] dest: record_success_bounded record_failure_bounded
          record_timeout_bounded)
qed

lemma reputation_run_bounded:
  assumes "decay_ok decayed" and "tracker_bounded t" and "\<forall>e\<in>set es. unat (fst e) < 2 ^ 31 * 86400"
    and "reputation_run decayed es t = Some t'"
  shows "tracker_bounded t'"
  using assms
proof (induction es arbitrary: t)
  case (Cons e es)
  then obtain t1 where step: "reputation_step decayed e t = Some t1"
    and run: "reputation_run decayed es t1 = Some t'" by (auto split: option.splits)
  have "unat (fst e) < 2 ^ 31 * 86400" using Cons.prems(3) by simp
  from reputation_step_bounded [OF Cons.prems(1,2) this step] show ?case
    using Cons.IH [OF Cons.prems(1) _ _ run] Cons.prems(3) by simp
qed simp

lemma record_success_returns:
  assumes "tracker_bounded t" and "rt_metrics t n = Some v"
    and "unat (vm_total_verifications v) + 1 < 2 ^ 64"
    and "unat (vm_successful_verifications v) + 1 < 2 ^ 64"
  shows "is_ok (record_success now w n t)"
proof -
  have b: "metrics_bounded (rt_metrics t)" using assms(1) by (simp add: tracker_bounded_def)
  obtain r1 r2 where "checked_add (vm_reputation v) REPUTATION_INCREASE_SUCCESS = Some r1"
    "checked_add r1 REPUTATION_BONUS_CONSENSUS = Some r2"
    using reputation_sum metrics_boundedD [OF b assms(2)] by blast
  then show ?thesis
    using assms(2-4) by (simp add: record_success_def bump_def checked_add_def Let_def)
qed

section \<open>Properties\<close>


section \<open>Examples\<close>

definition halve :: "u64 \<Rightarrow> 32 word \<Rightarrow> u64" where
  "halve r days = r div 2"

lemma halve_ok: "decay_ok halve"
  by (simp add: decay_ok_def halve_def word_le_nat_alt unat_div)

definition example_history :: "(u64 \<times> bool \<times> reputation_event) list" where
  "example_history = [(100, True, Registered [1]), (200, True, Success [1]), (300, False, Failure [1]),
     (1000000, True, Decayed)]"


end
