(* ===== verification/Leader.thy ===== *)
theory Leader
  imports Vote_Tally Reference_Runtime
begin

text \<open>
  Leader selection (\<open>consensus/leader.rs\<close>): validators with their stake and reputation, and the
  draw of a leader weighted by both. \<open>HashMap::values\<close> iterates in an order that differs between
  processes, so the functions that iterate take that order as an argument.
\<close>

section \<open>Validators\<close>

record ValidatorInfo =
  vi_node_id :: NodeId
  vi_stake_amount :: u64
  vi_reputation :: u64
  vi_is_active :: bool
  vi_wallet_pubkey :: "string option"

definition ValidatorInfo_new :: "NodeId \<Rightarrow> u64 \<Rightarrow> u64 \<Rightarrow> ValidatorInfo" where
  "ValidatorInfo_new node_id stake_amount reputation =
     \<lparr> vi_node_id = node_id, vi_stake_amount = stake_amount, vi_reputation = reputation,
       vi_is_active = True, vi_wallet_pubkey = None \<rparr>"

definition with_wallet :: "string option \<Rightarrow> ValidatorInfo \<Rightarrow> ValidatorInfo" where
  "with_wallet wallet_pubkey v = v\<lparr>vi_wallet_pubkey := wallet_pubkey\<rparr>"

definition selection_weight :: "ValidatorInfo \<Rightarrow> u128" where
  "selection_weight v =
     (if \<not> vi_is_active v then 0
      else ucast (vi_stake_amount v) * ucast (vi_reputation v) div 1000)"

type_synonym LeaderSelector = "NodeId \<rightharpoonup> ValidatorInfo"

definition leader_register :: "ValidatorInfo \<Rightarrow> LeaderSelector \<Rightarrow> LeaderSelector" where
  "leader_register v sel = sel(vi_node_id v \<mapsto> v)"

definition leader_unregister :: "NodeId \<Rightarrow> LeaderSelector \<Rightarrow> LeaderSelector" where
  "leader_unregister node_id sel = sel(node_id := None)"

definition leader_deactivate :: "NodeId \<Rightarrow> LeaderSelector \<Rightarrow> LeaderSelector" where
  "leader_deactivate node_id sel =
     (case sel node_id of Some v \<Rightarrow> sel(node_id \<mapsto> v\<lparr>vi_is_active := False\<rparr>) | None \<Rightarrow> sel)"

definition leader_activate :: "NodeId \<Rightarrow> LeaderSelector \<Rightarrow> LeaderSelector" where
  "leader_activate node_id sel =
     (case sel node_id of Some v \<Rightarrow> sel(node_id \<mapsto> v\<lparr>vi_is_active := True\<rparr>) | None \<Rightarrow> sel)"

definition leader_update :: "ValidatorInfo \<Rightarrow> LeaderSelector \<Rightarrow> LeaderSelector" where
  "leader_update v sel = sel(vi_node_id v \<mapsto> v)"

definition onchain_stake_of :: "(string \<rightharpoonup> u64) \<Rightarrow> ValidatorInfo \<Rightarrow> u64" where
  "onchain_stake_of stakes v =
     (case vi_wallet_pubkey v of
        None \<Rightarrow> 0
      | Some w \<Rightarrow> (case stakes w of Some s \<Rightarrow> s | None \<Rightarrow> 0))"

definition apply_onchain_stakes :: "(string \<rightharpoonup> u64) \<Rightarrow> LeaderSelector \<Rightarrow> LeaderSelector" where
  "apply_onchain_stakes stakes sel =
     (\<lambda>n. map_option (\<lambda>v. v\<lparr>vi_stake_amount := onchain_stake_of stakes v\<rparr>) (sel n))"

definition get_validator :: "NodeId \<Rightarrow> LeaderSelector \<Rightarrow> ValidatorInfo option" where
  "get_validator node_id sel = sel node_id"

section \<open>The draw\<close>

text \<open>The active validators in the order \<open>order\<close> of the map.\<close>

definition active_validators :: "NodeId list \<Rightarrow> LeaderSelector \<Rightarrow> ValidatorInfo list" where
  "active_validators order sel = filter vi_is_active (List.map_filter sel order)"

definition active_validator_count :: "NodeId list \<Rightarrow> LeaderSelector \<Rightarrow> nat" where
  "active_validator_count order sel = length (active_validators order sel)"

definition deterministic_random :: "'z crypto_scheme \<Rightarrow> bytes \<Rightarrow> u128 \<Rightarrow> u128" where
  "deterministic_random cr seed bound =
     of_nat (le_val (take 16 (sha256_hashv cr [seed]))) mod bound"

datatype leader_error = NoActiveValidators | ZeroTotalWeight | WeightOverflow

fun sum_weights :: "u128 \<Rightarrow> ValidatorInfo list \<Rightarrow> (u128, leader_error) result" where
  "sum_weights acc [] = Ok acc"
| "sum_weights acc (v # vs) =
     and_then (ok_or (checked_add acc (selection_weight v)) WeightOverflow) (\<lambda>acc'. sum_weights acc' vs)"

fun pick_loop ::
  "u128 \<Rightarrow> u128 \<Rightarrow> ValidatorInfo list \<Rightarrow> (NodeId option, leader_error) result" where
  "pick_loop random_value cumulative_weight [] = Ok None"
| "pick_loop random_value cumulative_weight (v # vs) =
     and_then (ok_or (checked_add cumulative_weight (selection_weight v)) WeightOverflow)
       (\<lambda>cumulative_weight'.
     if random_value < cumulative_weight' then Ok (Some (vi_node_id v))
     else pick_loop random_value cumulative_weight' vs)"

definition pick_leader :: "u128 \<Rightarrow> ValidatorInfo list \<Rightarrow> (NodeId, leader_error) result" where
  "pick_leader random_value active =
     and_then (pick_loop random_value 0 active) (\<lambda>found.
     case found of
       Some n \<Rightarrow> Ok n
     | None \<Rightarrow> if active = [] then Err NoActiveValidators else Ok (vi_node_id (last active)))"

definition select_leader ::
  "'z crypto_scheme \<Rightarrow> NodeId list \<Rightarrow> LeaderSelector \<Rightarrow> bytes \<Rightarrow> (NodeId, leader_error) result" where
  "select_leader cr order sel seed =
     (let active = active_validators order sel in
      if active = [] then Err NoActiveValidators
      else and_then (sum_weights 0 active) (\<lambda>total_weight.
        if total_weight = 0 then Err ZeroTotalWeight
        else pick_leader (deterministic_random cr seed total_weight) active))"

definition get_validators_by_weight :: "NodeId list \<Rightarrow> LeaderSelector \<Rightarrow> ValidatorInfo list" where
  "get_validators_by_weight order sel =
     sort_key (\<lambda>v. - int (unat (selection_weight v))) (active_validators order sel)"

section \<open>Weights\<close>

text \<open>The product of two 64-bit numbers fits 128 bits, so a weight is exact.\<close>

lemma unat_ucast_u128: "unat (ucast (x :: u64) :: u128) = unat x"
  using unat_bound [of x] by (simp add: unsigned_ucast_eq take_bit_nat_eq_self)

lemma unat_selection_weight:
  "unat (selection_weight v) =
     (if vi_is_active v then unat (vi_stake_amount v) * unat (vi_reputation v) div 1000 else 0)"
proof -
  have "unat (vi_stake_amount v) * unat (vi_reputation v) < 2 ^ 64 * 2 ^ 64"
    using unat_bound [of "vi_stake_amount v"] unat_bound [of "vi_reputation v"]
    by (intro mult_strict_mono') simp_all
  then show ?thesis
    by (simp add: selection_weight_def unat_div unat_times_no_wrap unat_ucast_u128)
qed

abbreviation weight :: "ValidatorInfo \<Rightarrow> nat" where
  "weight v \<equiv> unat (selection_weight v)"

lemma sum_weights_Ok:
  "sum_weights acc vs = Ok t \<longleftrightarrow> unat t = unat acc + sum_list (map weight vs)"
proof (induction vs arbitrary: acc)
  case Nil
  then show ?case by (auto simp: word_unat_eq_iff)
next
  case (Cons v vs)
  show ?case
  proof (cases "checked_add acc (selection_weight v)")
    case None
    then have "\<not> unat t = unat acc + sum_list (map weight (v # vs))"
      using unat_bound [of t] by (simp add: checked_add_eq_None)
    then show ?thesis using None by simp
  next
    case (Some acc')
    then have "unat acc' = unat acc + weight v" by (simp add: checked_simps)
    then show ?thesis using Cons.IH [of acc'] Some by (simp add: add.assoc)
  qed
qed

text \<open>The validator whose segment of the cumulative weights contains \<open>r\<close>.\<close>

fun segment_owner :: "nat \<Rightarrow> nat \<Rightarrow> ValidatorInfo list \<Rightarrow> ValidatorInfo option" where
  "segment_owner r c [] = None"
| "segment_owner r c (v # vs) = (if r < c + weight v then Some v else segment_owner r (c + weight v) vs)"

lemma pick_loop_owner:
  "unat c + sum_list (map weight vs) < 2 ^ 128 \<Longrightarrow>
   pick_loop r c vs = Ok (map_option vi_node_id (segment_owner (unat r) (unat c) vs))"
proof (induction vs arbitrary: c)
  case (Cons v vs)
  obtain c' where c': "checked_add c (selection_weight v) = Some c'" "unat c' = unat c + weight v"
    using Cons.prems by (auto simp: checked_add_def unat_plus_no_wrap)
  then show ?case using Cons.IH [of c'] Cons.prems by (simp add: word_less_nat_alt)
qed simp

lemma segment_owner_exists:
  "c \<le> r \<Longrightarrow> r < c + sum_list (map weight vs) \<Longrightarrow>
   \<exists>v \<in> set vs. segment_owner r c vs = Some v \<and> 0 < weight v"
  by (induction vs arbitrary: c) (auto simp: not_less add.assoc)

lemma segment_size:
  "card {r. c \<le> r \<and> r < c + sum_list (map weight vs) \<and>
       map_option vi_node_id (segment_owner r c vs) = Some n} =
     sum_list (map weight (filter (\<lambda>v. vi_node_id v = n) vs))"
proof (induction vs arbitrary: c)
  case (Cons v vs)
  let ?w = "weight v" and ?S = "sum_list (map weight vs)"
  let ?A = "if vi_node_id v = n then {c..<c + ?w} else {}"
  let ?B = "{r. c + ?w \<le> r \<and> r < c + ?w + ?S \<and>
    map_option vi_node_id (segment_owner r (c + ?w) vs) = Some n}"
  have "{r. c \<le> r \<and> r < c + sum_list (map weight (v # vs)) \<and>
      map_option vi_node_id (segment_owner r c (v # vs)) = Some n} = ?A \<union> ?B"
    by (auto simp: not_less)
  moreover have "finite ?B" by (rule finite_subset [of _ "{..<c + ?w + ?S}"]) auto
  moreover have "?A \<inter> ?B = {}" by auto
  ultimately show ?case using Cons.IH [of "c + ?w"] by (simp add: card_Un_disjoint)
qed simp

section \<open>The selector names its entries\<close>

definition selector_ok :: "LeaderSelector \<Rightarrow> bool" where
  "selector_ok sel \<longleftrightarrow> (\<forall>n v. sel n = Some v \<longrightarrow> vi_node_id v = n)"

lemma selector_ok_ops:
  "selector_ok Map.empty"
  "selector_ok sel \<Longrightarrow> selector_ok (leader_register v sel)"
  "selector_ok sel \<Longrightarrow> selector_ok (leader_unregister n sel)"
  "selector_ok sel \<Longrightarrow> selector_ok (leader_deactivate n sel)"
  "selector_ok sel \<Longrightarrow> selector_ok (leader_activate n sel)"
  "selector_ok sel \<Longrightarrow> selector_ok (leader_update v sel)"
  "selector_ok sel \<Longrightarrow> selector_ok (apply_onchain_stakes stakes sel)"
  by (auto simp: selector_ok_def leader_register_def leader_unregister_def leader_deactivate_def
      leader_activate_def leader_update_def apply_onchain_stakes_def split: option.splits)

lemma active_validators_mem:
  "set order = dom sel \<Longrightarrow> v \<in> set (active_validators order sel) \<longleftrightarrow> (\<exists>n. sel n = Some v \<and> vi_is_active v)"
  by (force simp: active_validators_def List.map_filter_def)

lemma filter_own_entry:
  assumes "selector_ok sel" and "distinct order" and "n \<in> set order" and "sel n = Some v"
  shows "filter (\<lambda>v. vi_node_id v = n) (List.map_filter sel order) = [v]"
  using assms(2,3)
proof (induction order)
  case (Cons m order)
  have none: "filter (\<lambda>v. vi_node_id v = n) (List.map_filter sel order) = []" if "n \<notin> set order"
    using that assms(1) by (auto simp: filter_empty_conv List.map_filter_def selector_ok_def)
  show ?case
  proof (cases "m = n")
    case True
    then show ?thesis
      using Cons.prems none assms(1,4) by (simp add: List.map_filter_simps selector_ok_def)
  next
    case False
    then have "filter (\<lambda>v. vi_node_id v = n) (List.map_filter sel (m # order)) =
        filter (\<lambda>v. vi_node_id v = n) (List.map_filter sel order)"
      using assms(1) by (auto simp: List.map_filter_simps selector_ok_def split: option.splits)
    then show ?thesis using Cons False by simp
  qed
qed simp

lemma own_weight:
  assumes "selector_ok sel" and "distinct order" and "set order = dom sel" and "sel n = Some v"
  shows "sum_list (map weight (filter (\<lambda>v. vi_node_id v = n) (active_validators order sel))) = weight v"
proof -
  have "filter (\<lambda>v. vi_node_id v = n) (active_validators order sel) =
      filter vi_is_active (filter (\<lambda>v. vi_node_id v = n) (List.map_filter sel order))"
    by (simp add: active_validators_def conj_commute)
  also have "\<dots> = filter vi_is_active [v]"
    using filter_own_entry [OF assms(1,2) _ assms(4)] assms(3,4) by (simp only: domI)
  finally show ?thesis by (simp add: unat_selection_weight)
qed

lemma card_words_below:
  fixes W :: "'a::len word"
  shows "card {r. r < W \<and> P (unat r)} = card {x. x < unat W \<and> P x}"
proof -
  have "unat ` {r. r < W \<and> P (unat r)} = {x. x < unat W \<and> P x}"
  proof (intro set_eqI iffI)
    fix x assume x: "x \<in> {x. x < unat W \<and> P x}"
    then have "x < 2 ^ LENGTH('a)" by (auto intro: less_trans [OF _ unat_bound])
    then have "unat (of_nat x :: 'a word) = x" by (simp add: unat_of_nat take_bit_nat_eq_self)
    then show "x \<in> unat ` {r. r < W \<and> P (unat r)}"
      using x by (intro image_eqI [of _ _ "of_nat x"]) (simp_all add: word_less_nat_alt)
  qed (auto simp: word_less_nat_alt)
  then show ?thesis using card_image [of unat "{r. r < W \<and> P (unat r)}"] by (simp add: inj_on_def word_unat_eq_iff)
qed

lemma pick_leader_owner:
  assumes "sum_weights 0 active = Ok W" and "r < W"
  shows "\<exists>v \<in> set active. segment_owner (unat r) 0 active = Some v \<and> 0 < weight v \<and>
    pick_leader r active = Ok (vi_node_id v)"
proof -
  have W: "unat W = sum_list (map weight active)" using assms(1) by (simp add: sum_weights_Ok)
  then obtain v where v: "v \<in> set active" "segment_owner (unat r) 0 active = Some v" "0 < weight v"
    using segment_owner_exists [of 0 "unat r" active] assms(2) by (auto simp: word_less_nat_alt)
  have "unat (0 :: u128) + sum_list (map weight active) < 2 ^ 128" using unat_bound [of W] W by simp
  from pick_loop_owner [OF this, of r] v show ?thesis by (auto simp: pick_leader_def)
qed

section \<open>Properties\<close>

text \<open>The draw is weighted exactly: whenever the total weight is positive and fits 128 bits, a
  leader is found, it is a registered active validator of positive weight, the fallback to the last
  validator is never taken, and of the possible random values exactly as many select a validator as
  its weight (its stake times its reputation over 1000, and none for an inactive one).\<close>

theorem leader_weighted:
  assumes "selector_ok sel" and "distinct order" and "set order = dom sel"
    and "sum_weights 0 (active_validators order sel) = Ok W" and "0 < W"
  shows "(\<exists>n v. select_leader cr order sel seed = Ok n \<and> sel n = Some v \<and> vi_is_active v \<and>
      0 < selection_weight v) \<and>
    (\<forall>r. r < W \<longrightarrow> pick_loop r 0 (active_validators order sel) \<noteq> Ok None) \<and>
    (\<forall>n v. sel n = Some v \<longrightarrow>
       card {r. r < W \<and> pick_leader r (active_validators order sel) = Ok n} =
         (if vi_is_active v then unat (vi_stake_amount v) * unat (vi_reputation v) div 1000 else 0))"
proof (intro conjI allI impI)
  let ?act = "active_validators order sel"
  have W: "unat W = sum_list (map weight ?act)" using assms(4) by (simp add: sum_weights_Ok)
  have bound: "unat (0 :: u128) + sum_list (map weight ?act) < 2 ^ 128" using unat_bound [of W] W by simp
  let ?r = "deterministic_random cr seed W"
  have "?r < W" using assms(5) by (simp add: deterministic_random_def word_mod_less_divisor)
  from pick_leader_owner [OF assms(4) this] obtain v where v: "v \<in> set ?act" "0 < weight v"
    "pick_leader ?r ?act = Ok (vi_node_id v)" by blast
  have "?act \<noteq> []" using v(1) by auto
  then have "select_leader cr order sel seed = Ok (vi_node_id v)"
    using v(3) assms(4,5) by (auto simp: select_leader_def Let_def word_gt_0)
  moreover have "sel (vi_node_id v) = Some v" "vi_is_active v"
    using v(1) assms(1) active_validators_mem [OF assms(3)] by (auto simp: selector_ok_def)
  ultimately show "\<exists>n v. select_leader cr order sel seed = Ok n \<and> sel n = Some v \<and> vi_is_active v \<and>
      0 < selection_weight v" using v(2) by (auto simp: word_gt_0 unat_eq_0)
  fix r assume "r < W"
  then show "pick_loop r 0 ?act \<noteq> Ok None"
    using pick_leader_owner [OF assms(4)] pick_loop_owner [OF bound, of r] by auto
next
  let ?act = "active_validators order sel"
  fix n v assume n: "sel n = Some v"
  have W: "unat W = sum_list (map weight ?act)" using assms(4) by (simp add: sum_weights_Ok)
  have "pick_leader r ?act = Ok n \<longleftrightarrow> map_option vi_node_id (segment_owner (unat r) 0 ?act) = Some n"
    if "r < W" for r using pick_leader_owner [OF assms(4) that] by auto
  then have "{r. r < W \<and> pick_leader r ?act = Ok n} =
      {r. r < W \<and> map_option vi_node_id (segment_owner (unat r) 0 ?act) = Some n}" by blast
  then have "card {r. r < W \<and> pick_leader r ?act = Ok n} = weight v"
    using segment_size [of 0 ?act n] own_weight [OF assms(1-3) n]
      card_words_below [of W "\<lambda>x. map_option vi_node_id (segment_owner x 0 ?act) = Some n"] W
    by simp
  then show "card {r. r < W \<and> pick_leader r ?act = Ok n} =
      (if vi_is_active v then unat (vi_stake_amount v) * unat (vi_reputation v) div 1000 else 0)"
    by (simp add: unat_selection_weight)
qed

text \<open>C32. The leader depends on the iteration order of the map: for two active validators, whenever
  the drawn value is below both weights, the two possible orders of the same map select different
  leaders from the same seed.\<close>

theorem leader_depends_on_map_order:
  assumes "selector_ok sel" and "dom sel = {a, b}" and "a \<noteq> b"
    and "sel a = Some va" and "sel b = Some vb" and "vi_is_active va" and "vi_is_active vb"
    and "checked_add (selection_weight va) (selection_weight vb) = Some W"
    and "deterministic_random cr seed W < selection_weight va"
    and "deterministic_random cr seed W < selection_weight vb"
  shows "select_leader cr [a, b] sel seed = Ok a \<and> select_leader cr [b, a] sel seed = Ok b"
proof -
  let ?r = "deterministic_random cr seed W"
  have act: "active_validators [a, b] sel = [va, vb]" "active_validators [b, a] sel = [vb, va]"
    using assms(4-7) by (simp_all add: active_validators_def List.map_filter_simps)
  have W: "unat W = weight va + weight vb" using assms(8) by (simp add: checked_simps)
  have sums: "sum_weights 0 [va, vb] = Ok W" "sum_weights 0 [vb, va] = Ok W"
    using W by (simp_all only: sum_weights_Ok) simp_all
  have pos: "W \<noteq> 0" using W assms(9) by (auto simp: word_less_nat_alt)
  have "checked_add 0 w = Some w" for w :: u128 by (simp add: checked_simps)
  then have "pick_leader ?r [va, vb] = Ok (vi_node_id va)" "pick_leader ?r [vb, va] = Ok (vi_node_id vb)"
    using assms(9,10) by (simp_all add: pick_leader_def)
  then show ?thesis
    using act sums pos assms(1,4,5) by (simp add: select_leader_def Let_def selector_ok_def)
qed

section \<open>Examples\<close>

definition info_a :: ValidatorInfo where "info_a = ValidatorInfo_new [1] 1000 1000"

definition info_b :: ValidatorInfo where "info_b = ValidatorInfo_new [2] 500 2000"

definition two_validators :: LeaderSelector where
  "two_validators = leader_register info_b (leader_register info_a Map.empty)"

definition zero_digest :: runtime where
  "zero_digest = ref_runtime\<lparr>sha256_hashv := \<lambda>_. replicate 32 0\<rparr>"

lemma two_validators_ok:
  "selector_ok two_validators" "dom two_validators = {[1], [2]}"
  "two_validators [1] = Some info_a" "two_validators [2] = Some info_b"
  "vi_is_active info_a" "vi_is_active info_b"
proof -
  have sel: "two_validators = [[1] \<mapsto> info_a, [2] \<mapsto> info_b]"
    by (simp add: two_validators_def leader_register_def info_a_def info_b_def ValidatorInfo_new_def)
  show "selector_ok two_validators" by (simp add: two_validators_def selector_ok_ops)
  show "dom two_validators = {[1], [2]}" unfolding sel by auto
  show "two_validators [1] = Some info_a" "two_validators [2] = Some info_b" by (simp_all add: sel)
  show "vi_is_active info_a" "vi_is_active info_b"
    by (simp_all add: info_a_def info_b_def ValidatorInfo_new_def)
qed

lemma example_weights: "weight info_a = 1000" "weight info_b = 1000"
  by (simp_all add: unat_selection_weight info_a_def info_b_def ValidatorInfo_new_def)

lemma zero_random: "deterministic_random zero_digest seed W = 0"
proof -
  have "le_val (replicate n 0) = 0" for n by (induction n) simp_all
  then show ?thesis by (simp add: deterministic_random_def zero_digest_def)
qed

theorem leader_weighted_witness:
  "card {r. r < 2000 \<and> pick_leader r (active_validators [[1], [2]] two_validators) = Ok [2]} = 1000"
proof -
  have act: "active_validators [[1], [2]] two_validators = [info_a, info_b]"
    using two_validators_ok by (simp add: active_validators_def List.map_filter_simps)
  have sum: "sum_weights 0 (active_validators [[1], [2]] two_validators) = Ok 2000"
    unfolding act sum_weights_Ok by (simp add: example_weights)
  have "distinct [[1 :: u8], [2]]" "set [[1 :: u8], [2]] = dom two_validators"
    using two_validators_ok(2) by simp_all
  from leader_weighted [OF two_validators_ok(1) this sum, THEN conjunct2, THEN conjunct2, rule_format,
      OF _ two_validators_ok(4)] show ?thesis
    by (simp add: info_b_def ValidatorInfo_new_def)
qed

theorem leader_depends_on_map_order_witness:
  "select_leader zero_digest [[1], [2]] two_validators [7] = Ok [1] \<and>
   select_leader zero_digest [[2], [1]] two_validators [7] = Ok [2]"
proof -
  have W: "checked_add (selection_weight info_a) (selection_weight info_b) = Some 2000"
    by (simp add: checked_simps example_weights)
  have "0 < selection_weight info_a" "0 < selection_weight info_b"
    using example_weights by (simp_all add: word_less_nat_alt)
  then show ?thesis
    using leader_depends_on_map_order [OF two_validators_ok(1,2) _ two_validators_ok(3-6) W,
        of zero_digest "[7]"] by (simp add: zero_random)
qed

end
