(* ===== verification/Transact_Consensus.thy ===== *)
theory Transact_Consensus
  imports Reputation Leader Quorum
begin

text \<open>
  The coordinator that collects validators' votes on a settlement (\<open>consensus/transact.rs\<close>). Each
  operation runs to completion before the next; the clock, the outcome of disk writes and whether
  the approval channel still has a receiver are arguments or fields of the state. \<open>String\<close> is a list
  of bytes written as characters.
\<close>

section \<open>Requests and votes\<close>

definition DEFAULT_MIN_VALIDATORS_FOR_CONSENSUS :: nat where
  "DEFAULT_MIN_VALIDATORS_FOR_CONSENSUS = 7"

definition DEFAULT_TOTAL_VALIDATORS :: nat where
  "DEFAULT_TOTAL_VALIDATORS = 10"

record TransactVerificationRequest =
  tr_request_id :: string
  tr_recipient :: bytes32
  tr_mint :: "bytes32 option"
  tr_nullifiers :: "bytes32 \<times> bytes32"
  tr_output_commitments :: "bytes32 \<times> bytes32"
  tr_root :: bytes32
  tr_ext_amount :: i64
  tr_proof :: bytes
  tr_ciphertexts :: "string \<times> string"
  tr_timestamp :: u64

text \<open>The bytes that \<open>canonical_id\<close> feeds to the hash, in the order of the updates.\<close>

definition canonical_preimage :: "TransactVerificationRequest \<Rightarrow> bytes" where
  "canonical_preimage r =
     ascii ''paraloom:transact-request:v1'' @ tr_root r @ tr_recipient r @
     u64_to_le_bytes (tr_ext_amount r) @
     fst (tr_nullifiers r) @ snd (tr_nullifiers r) @
     fst (tr_output_commitments r) @ snd (tr_output_commitments r) @
     u64_to_le_bytes (of_nat (length (tr_proof r))) @ tr_proof r @
     (case tr_mint r of Some mint \<Rightarrow> ascii ''spl'' @ mint | None \<Rightarrow> [])"

definition hex_digit :: "nat \<Rightarrow> char" where
  "hex_digit n = char_of (if n < 10 then 48 + n else 87 + n)"

definition hex_encode :: "bytes \<Rightarrow> string" where
  "hex_encode bs = concat (map (\<lambda>b. [hex_digit (unat b div 16), hex_digit (unat b mod 16)]) bs)"

definition canonical_id :: "'z crypto_scheme \<Rightarrow> TransactVerificationRequest \<Rightarrow> string" where
  "canonical_id cr r = ''transact-'' @ hex_encode (sha256_hashv cr [canonical_preimage r])"

record TransactVerificationResult =
  res_request_id :: string
  res_validator :: NodeId
  res_vote :: VerificationVote
  res_timestamp :: u64
  res_wallet_pubkey :: string
  res_signature :: bytes

definition put_field :: "bytes \<Rightarrow> bytes" where
  "put_field bs = u64_to_le_bytes (of_nat (length bs)) @ bs"

definition transact_vote_signing_bytes ::
  "string \<Rightarrow> string \<Rightarrow> string \<Rightarrow> NodeId \<Rightarrow> VerificationVote \<Rightarrow> string \<Rightarrow> bytes" where
  "transact_vote_signing_bytes program cluster_tag request_id validator vote wallet_pubkey =
     ascii ''paraloom:transact-vote:v1'' @ put_field (ascii program) @ put_field (ascii cluster_tag) @
     put_field (ascii request_id) @ put_field validator @ [if is_valid vote then 1 else 0] @
     put_field (ascii wallet_pubkey)"

record TransactConsensus =
  cs_request :: TransactVerificationRequest
  cs_tally :: VoteTally

definition new_with_thresholds ::
  "u64 \<Rightarrow> TransactVerificationRequest \<Rightarrow> nat \<Rightarrow> nat \<Rightarrow> TransactConsensus option" where
  "new_with_thresholds now request min_validators total_validators =
     map_option (\<lambda>tally. \<lparr> cs_request = request, cs_tally = tally \<rparr>)
       (VoteTally_new now (tr_request_id request) min_validators total_validators)"

section \<open>The coordinator\<close>

text \<open>\<open>tc_sent\<close> are the approvals sent on the channel so far; \<open>tc_channel\<close> is \<open>None\<close> without a
  channel, otherwise whether its receiver is alive.\<close>

record coordinator =
  tc_pending :: "string \<rightharpoonup> TransactConsensus"
  tc_validators :: "NodeId list"
  tc_leader_selector :: LeaderSelector
  tc_reputation_tracker :: ReputationTracker
  tc_slashing_tracker :: SlashingTracker
  tc_timeout_streaks :: "NodeId \<rightharpoonup> u64"
  tc_min_validators :: nat
  tc_total_validators :: nat
  tc_channel :: "bool option"
  tc_sent :: "TransactVerificationRequest list"
  tc_emitted :: "string set"
  tc_local_node_id :: "NodeId option"
  tc_onchain_wallets :: "string set"
  tc_onchain_stakes :: "string \<rightharpoonup> u64"
  tc_onchain_registry_total :: u64
  tc_local_wallet :: "string option"
  tc_equivocators :: "string set"
  tc_equivocators_disk :: "string set option"

definition coordinator_new :: coordinator where
  "coordinator_new =
     \<lparr> tc_pending = Map.empty, tc_validators = [], tc_leader_selector = Map.empty,
       tc_reputation_tracker = ReputationTracker_new, tc_slashing_tracker = Map.empty,
       tc_timeout_streaks = Map.empty,
       tc_min_validators = DEFAULT_MIN_VALIDATORS_FOR_CONSENSUS,
       tc_total_validators = DEFAULT_TOTAL_VALIDATORS, tc_channel = None, tc_sent = [],
       tc_emitted = {}, tc_local_node_id = None, tc_onchain_wallets = {},
       tc_onchain_stakes = Map.empty, tc_onchain_registry_total = 0, tc_local_wallet = None,
       tc_equivocators = {}, tc_equivocators_disk = None \<rparr>"

definition with_local_node_id :: "NodeId \<Rightarrow> coordinator \<Rightarrow> coordinator" where
  "with_local_node_id node_id c = c\<lparr>tc_local_node_id := Some node_id\<rparr>"

definition with_local_wallet :: "string \<Rightarrow> coordinator \<Rightarrow> coordinator" where
  "with_local_wallet wallet c = c\<lparr>tc_local_wallet := Some wallet\<rparr>"

definition new_with_approvals :: coordinator where
  "new_with_approvals = coordinator_new\<lparr>tc_channel := Some True\<rparr>"

text \<open>The ban set and the scores found on disk, if they are there and readable.\<close>

definition with_reputation_persistence ::
  "string set option \<Rightarrow> metrics_map option \<Rightarrow> coordinator \<Rightarrow> coordinator" where
  "with_reputation_persistence bans snapshot c =
     c\<lparr>tc_equivocators := (case bans of Some s \<Rightarrow> s | None \<Rightarrow> tc_equivocators c),
       tc_equivocators_disk := Some (case bans of Some s \<Rightarrow> s | None \<Rightarrow> {}),
       tc_reputation_tracker := with_persistence snapshot\<rparr>"

definition persist_equivocators :: "bool \<Rightarrow> coordinator \<Rightarrow> coordinator" where
  "persist_equivocators written c =
     (case tc_equivocators_disk c of
        None \<Rightarrow> c
      | Some _ \<Rightarrow> if written then c\<lparr>tc_equivocators_disk := Some (tc_equivocators c)\<rparr> else c)"

definition clear_emitted :: "string \<Rightarrow> coordinator \<Rightarrow> coordinator" where
  "clear_emitted request_id c = c\<lparr>tc_emitted := tc_emitted c - {request_id}\<rparr>"

definition stake_threshold :: "u64 \<Rightarrow> u64" where
  "stake_threshold eligible_stake = saturating_mul eligible_stake 2 div 3 + 1"

fun counted_stake_loop ::
  "string \<Rightarrow> string set \<Rightarrow> (string \<rightharpoonup> u64) \<Rightarrow> (string \<times> VoteRecord) list \<Rightarrow> u64 \<Rightarrow> u64" where
  "counted_stake_loop local equivocators stakes [] counted_stake = counted_stake"
| "counted_stake_loop local equivocators stakes ((wallet, rec) # votes) counted_stake =
     (if wallet = local \<or> \<not> is_valid (vrec_vote rec) \<or> wallet \<in> equivocators \<or> stakes wallet = None
      then counted_stake_loop local equivocators stakes votes counted_stake
      else counted_stake_loop local equivocators stakes votes
        (saturating_add counted_stake (case stakes wallet of Some s \<Rightarrow> s | None \<Rightarrow> 0)))"

definition stake_quorum_met :: "VoteTally \<Rightarrow> coordinator \<Rightarrow> bool" where
  "stake_quorum_met tally c =
     (case tc_local_wallet c of
        None \<Rightarrow> True
      | Some local \<Rightarrow>
          let authority_stake = (case tc_onchain_stakes c local of Some s \<Rightarrow> s | None \<Rightarrow> 0);
              eligible_stake = saturating_sub (tc_onchain_registry_total c) authority_stake in
          if eligible_stake = 0 then False
          else let threshold = stake_threshold eligible_stake;
                   counted_stake = counted_stake_loop local (tc_equivocators c) (tc_onchain_stakes c)
                     (vt_votes tally) 0 in
            if eligible_stake < counted_stake then False else threshold \<le> counted_stake)"

definition eligible_wallets :: "coordinator \<Rightarrow> string set" where
  "eligible_wallets c = tc_onchain_wallets c - tc_equivocators c"

definition set_consensus_thresholds :: "nat \<Rightarrow> nat \<Rightarrow> coordinator \<Rightarrow> coordinator" where
  "set_consensus_thresholds min_validators total_validators c =
     (if min_validators = 0 \<or> total_validators = 0 \<or> total_validators < min_validators
      then c\<lparr>tc_min_validators := DEFAULT_MIN_VALIDATORS_FOR_CONSENSUS,
             tc_total_validators := DEFAULT_TOTAL_VALIDATORS\<rparr>
      else c\<lparr>tc_min_validators := min_validators, tc_total_validators := total_validators\<rparr>)"

definition register_validator_with_wallet ::
  "u64 \<Rightarrow> bool \<Rightarrow> NodeId \<Rightarrow> string option \<Rightarrow> coordinator \<Rightarrow> coordinator" where
  "register_validator_with_wallet now written validator wallet_pubkey c =
     (let allow = tc_onchain_wallets c;
          admitted = (case wallet_pubkey of Some w \<Rightarrow> w \<in> allow | None \<Rightarrow> False) in
      if allow \<noteq> {} \<and> \<not> admitted then c
      else
        let validators = (if validator \<in> set (tc_validators c) then tc_validators c
                          else tc_validators c @ [validator]);
            selector = tc_leader_selector c;
            selector' =
              (case get_validator validator selector of
                 Some existing \<Rightarrow>
                   leader_activate validator
                     (if wallet_pubkey \<noteq> None \<and> wallet_pubkey \<noteq> vi_wallet_pubkey existing
                      then leader_update (with_wallet wallet_pubkey existing) selector
                      else selector)
               | None \<Rightarrow>
                   leader_register (with_wallet wallet_pubkey (ValidatorInfo_new validator 0 1000)) selector)
        in c\<lparr>tc_validators := validators,
             tc_reputation_tracker :=
               reputation_register now written validator (tc_reputation_tracker c),
             tc_leader_selector := selector'\<rparr>)"

definition consensus_register_validator :: "u64 \<Rightarrow> bool \<Rightarrow> NodeId \<Rightarrow> coordinator \<Rightarrow> coordinator" where
  "consensus_register_validator now written validator c =
     register_validator_with_wallet now written validator None c"

definition consensus_unregister_validator :: "NodeId \<Rightarrow> coordinator \<Rightarrow> coordinator" where
  "consensus_unregister_validator validator c =
     c\<lparr>tc_validators := filter (\<lambda>v. v \<noteq> validator) (tc_validators c),
       tc_leader_selector := leader_deactivate validator (tc_leader_selector c)\<rparr>"

definition sync_onchain_stakes :: "(string \<rightharpoonup> u64) \<Rightarrow> u64 \<Rightarrow> coordinator \<Rightarrow> coordinator" where
  "sync_onchain_stakes stakes registry_total_active_stake c =
     (let c1 = (if stakes \<noteq> Map.empty
                then c\<lparr>tc_onchain_wallets := dom stakes,
                       tc_onchain_registry_total := registry_total_active_stake,
                       tc_onchain_stakes := stakes\<rparr>
                else c)
      in c1\<lparr>tc_leader_selector := apply_onchain_stakes stakes (tc_leader_selector c1)\<rparr>)"

definition validator_wallet :: "NodeId \<Rightarrow> coordinator \<Rightarrow> string option" where
  "validator_wallet node_id c =
     (case get_validator node_id (tc_leader_selector c) of Some v \<Rightarrow> vi_wallet_pubkey v | None \<Rightarrow> None)"

definition consensus_valid_voters :: "string \<Rightarrow> coordinator \<Rightarrow> NodeId list" where
  "consensus_valid_voters request_id c =
     (case tc_pending c request_id of
        Some consensus \<Rightarrow> valid_voters (eligible_wallets c) (cs_tally consensus)
      | None \<Rightarrow> [])"

definition source_is_onchain_validator :: "NodeId \<Rightarrow> coordinator \<Rightarrow> bool" where
  "source_is_onchain_validator node_id c =
     (if tc_onchain_wallets c = {} then True
      else case validator_wallet node_id c of Some w \<Rightarrow> w \<in> tc_onchain_wallets c | None \<Rightarrow> False)"

definition validator_count :: "coordinator \<Rightarrow> nat" where
  "validator_count c = length (tc_validators c)"

definition is_registered_validator :: "NodeId \<Rightarrow> coordinator \<Rightarrow> bool" where
  "is_registered_validator node_id c \<longleftrightarrow> node_id \<in> set (tc_validators c)"

definition reset_timeout_streak :: "NodeId \<Rightarrow> coordinator \<Rightarrow> coordinator" where
  "reset_timeout_streak validator c =
     c\<lparr>tc_timeout_streaks := (tc_timeout_streaks c)(validator \<mapsto> 0)\<rparr>"

datatype consensus_error =
  NotCanonicalId | NoValidators | NotEnoughValidators nat nat | RequestNotFound | TimedOutRequest
| ClockOverflow | Tally tally_error

definition start_verification ::
  "'z crypto_scheme \<Rightarrow> u64 \<Rightarrow> TransactVerificationRequest \<Rightarrow> coordinator
     \<Rightarrow> (coordinator \<times> string, consensus_error) result" where
  "start_verification cr now request c =
     (if tr_request_id request \<noteq> canonical_id cr request then Err NotCanonicalId
      else if tc_validators c = [] then Err NoValidators
      else if length (tc_validators c) < tc_min_validators c
      then Err (NotEnoughValidators (length (tc_validators c)) (tc_min_validators c))
      else and_then (ok_or (new_with_thresholds now request (tc_min_validators c) (tc_total_validators c))
                       ClockOverflow) (\<lambda>consensus.
        let request_id = tr_request_id request in
        Ok (case tc_pending c request_id of
              Some _ \<Rightarrow> c
            | None \<Rightarrow> c\<lparr>tc_pending := (tc_pending c)(request_id \<mapsto> consensus)\<rparr>, request_id)))"

text \<open>Recording a vote: the tally, the streak, and the consequences of an equivocation. A penalty
  that cannot be recorded is only logged.\<close>

definition penalise ::
  "u64 \<Rightarrow> bool \<Rightarrow> NodeId \<Rightarrow> ReputationTracker \<Rightarrow> ReputationTracker" where
  "penalise now written validator t =
     (case record_failure now written validator t of Ok (t', _) \<Rightarrow> t' | Err _ \<Rightarrow> t)"

definition record_vote ::
  "u64 \<Rightarrow> bool \<Rightarrow> TransactVerificationResult \<Rightarrow> TransactConsensus \<Rightarrow> coordinator \<Rightarrow> coordinator" where
  "record_vote now written result consensus c =
     (let validator = res_validator result;
          c1 = reset_timeout_streak validator c;
          (tally, evidence) = submit_vote (res_wallet_pubkey result) validator (res_vote result)
            (res_signature result) (cs_tally consensus);
          c2 = c1\<lparr>tc_pending := (tc_pending c1)(res_request_id result \<mapsto> consensus\<lparr>cs_tally := tally\<rparr>)\<rparr>
      in case evidence of
           None \<Rightarrow> c2
         | Some e \<Rightarrow>
             let c3 = persist_equivocators written
                        (c2\<lparr>tc_equivocators := insert (res_wallet_pubkey result) (tc_equivocators c2)\<rparr>)
             in c3\<lparr>tc_reputation_tracker := penalise now written validator (tc_reputation_tracker c3),
                   tc_slashing_tracker := slashing_record now validator e (tc_slashing_tracker c3)\<rparr>)"

text \<open>Sending the approval, the first time the quorum is complete.\<close>

definition emit_approval :: "string \<Rightarrow> coordinator \<Rightarrow> coordinator" where
  "emit_approval request_id c =
     (case (tc_channel c, tc_pending c request_id) of
        (Some receiver_alive, Some consensus) \<Rightarrow>
          if request_id \<notin> tc_emitted c \<and>
             has_consensus (eligible_wallets c) (cs_tally consensus) \<and>
             stake_quorum_met (cs_tally consensus) c \<and>
             consensus_result (eligible_wallets c) (cs_tally consensus) = Ok Valid \<and> receiver_alive
          then c\<lparr>tc_sent := tc_sent c @ [cs_request consensus],
                 tc_emitted := insert request_id (tc_emitted c)\<rparr>
          else c
      | _ \<Rightarrow> c)"

definition submit_result ::
  "'z crypto_scheme \<Rightarrow> u64 \<Rightarrow> bool \<Rightarrow> TransactVerificationResult \<Rightarrow> coordinator
     \<Rightarrow> (coordinator, consensus_error) result" where
  "submit_result cr now written result c =
     and_then (ok_or (tc_pending c (res_request_id result)) RequestNotFound) (\<lambda>consensus.
     if res_request_id result \<noteq> canonical_id cr (cs_request consensus) then Ok c
     else if res_wallet_pubkey result = [] \<or> res_signature result = [] then Ok c
     else if tc_onchain_wallets c \<noteq> {} \<and> res_wallet_pubkey result \<notin> tc_onchain_wallets c then Ok c
     else Ok (emit_approval (res_request_id result) (record_vote now written result consensus c)))"

definition check_consensus ::
  "u64 \<Rightarrow> string \<Rightarrow> coordinator \<Rightarrow> (VerificationVote option, consensus_error) result" where
  "check_consensus now request_id c =
     and_then (ok_or (tc_pending c request_id) RequestNotFound) (\<lambda>consensus.
     if is_timed_out now (cs_tally consensus) then Err TimedOutRequest
     else if has_consensus (eligible_wallets c) (cs_tally consensus)
     then (case consensus_result (eligible_wallets c) (cs_tally consensus) of
             Err e \<Rightarrow> Err (Tally e)
           | Ok vote \<Rightarrow>
               if vote = Valid \<and> \<not> stake_quorum_met (cs_tally consensus) c then Ok None
               else Ok (Some vote))
     else Ok None)"

definition cleanup :: "string \<Rightarrow> coordinator \<Rightarrow> coordinator" where
  "cleanup request_id c = c\<lparr>tc_pending := (tc_pending c)(request_id := None)\<rparr>"

definition timed_out_ids :: "u64 \<Rightarrow> coordinator \<Rightarrow> string set" where
  "timed_out_ids now c =
     {rid. \<exists>consensus. tc_pending c rid = Some consensus \<and> is_timed_out now (cs_tally consensus)}"

definition cleanup_timeouts :: "u64 \<Rightarrow> coordinator \<Rightarrow> coordinator \<times> nat" where
  "cleanup_timeouts now c =
     (let timed_out = timed_out_ids now c
      in (c\<lparr>tc_pending := (\<lambda>rid. if rid \<in> timed_out then None else tc_pending c rid),
            tc_emitted := tc_emitted c - timed_out\<rparr>, card timed_out))"

section \<open>The stake gate\<close>

interpretation offchain_quorum: supermajority stake_threshold
proof
  fix amount :: u64
  assume small: "unat amount < 2 ^ 63"
  have same: "stake_threshold amount = quorum_threshold amount"
    by (simp add: stake_threshold_def quorum_threshold_def)
  show "2 * unat amount < 3 * unat (stake_threshold amount)"
    unfolding same by (rule onchain_quorum.above_two_thirds [OF small])
  show "stake_threshold amount \<le> amount" if "0 < amount"
    unfolding same by (rule onchain_quorum.attainable [OF that small])
qed

text \<open>The wallets whose stake the gate counts.\<close>

definition counted_wallets ::
  "string \<Rightarrow> string set \<Rightarrow> (string \<rightharpoonup> u64) \<Rightarrow> (string \<times> VoteRecord) list \<Rightarrow> string list" where
  "counted_wallets local equivocators stakes votes =
     map fst (filter (\<lambda>(w, rec). w \<noteq> local \<and> is_valid (vrec_vote rec) \<and> w \<notin> equivocators \<and>
       stakes w \<noteq> None) votes)"

definition stake_at :: "(string \<rightharpoonup> u64) \<Rightarrow> string \<Rightarrow> nat" where
  "stake_at stakes w = unat (case stakes w of Some s \<Rightarrow> s | None \<Rightarrow> 0)"

lemma counted_stake_loop_sum:
  "unat (counted_stake_loop local eq stakes votes counted) =
     min (unat counted + sum_list (map (stake_at stakes) (counted_wallets local eq stakes votes))) (2 ^ 64 - 1)"
proof (induction votes arbitrary: counted)
  case Nil
  then show ?case using unat_u64_bound [of counted] by (simp add: counted_wallets_def)
next
  case (Cons v votes)
  obtain w r where v: "v = (w, r)" by force
  show ?case
    unfolding v using Cons.IH
    by (auto simp: counted_wallets_def stake_at_def unat_saturating_add min_def split: option.splits)
qed

lemma counted_wallets_distinct: "distinct (map fst votes) \<Longrightarrow> distinct (counted_wallets l eq st votes)"
  by (auto simp: counted_wallets_def distinct_map_filter)

lemma set_counted_wallets:
  "set (counted_wallets l eq st votes) =
     {w. w \<noteq> l \<and> w \<notin> eq \<and> w \<in> dom st \<and> (\<exists>r. (w, r) \<in> set votes \<and> is_valid (vrec_vote r))}"
  by (force simp: counted_wallets_def)

lemma stake_quorum_met_iff:
  assumes "tc_local_wallet c = Some local"
  shows "stake_quorum_met tally c \<longleftrightarrow>
    (let eligible = saturating_sub (tc_onchain_registry_total c)
           (case tc_onchain_stakes c local of Some s \<Rightarrow> s | None \<Rightarrow> 0);
         counted = counted_stake_loop local (tc_equivocators c) (tc_onchain_stakes c) (vt_votes tally) 0
     in eligible \<noteq> 0 \<and> counted \<le> eligible \<and> stake_threshold eligible \<le> counted)"
  using assms by (auto simp: stake_quorum_met_def Let_def not_less)

lemma stake_quorum_supermajority:
  assumes "tc_local_wallet c = Some local" and "stake_quorum_met tally c"
    and "unat (tc_onchain_registry_total c) < 2 ^ 63"
  shows "2 * (unat (tc_onchain_registry_total c) - stake_at (tc_onchain_stakes c) local) <
    3 * sum_list (map (stake_at (tc_onchain_stakes c))
      (counted_wallets local (tc_equivocators c) (tc_onchain_stakes c) (vt_votes tally)))"
proof -
  let ?own = "case tc_onchain_stakes c local of Some s \<Rightarrow> s | None \<Rightarrow> 0"
  let ?e = "saturating_sub (tc_onchain_registry_total c) ?own"
  let ?n = "sum_list (map (stake_at (tc_onchain_stakes c))
      (counted_wallets local (tc_equivocators c) (tc_onchain_stakes c) (vt_votes tally)))"
  have e: "unat ?e = unat (tc_onchain_registry_total c) - stake_at (tc_onchain_stakes c) local"
    by (simp add: unat_saturating_sub stake_at_def)
  then have small: "unat ?e < 2 ^ 63" using assms(3) by simp
  have ok: "unat (stake_threshold ?e) \<le> min ?n (2 ^ 64 - 1)" "min ?n (2 ^ 64 - 1) \<le> unat ?e"
    using assms(2) counted_stake_loop_sum [of local "tc_equivocators c" "tc_onchain_stakes c"
        "vt_votes tally" 0]
    by (simp_all add: stake_quorum_met_iff [OF assms(1)] Let_def word_le_nat_alt)
  from ok(2) small have "min ?n (2 ^ 64 - 1) = ?n" by (simp add: min_def split: if_splits)
  with ok(1) offchain_quorum.above_two_thirds [OF small] e show ?thesis by simp
qed

section \<open>What the pending rounds look like\<close>

text \<open>Every round is kept under the canonical id of its request, with one vote per wallet.\<close>

definition coordinator_ok :: "'z crypto_scheme \<Rightarrow> coordinator \<Rightarrow> bool" where
  "coordinator_ok cr c \<longleftrightarrow>
     (\<forall>rid k. tc_pending c rid = Some k \<longrightarrow>
        canonical_id cr (cs_request k) = rid \<and> distinct (map fst (vt_votes (cs_tally k))))"

lemma coordinator_okD:
  "coordinator_ok cr c \<Longrightarrow> tc_pending c rid = Some k \<Longrightarrow>
   canonical_id cr (cs_request k) = rid \<and> distinct (map fst (vt_votes (cs_tally k)))"
  unfolding coordinator_ok_def by blast

lemma coordinator_ok_same: "coordinator_ok cr c \<Longrightarrow> tc_pending c' = tc_pending c \<Longrightarrow> coordinator_ok cr c'"
  by (simp add: coordinator_ok_def)

text \<open>Which fields the parts of \<open>submit_result\<close> touch.\<close>

lemma record_vote_fields [simp]:
  "tc_sent (record_vote now w r k c) = tc_sent c"
  "tc_emitted (record_vote now w r k c) = tc_emitted c"
  "tc_channel (record_vote now w r k c) = tc_channel c"
  "tc_local_wallet (record_vote now w r k c) = tc_local_wallet c"
  "tc_onchain_wallets (record_vote now w r k c) = tc_onchain_wallets c"
  "tc_onchain_stakes (record_vote now w r k c) = tc_onchain_stakes c"
  "tc_onchain_registry_total (record_vote now w r k c) = tc_onchain_registry_total c"
  "tc_pending (record_vote now w r k c) = (tc_pending c)(res_request_id r \<mapsto>
     k\<lparr>cs_tally := fst (submit_vote (res_wallet_pubkey r) (res_validator r) (res_vote r)
       (res_signature r) (cs_tally k))\<rparr>)"
  by (simp_all add: record_vote_def reset_timeout_streak_def persist_equivocators_def Let_def
      split: prod.splits option.splits)

lemma emit_approval_fields [simp]:
  "tc_pending (emit_approval rid c) = tc_pending c"
  "tc_channel (emit_approval rid c) = tc_channel c"
  "tc_local_wallet (emit_approval rid c) = tc_local_wallet c"
  "tc_onchain_stakes (emit_approval rid c) = tc_onchain_stakes c"
  "tc_onchain_wallets (emit_approval rid c) = tc_onchain_wallets c"
  "tc_equivocators (emit_approval rid c) = tc_equivocators c"
  "tc_onchain_registry_total (emit_approval rid c) = tc_onchain_registry_total c"
  by (simp_all add: emit_approval_def split: option.splits)

lemma emit_approval_cases:
  obtains (quiet) "emit_approval rid c = c"
  | (sent) k where "tc_pending c rid = Some k" "rid \<notin> tc_emitted c"
      "has_consensus (eligible_wallets c) (cs_tally k)" "stake_quorum_met (cs_tally k) c"
      "consensus_result (eligible_wallets c) (cs_tally k) = Ok Valid"
      "emit_approval rid c =
         c\<lparr>tc_sent := tc_sent c @ [cs_request k], tc_emitted := insert rid (tc_emitted c)\<rparr>"
proof (cases "emit_approval rid c = c")
  case False
  have "emit_approval rid c = c" if "tc_channel c = None \<or> tc_pending c rid = None"
    using that by (cases "tc_channel c") (auto simp: emit_approval_def)
  then obtain alive k where k: "tc_channel c = Some alive" "tc_pending c rid = Some k"
    using False by (metis not_Some_eq)
  let ?go = "rid \<notin> tc_emitted c \<and> has_consensus (eligible_wallets c) (cs_tally k) \<and>
    stake_quorum_met (cs_tally k) c \<and> consensus_result (eligible_wallets c) (cs_tally k) = Ok Valid \<and> alive"
  have emit: "emit_approval rid c = (if ?go then c\<lparr>tc_sent := tc_sent c @ [cs_request k],
      tc_emitted := insert rid (tc_emitted c)\<rparr> else c)"
    using k by (simp add: emit_approval_def)
  have go: ?go
  proof (rule ccontr)
    assume "\<not> ?go"
    then have "emit_approval rid c = c" unfolding emit by (rule if_not_P)
    then show False using False by simp
  qed
  have "emit_approval rid c =
      c\<lparr>tc_sent := tc_sent c @ [cs_request k], tc_emitted := insert rid (tc_emitted c)\<rparr>"
    unfolding emit using go by (rule if_P)
  note emitted = this
  from go show thesis
    by (elim conjE) (rule sent [OF k(2) _ _ _ _ emitted])
qed (rule quiet)

lemma submit_result_cases:
  assumes "submit_result cr now w r c = Ok c'"
  obtains (dropped) "c' = c"
  | (counted) k where "tc_pending c (res_request_id r) = Some k"
      "canonical_id cr (cs_request k) = res_request_id r"
      "c' = emit_approval (res_request_id r) (record_vote now w r k c)"
  using assms by (auto simp: submit_result_def and_then_eq_Ok ok_or_eq_Ok split: if_splits)

lemma record_vote_ok:
  assumes "coordinator_ok cr c" and "tc_pending c (res_request_id r) = Some k"
  shows "coordinator_ok cr (record_vote now w r k c)"
  using coordinator_okD [OF assms] coordinator_okD [OF assms(1)]
  by (simp add: coordinator_ok_def submit_vote_distinct)

lemma submit_result_ok:
  assumes "coordinator_ok cr c" and "submit_result cr now w r c = Ok c'"
  shows "coordinator_ok cr c'"
  using assms(2)
proof (cases rule: submit_result_cases)
  case (counted k)
  from record_vote_ok [OF assms(1) counted(1)] show ?thesis
    unfolding counted(3) by (rule coordinator_ok_same) simp
qed (use assms(1) in simp)

lemma start_verification_ok:
  assumes "coordinator_ok cr c" and "start_verification cr now req c = Ok (c', rid)"
  shows "coordinator_ok cr c'"
  using assms
  by (auto simp: start_verification_def new_with_thresholds_def VoteTally_new_def and_then_eq_Ok
      ok_or_eq_Ok coordinator_ok_def Let_def split: if_splits option.splits)

section \<open>Histories of the coordinator\<close>

datatype coordinator_op =
  Start TransactVerificationRequest
| Vote TransactVerificationResult
| Register NodeId "string option"
| Unregister NodeId
| Sync "string \<rightharpoonup> u64" u64
| Cleanup string
| Sweep
| ClearEmitted string

text \<open>An operation that returns an error leaves the coordinator as it was.\<close>

definition coordinator_step ::
  "'z crypto_scheme \<Rightarrow> u64 \<times> bool \<times> coordinator_op \<Rightarrow> coordinator \<Rightarrow> coordinator" where
  "coordinator_step cr e c =
     (case e of (now, written, op) \<Rightarrow>
       (case op of
          Start r \<Rightarrow> (case start_verification cr now r c of Ok (c', _) \<Rightarrow> c' | Err _ \<Rightarrow> c)
        | Vote r \<Rightarrow> (case submit_result cr now written r c of Ok c' \<Rightarrow> c' | Err _ \<Rightarrow> c)
        | Register v w \<Rightarrow> register_validator_with_wallet now written v w c
        | Unregister v \<Rightarrow> consensus_unregister_validator v c
        | Sync stakes total_stake \<Rightarrow> sync_onchain_stakes stakes total_stake c
        | Cleanup rid \<Rightarrow> cleanup rid c
        | Sweep \<Rightarrow> fst (cleanup_timeouts now c)
        | ClearEmitted rid \<Rightarrow> clear_emitted rid c))"

definition coordinator_run ::
  "'z crypto_scheme \<Rightarrow> (u64 \<times> bool \<times> coordinator_op) list \<Rightarrow> coordinator \<Rightarrow> coordinator" where
  "coordinator_run cr es c = foldl (\<lambda>c e. coordinator_step cr e c) c es"

lemma other_ops_fields [simp]:
  "tc_pending (register_validator_with_wallet now w v wp c) = tc_pending c"
  "tc_pending (consensus_unregister_validator v c) = tc_pending c"
  "tc_pending (sync_onchain_stakes st n c) = tc_pending c"
  "tc_pending (clear_emitted rid c) = tc_pending c"
  "tc_sent (register_validator_with_wallet now w v wp c) = tc_sent c"
  "tc_sent (consensus_unregister_validator v c) = tc_sent c"
  "tc_sent (sync_onchain_stakes st n c) = tc_sent c"
  "tc_sent (clear_emitted rid c) = tc_sent c"
  "tc_sent (cleanup rid c) = tc_sent c"
  "tc_sent (fst (cleanup_timeouts now c)) = tc_sent c"
  "tc_emitted (register_validator_with_wallet now w v wp c) = tc_emitted c"
  "tc_emitted (consensus_unregister_validator v c) = tc_emitted c"
  "tc_emitted (sync_onchain_stakes st n c) = tc_emitted c"
  "tc_emitted (cleanup rid c) = tc_emitted c"
  by (simp_all add: register_validator_with_wallet_def consensus_unregister_validator_def
      sync_onchain_stakes_def clear_emitted_def cleanup_def cleanup_timeouts_def Let_def)

lemma coordinator_step_ok:
  assumes "coordinator_ok cr c"
  shows "coordinator_ok cr (coordinator_step cr e c)"
proof -
  obtain now w op where e: "e = (now, w, op)" by (cases e)
  have drop: "coordinator_ok cr (cleanup rid c)" "coordinator_ok cr (fst (cleanup_timeouts now c))" for rid
    using assms by (auto simp: coordinator_ok_def cleanup_def cleanup_timeouts_def Let_def)
  show ?thesis
    using assms drop start_verification_ok [OF assms] submit_result_ok [OF assms]
    by (cases op) (auto simp: e coordinator_step_def split: result.splits
        intro: coordinator_ok_same [OF assms])
qed

text \<open>Unless its mark is cleared, an id is sent at most once: a sent id is marked.\<close>

definition sent_once :: "'z crypto_scheme \<Rightarrow> string \<Rightarrow> coordinator \<Rightarrow> bool" where
  "sent_once cr rid c \<longleftrightarrow>
     count_list (map (canonical_id cr) (tc_sent c)) rid \<le> (if rid \<in> tc_emitted c then 1 else 0)"

lemma sent_once_same:
  "sent_once cr rid c \<Longrightarrow> tc_sent c' = tc_sent c \<Longrightarrow> tc_emitted c' = tc_emitted c \<Longrightarrow> sent_once cr rid c'"
  by (simp add: sent_once_def)

lemma submit_result_sent_once:
  assumes "coordinator_ok cr c" and "submit_result cr now w r c = Ok c'" and "sent_once cr rid c"
  shows "sent_once cr rid c'"
  using assms(2)
proof (cases rule: submit_result_cases)
  case (counted k)
  let ?c = "record_vote now w r k c"
  have same: "sent_once cr rid ?c" using assms(3) by (rule sent_once_same) simp_all
  show ?thesis
  proof (cases rule: emit_approval_cases [of "res_request_id r" ?c])
    case quiet
    then show ?thesis using same counted(3) by simp
  next
    case (sent k')
    have "canonical_id cr (cs_request k') = res_request_id r"
      using sent(1) counted(2) by auto
    then show ?thesis
      using same sent(2) unfolding counted(3) sent(6) by (auto simp: sent_once_def)
  qed
qed (use assms(3) in simp)

lemma coordinator_step_sent_once:
  assumes "coordinator_ok cr c" and "sent_once cr rid c"
    and "snd (snd e) \<noteq> Sweep" and "snd (snd e) \<noteq> ClearEmitted rid"
  shows "sent_once cr rid (coordinator_step cr e c)"
proof -
  obtain now w op where e: "e = (now, w, op)" by (cases e)
  have start: "start_verification cr now r c = Ok (c', x) \<Longrightarrow> tc_sent c' = tc_sent c \<and> tc_emitted c' = tc_emitted c"
    for r c' x by (auto simp: start_verification_def and_then_eq_Ok Let_def split: if_splits option.splits)
  have clear: "sent_once cr rid (clear_emitted x c)" if "x \<noteq> rid" for x
    using assms(2) that by (auto simp: sent_once_def clear_emitted_def split: if_splits)
  show ?thesis
    using assms start clear submit_result_sent_once [OF assms(1) _ assms(2)]
    by (cases op) (auto simp: e coordinator_step_def split: result.splits
        intro: sent_once_same [OF assms(2)])
qed

lemma coordinator_run_ok:
  assumes "coordinator_ok cr c"
  shows "coordinator_ok cr (coordinator_run cr es c)"
  using assms unfolding coordinator_run_def
  by (induction es arbitrary: c) (simp_all add: coordinator_step_ok)

lemma coordinator_run_sent_once:
  assumes "coordinator_ok cr c" and "sent_once cr rid c"
    and "\<forall>e\<in>set es. snd (snd e) \<noteq> Sweep \<and> snd (snd e) \<noteq> ClearEmitted rid"
  shows "sent_once cr rid (coordinator_run cr es c)"
  using assms unfolding coordinator_run_def
  by (induction es arbitrary: c) (simp_all add: coordinator_step_ok coordinator_step_sent_once)

end
