(* ===== verification/Consensus_Safety.thy ===== *)
theory Consensus_Safety
  imports Transact_Consensus
begin

text \<open>
  What an approval of the coordinator means: it was voted for by distinct staked wallets that hold
  a supermajority, it is sent once, and the id and the vote that carry it bind every field that is
  settled.
\<close>

section \<open>An approval is backed by a supermajority\<close>

lemma coordinator_step_local_wallet [simp]:
  "tc_local_wallet (coordinator_step cr e c) = tc_local_wallet c"
proof -
  obtain now w op where e: "e = (now, w, op)" by (cases e)
  have start: "start_verification cr now r c = Ok (c', x) \<Longrightarrow> tc_local_wallet c' = tc_local_wallet c"
    for r c' x by (auto simp: start_verification_def and_then_eq_Ok Let_def split: if_splits option.splits)
  have vote: "tc_local_wallet c' = tc_local_wallet c" if "submit_result cr now w r c = Ok c'" for r c'
    using that by (cases rule: submit_result_cases) simp_all
  have other: "tc_local_wallet (register_validator_with_wallet now w v wp c) = tc_local_wallet c"
    "tc_local_wallet (consensus_unregister_validator v c) = tc_local_wallet c"
    "tc_local_wallet (sync_onchain_stakes st n c) = tc_local_wallet c"
    "tc_local_wallet (clear_emitted rid c) = tc_local_wallet c"
    "tc_local_wallet (cleanup rid c) = tc_local_wallet c"
    "tc_local_wallet (fst (cleanup_timeouts now c)) = tc_local_wallet c" for v wp st n rid
    by (simp_all add: register_validator_with_wallet_def consensus_unregister_validator_def
        sync_onchain_stakes_def clear_emitted_def cleanup_def cleanup_timeouts_def Let_def)
  show ?thesis
    using start vote other by (cases op) (auto simp: e coordinator_step_def split: result.splits)
qed

lemma coordinator_run_local_wallet [simp]:
  "tc_local_wallet (coordinator_run cr es c) = tc_local_wallet c"
  unfolding coordinator_run_def by (induction es arbitrary: c) simp_all

lemma fresh_ok: "tc_pending c = Map.empty \<Longrightarrow> coordinator_ok cr c"
  by (simp add: coordinator_ok_def)

lemma length_valid_voters:
  "length (valid_voters el t) =
     length (filter is_valid (map (vrec_vote \<circ> snd) (filter (\<lambda>(w, _). w \<in> el) (vt_votes t))))"
  by (simp add: valid_voters_def filter_map comp_def case_prod_unfold conj_commute)

lemma consensus_result_Valid:
  "consensus_result el t = Ok Valid \<Longrightarrow> vt_min_validators t \<le> length (valid_voters el t)"
  unfolding length_valid_voters by (auto simp: consensus_result_def Let_def split: if_splits)

text \<open>The one way the list of sent approvals grows.\<close>

lemma submit_result_sends:
  assumes "submit_result cr now w r c = Ok c'" and "tc_sent c' \<noteq> tc_sent c"
  obtains k where "tc_pending c' (res_request_id r) = Some k"
    "canonical_id cr (cs_request k) = res_request_id r" "tc_sent c' = tc_sent c @ [cs_request k]"
    "stake_quorum_met (cs_tally k) c'"
    "vt_min_validators (cs_tally k) \<le> length (valid_voters (eligible_wallets c') (cs_tally k))"
  using assms(1)
proof (cases rule: submit_result_cases)
  case (counted k)
  let ?c = "record_vote now w r k c"
  show thesis
  proof (cases rule: emit_approval_cases [of "res_request_id r" ?c])
    case (sent k')
    have gate: "stake_quorum_met t c' = stake_quorum_met t ?c" for t
      unfolding counted(3) stake_quorum_met_def emit_approval_fields ..
    have "eligible_wallets c' = eligible_wallets ?c"
      unfolding counted(3) eligible_wallets_def emit_approval_fields ..
    then show thesis
      using sent counted consensus_result_Valid [OF sent(5)] gate
      by (intro that [of k']) auto
  qed (use counted(3) assms(2) in simp)
qed (use assms(2) in simp)

lemma submit_result_appends:
  assumes "submit_result cr now w r c = Ok c'"
  shows "\<exists>xs. tc_sent c' = tc_sent c @ xs"
  using submit_result_sends [OF assms] by (metis append_Nil2)

text \<open>A committee of one voter and a coordinator that also holds stake.\<close>

definition example_request :: TransactVerificationRequest where
  "example_request =
     (let r = \<lparr> tr_request_id = [], tr_recipient = [1], tr_mint = None, tr_nullifiers = ([2], [3]),
            tr_output_commitments = ([4], [5]), tr_root = [6], tr_ext_amount = 7, tr_proof = [8],
            tr_ciphertexts = ([], []), tr_timestamp = 0 \<rparr>
      in r\<lparr>tr_request_id := canonical_id ref_runtime r\<rparr>)"

definition example_id :: string where
  "example_id = canonical_id ref_runtime example_request"

definition example_coordinator :: coordinator where
  "example_coordinator =
     with_local_wallet ''me'' (set_consensus_thresholds 1 1 new_with_approvals)"

definition example_ops :: "(u64 \<times> bool \<times> coordinator_op) list" where
  "example_ops =
     [(0, True, Sync [''v'' \<mapsto> 100, ''me'' \<mapsto> 50] 150), (0, True, Register [1] (Some ''v'')),
      (0, True, Start example_request)]"

definition example_vote :: TransactVerificationResult where
  "example_vote = \<lparr> res_request_id = example_id, res_validator = [1], res_vote = Valid,
     res_timestamp = 0, res_wallet_pubkey = ''v'', res_signature = [9] \<rparr>"

lemma canonical_id_request_id [simp]: "canonical_id cr (r\<lparr>tr_request_id := x\<rparr>) = canonical_id cr r"
  by (simp add: canonical_id_def canonical_preimage_def)

lemma example_request_id [simp]: "tr_request_id example_request = example_id"
  by (simp add: example_id_def example_request_def Let_def canonical_id_def canonical_preimage_def)

lemma example_tally:
  "VoteTally_new 0 rid (Suc 0) (Suc 0) =
     Some \<lparr> vt_request_id = rid, vt_votes = [], vt_started_at = 0, vt_deadline = 30,
       vt_min_validators = 1, vt_total_validators = 1 \<rparr>"
  by (simp add: VoteTally_new_def checked_add_def)

lemma example_start_state:
  "let c = coordinator_run ref_runtime example_ops example_coordinator in
   tc_pending c = [example_id \<mapsto> \<lparr> cs_request = example_request,
     cs_tally = \<lparr> vt_request_id = example_id, vt_votes = [], vt_started_at = 0, vt_deadline = 30,
       vt_min_validators = 1, vt_total_validators = 1 \<rparr> \<rparr>] \<and>
   tc_channel c = Some True \<and> tc_sent c = [] \<and> tc_emitted c = {} \<and>
   tc_onchain_stakes c = [''v'' \<mapsto> 100, ''me'' \<mapsto> 50] \<and> tc_onchain_registry_total c = 150 \<and>
   tc_onchain_wallets c = {''me'', ''v''} \<and> tc_equivocators c = {} \<and> tc_local_wallet c = Some ''me''"
  by (simp add: coordinator_run_def coordinator_step_def example_ops_def example_coordinator_def
      start_verification_def register_validator_with_wallet_def sync_onchain_stakes_def
      with_local_wallet_def set_consensus_thresholds_def new_with_approvals_def coordinator_new_def
      new_with_thresholds_def example_tally example_id_def [symmetric] Let_def)

lemma example_vote_sends:
  obtains c' where
    "submit_result ref_runtime 1 True example_vote
       (coordinator_run ref_runtime example_ops example_coordinator) = Ok c'"
    "tc_sent c' = [example_request]" "tc_onchain_registry_total c' = 150"
    "tc_onchain_stakes c' = [''v'' \<mapsto> 100, ''me'' \<mapsto> 50]"
proof -
  let ?c = "coordinator_run ref_runtime example_ops example_coordinator"
  let ?t = "\<lparr> vt_request_id = example_id, vt_votes = [], vt_started_at = 0, vt_deadline = 30,
       vt_min_validators = 1, vt_total_validators = 1 \<rparr>"
  let ?k = "\<lparr> cs_request = example_request, cs_tally = ?t \<rparr>"
  let ?r = "record_vote 1 True example_vote ?k ?c"
  note start = example_start_state [unfolded Let_def]
  have eq: "tc_equivocators ?r = {}"
    using start by (simp add: record_vote_def submit_vote_def reset_timeout_streak_def Let_def)
  have pend: "tc_pending ?r example_id = Some \<lparr> cs_request = example_request,
      cs_tally = ?t\<lparr>vt_votes := [(''v'', \<lparr> vrec_vote = Valid, vrec_node_id = [1], vrec_signature = [9] \<rparr>)]\<rparr> \<rparr>"
    by (simp add: submit_vote_def example_vote_def)
  have "emit_approval example_id ?r =
      ?r\<lparr>tc_sent := [example_request], tc_emitted := {example_id}\<rparr>"
    using start eq pend
    by (simp add: emit_approval_def has_consensus_def count_eligible_votes_def eligible_wallets_def
        consensus_result_def is_valid_def stake_quorum_met_iff stake_threshold_def saturating_add_def
        saturating_sub_def saturating_mul_def Let_def)
  moreover have "submit_result ref_runtime 1 True example_vote ?c = Ok (emit_approval example_id ?r)"
    using start by (simp add: submit_result_def example_vote_def example_id_def [symmetric])
  ultimately show thesis using start that by simp
qed

text \<open>C27. An approval is backed by stake: in every state a coordinator with a wallet of its own
  reaches, if a vote makes it send something, it sends the one request the vote was about; the
  wallets whose \<open>Valid\<close> votes count are distinct, staked, not the coordinator's own and not caught
  equivocating, they hold more than two thirds of the registry's stake less its own (for a registry
  total below \<open>2 ^ 63\<close>), and at least \<open>min_validators\<close> eligible voters voted \<open>Valid\<close>.\<close>

theorem approval_needs_supermajority:
  assumes "tc_pending c0 = Map.empty" and "tc_local_wallet c0 = Some me"
    and "c = coordinator_run cr es c0"
    and "submit_result cr now w r c = Ok c'" and "tc_sent c' \<noteq> tc_sent c"
    and "unat (tc_onchain_registry_total c') < 2 ^ 63"
  shows "\<exists>k. tc_pending c' (res_request_id r) = Some k \<and> tc_sent c' = tc_sent c @ [cs_request k] \<and>
    canonical_id cr (cs_request k) = res_request_id r \<and>
    vt_min_validators (cs_tally k) \<le> length (valid_voters (eligible_wallets c') (cs_tally k)) \<and>
    (\<exists>ws. distinct ws \<and>
       (\<forall>x\<in>set ws. x \<noteq> me \<and> x \<notin> tc_equivocators c' \<and> x \<in> dom (tc_onchain_stakes c') \<and>
          (\<exists>v. (x, v) \<in> set (vt_votes (cs_tally k)) \<and> is_valid (vrec_vote v))) \<and>
       2 * (unat (tc_onchain_registry_total c') - stake_at (tc_onchain_stakes c') me)
         < 3 * sum_list (map (stake_at (tc_onchain_stakes c')) ws))"
proof -
  from assms(4,5) obtain k where k: "tc_pending c' (res_request_id r) = Some k"
    "canonical_id cr (cs_request k) = res_request_id r" "tc_sent c' = tc_sent c @ [cs_request k]"
    "stake_quorum_met (cs_tally k) c'"
    "vt_min_validators (cs_tally k) \<le> length (valid_voters (eligible_wallets c') (cs_tally k))"
    by (rule submit_result_sends)
  have "coordinator_ok cr c"
    unfolding assms(3) by (intro coordinator_run_ok fresh_ok assms(1))
  then have "coordinator_ok cr c'" using assms(4) by (rule submit_result_ok)
  from coordinator_okD [OF this k(1)]
  have one: "distinct (map fst (vt_votes (cs_tally k)))" ..
  have "tc_local_wallet c' = tc_local_wallet c"
    using assms(4) by (cases rule: submit_result_cases) simp_all
  then have me: "tc_local_wallet c' = Some me" using assms(2,3) by simp
  let ?ws = "counted_wallets me (tc_equivocators c') (tc_onchain_stakes c') (vt_votes (cs_tally k))"
  have "distinct ?ws" using one by (rule counted_wallets_distinct)
  moreover have "2 * (unat (tc_onchain_registry_total c') - stake_at (tc_onchain_stakes c') me)
      < 3 * sum_list (map (stake_at (tc_onchain_stakes c')) ?ws)"
    using me k(4) assms(6) by (rule stake_quorum_supermajority)
  moreover have "\<forall>x\<in>set ?ws. x \<noteq> me \<and> x \<notin> tc_equivocators c' \<and> x \<in> dom (tc_onchain_stakes c') \<and>
      (\<exists>v. (x, v) \<in> set (vt_votes (cs_tally k)) \<and> is_valid (vrec_vote v))"
    unfolding set_counted_wallets by blast
  ultimately show ?thesis using k by blast
qed

theorem approval_needs_supermajority_witness:
  "\<exists>c'. submit_result ref_runtime 1 True example_vote
       (coordinator_run ref_runtime example_ops example_coordinator) = Ok c' \<and>
     tc_sent c' = [example_request] \<and>
     (\<exists>ws. distinct ws \<and> ''me'' \<notin> set ws \<and> 200 < 3 * sum_list (map (stake_at (tc_onchain_stakes c')) ws))"
proof (rule example_vote_sends)
  fix c'
  assume c': "submit_result ref_runtime 1 True example_vote
      (coordinator_run ref_runtime example_ops example_coordinator) = Ok c'"
    "tc_sent c' = [example_request]" "tc_onchain_registry_total c' = 150"
    "tc_onchain_stakes c' = [''v'' \<mapsto> 100, ''me'' \<mapsto> 50]"
  have start: "tc_pending example_coordinator = Map.empty" "tc_local_wallet example_coordinator = Some ''me''"
    by (simp_all add: example_coordinator_def with_local_wallet_def set_consensus_thresholds_def
        new_with_approvals_def coordinator_new_def)
  have "tc_sent c' \<noteq> tc_sent (coordinator_run ref_runtime example_ops example_coordinator)"
    using c'(2) example_start_state by (simp add: Let_def)
  from approval_needs_supermajority [OF start refl c'(1) this] c'(3,4)
  obtain ws where "distinct ws" "\<forall>x\<in>set ws. x \<noteq> ''me''"
    "2 * (150 - stake_at (tc_onchain_stakes c') ''me'') < 3 * sum_list (map (stake_at (tc_onchain_stakes c')) ws)"
    by auto
  moreover have "stake_at (tc_onchain_stakes c') ''me'' = 50" using c'(4) by (simp add: stake_at_def)
  ultimately show ?thesis using c'(1,2) by auto
qed

section \<open>An approval is sent once\<close>

text \<open>C28. One approval per settlement: a coordinator that starts with nothing pending sends the
  request of an id at most once, whatever votes, registrations, synchronisations and retries of the
  same request follow, until a timeout sweep or \<open>clear_emitted\<close> forgets the id.\<close>

theorem approved_at_most_once:
  assumes "tc_pending c0 = Map.empty" and "tc_sent c0 = []"
    and "\<forall>e\<in>set es. snd (snd e) \<noteq> Sweep \<and> snd (snd e) \<noteq> ClearEmitted rid"
  shows "count_list (map (canonical_id cr) (tc_sent (coordinator_run cr es c0))) rid \<le> 1"
proof -
  have "sent_once cr rid c0" using assms(2) by (simp add: sent_once_def)
  from coordinator_run_sent_once [OF fresh_ok [OF assms(1)] this assms(3)]
  show ?thesis by (simp add: sent_once_def split: if_splits)
qed

theorem approved_at_most_once_witness:
  "count_list (map (canonical_id ref_runtime) (tc_sent (coordinator_run ref_runtime
     (example_ops @ [(1, True, Vote example_vote), (2, True, Vote example_vote)]) example_coordinator)))
     example_id = 1"
  (is "?n = 1")
proof (rule example_vote_sends)
  fix c'
  let ?c = "coordinator_run ref_runtime example_ops example_coordinator"
  assume c': "submit_result ref_runtime 1 True example_vote ?c = Ok c'"
    "tc_sent c' = [example_request]"
  have "\<exists>xs. tc_sent (coordinator_step ref_runtime (2, True, Vote example_vote) c') = tc_sent c' @ xs"
    using submit_result_appends by (auto simp: coordinator_step_def split: result.splits)
  then have "1 \<le> ?n"
    using c' by (auto simp: coordinator_run_def coordinator_step_def example_id_def)
  moreover have "?n \<le> 1"
    by (rule approved_at_most_once)
      (auto simp: example_ops_def example_coordinator_def with_local_wallet_def
        set_consensus_thresholds_def new_with_approvals_def coordinator_new_def)
  ultimately show "?n = 1" by simp
qed

section \<open>What an id and a vote bind\<close>

lemma char_of_inject: "m < 256 \<Longrightarrow> n < 256 \<Longrightarrow> (char_of m :: char) = char_of n \<longleftrightarrow> m = (n :: nat)"
  by (metis mod_less of_char_of)

lemma hex_digit_inject:
  assumes "m < 16" and "n < 16"
  shows "hex_digit m = hex_digit n \<longleftrightarrow> m = n"
proof -
  let ?f = "\<lambda>k :: nat. if k < 10 then 48 + k else 87 + k"
  have "?f m < 256" "?f n < 256" using assms by simp_all
  then have "hex_digit m = hex_digit n \<longleftrightarrow> ?f m = ?f n"
    unfolding hex_digit_def by (rule char_of_inject)
  then show ?thesis using assms by (simp split: if_splits)
qed

lemma hex_byte_inject:
  "hex_digit (unat (a :: u8) div 16) = hex_digit (unat b div 16) \<Longrightarrow>
   hex_digit (unat a mod 16) = hex_digit (unat b mod 16) \<Longrightarrow> a = b"
proof -
  have "unat a < 256" "unat b < 256" using unat_bound [of a] unat_bound [of b] by simp_all
  then have "unat a div 16 < 16" "unat b div 16 < 16" by simp_all
  moreover assume "hex_digit (unat a div 16) = hex_digit (unat b div 16)"
    "hex_digit (unat a mod 16) = hex_digit (unat b mod 16)"
  ultimately have "unat a div 16 = unat b div 16" "unat a mod 16 = unat b mod 16"
    by (simp_all add: hex_digit_inject)
  then have "unat a = unat b" by (metis div_mult_mod_eq)
  then show "a = b" by (simp add: word_unat_eq_iff)
qed

lemma hex_encode_inject [simp]: "hex_encode xs = hex_encode ys \<longleftrightarrow> xs = ys"
proof (induction xs arbitrary: ys)
  case Nil
  then show ?case by (cases ys) (simp_all add: hex_encode_def)
next
  case (Cons x xs)
  then show ?case by (cases ys) (auto simp: hex_encode_def dest: hex_byte_inject)
qed

lemma ascii_inject [simp]: "ascii s = ascii t \<longleftrightarrow> s = t"
proof -
  have "inj (\<lambda>c :: char. of_nat (of_char c) :: u8)"
  proof (rule injI)
    fix c d :: char
    assume "(of_nat (of_char c) :: u8) = of_nat (of_char d)"
    then have "unat (of_nat (of_char c) :: u8) = unat (of_nat (of_char d) :: u8)" by simp
    then show "c = d" by (simp add: unat_of_nat take_bit_nat_eq_self)
  qed
  then show ?thesis unfolding ascii_def by (rule inj_map_eq_map)
qed

text \<open>A length prefix keeps what follows apart.\<close>

lemma of_nat_u64_inject:
  "m < 2 ^ 64 \<Longrightarrow> n < 2 ^ 64 \<Longrightarrow> (of_nat m :: u64) = of_nat n \<longleftrightarrow> m = n"
proof -
  have "unat (of_nat k :: u64) = k" if "k < 2 ^ 64" for k
    using that by (simp add: unat_of_nat take_bit_nat_eq_self)
  then show "m < 2 ^ 64 \<Longrightarrow> n < 2 ^ 64 \<Longrightarrow> ?thesis" by metis
qed

lemma put_field_inject:
  assumes "length xs < 2 ^ 64" and "length ys < 2 ^ 64"
  shows "put_field xs @ us = put_field ys @ vs \<longleftrightarrow> xs = ys \<and> us = vs"
  using assms by (auto simp: put_field_def of_nat_u64_inject)

definition request_sized :: "TransactVerificationRequest \<Rightarrow> bool" where
  "request_sized r \<longleftrightarrow>
     length (tr_root r) = 32 \<and> length (tr_recipient r) = 32 \<and>
     length (fst (tr_nullifiers r)) = 32 \<and> length (snd (tr_nullifiers r)) = 32 \<and>
     length (fst (tr_output_commitments r)) = 32 \<and> length (snd (tr_output_commitments r)) = 32 \<and>
     length (tr_proof r) < 2 ^ 64"

definition settled_fields where
  "settled_fields r =
     (tr_root r, tr_recipient r, tr_ext_amount r, tr_nullifiers r, tr_output_commitments r,
      tr_proof r, tr_mint r)"

lemma canonical_preimage_inject:
  assumes "request_sized a" and "request_sized b"
  shows "canonical_preimage a = canonical_preimage b \<longleftrightarrow> settled_fields a = settled_fields b"
proof
  assume eq: "canonical_preimage a = canonical_preimage b"
  have "put_field (tr_proof a) @ (case tr_mint a of Some m \<Rightarrow> ascii ''spl'' @ m | None \<Rightarrow> []) =
      put_field (tr_proof b) @ (case tr_mint b of Some m \<Rightarrow> ascii ''spl'' @ m | None \<Rightarrow> [])"
    and fixed: "tr_root a = tr_root b" "tr_recipient a = tr_recipient b" "tr_ext_amount a = tr_ext_amount b"
      "tr_nullifiers a = tr_nullifiers b" "tr_output_commitments a = tr_output_commitments b"
    using eq assms
    by (simp_all add: canonical_preimage_def request_sized_def put_field_def prod_eq_iff)
  then have "tr_proof a = tr_proof b"
    and "(case tr_mint a of Some m \<Rightarrow> ascii ''spl'' @ m | None \<Rightarrow> []) =
      (case tr_mint b of Some m \<Rightarrow> ascii ''spl'' @ m | None \<Rightarrow> [])"
    using assms by (simp_all add: put_field_inject request_sized_def)
  moreover from this(2) have "tr_mint a = tr_mint b"
    by (auto simp: ascii_def split: option.splits)
  ultimately show "settled_fields a = settled_fields b" using fixed by (simp add: settled_fields_def)
qed (simp add: settled_fields_def canonical_preimage_def)

text \<open>C29. The id binds the settlement: for two requests whose fields have their sizes, and whose
  two preimages do not collide under SHA-256, the canonical ids are equal exactly when every settled
  field is: root, recipient, amount, nullifiers, output commitments, proof and mint.\<close>

theorem canonical_id_binds:
  assumes "request_sized a" and "request_sized b"
    and "sha256_hashv cr [canonical_preimage a] = sha256_hashv cr [canonical_preimage b] \<Longrightarrow>
      canonical_preimage a = canonical_preimage b"
  shows "canonical_id cr a = canonical_id cr b \<longleftrightarrow> settled_fields a = settled_fields b"
  using assms(3) canonical_preimage_inject [OF assms(1,2)] by (auto simp: canonical_id_def)

text \<open>A vote cannot be re-read as another: with fields shorter than \<open>2 ^ 64\<close> bytes, the bytes
  two votes sign are equal exactly when program, cluster, request, voter, verdict and wallet are.\<close>

theorem vote_bytes_bind:
  assumes "\<forall>s\<in>{program, cluster, request, wallet, program', cluster', request', wallet'}. length s < 2 ^ 64"
    and "length node < 2 ^ 64" and "length node' < 2 ^ 64"
  shows "transact_vote_signing_bytes program cluster request node vote wallet =
      transact_vote_signing_bytes program' cluster' request' node' vote' wallet' \<longleftrightarrow>
    program = program' \<and> cluster = cluster' \<and> request = request' \<and> node = node' \<and>
    is_valid vote = is_valid vote' \<and> wallet = wallet'"
proof -
  have len: "length (ascii s) = length s" for s by (simp add: ascii_def)
  have last_field: "put_field (ascii wallet) = put_field (ascii wallet') \<longleftrightarrow> wallet = wallet'"
    using put_field_inject [of "ascii wallet" "ascii wallet'" "[]" "[]"] assms(1) by (simp add: len)
  show ?thesis
    using assms by (simp add: transact_vote_signing_bytes_def put_field_inject len last_field)
qed

definition filled :: "u8 \<Rightarrow> bytes32" where
  "filled b = replicate 32 b"

lemma length_filled [simp]: "length (filled b) = 32"
  by (simp add: filled_def)

definition native_request :: TransactVerificationRequest where
  "native_request = example_request\<lparr>tr_root := filled 1, tr_recipient := filled 2,
     tr_nullifiers := (filled 3, filled 4),
     tr_output_commitments := (filled 5, filled 6)\<rparr>"

theorem canonical_id_binds_witness:
  "canonical_id (ref_runtime\<lparr>sha256_hashv := concat\<rparr>) native_request \<noteq>
   canonical_id (ref_runtime\<lparr>sha256_hashv := concat\<rparr>) (native_request\<lparr>tr_mint := Some (filled 7)\<rparr>)"
proof -
  have "tr_mint native_request = None" "tr_proof native_request = [8]"
    by (simp_all add: native_request_def example_request_def Let_def)
  then show ?thesis
    using canonical_id_binds [of native_request "native_request\<lparr>tr_mint := Some (filled 7)\<rparr>"
        "ref_runtime\<lparr>sha256_hashv := concat\<rparr>"]
    by (simp add: request_sized_def settled_fields_def native_request_def)
qed

theorem vote_bytes_bind_witness:
  "transact_vote_signing_bytes ''p'' ''c'' ''r'' [1] Valid ''w'' \<noteq>
   transact_vote_signing_bytes ''p'' ''c'' ''r'' [1] (Invalid ''bad'') ''w''"
  using vote_bytes_bind [of "''p''" "''c''" "''r''" "''w''" "''p''" "''c''" "''r''" "''w''" "[1]" "[1]"
      Valid "Invalid ''bad''"]
  by (simp add: is_valid_def)

end
