(* ===== verification/Bridge_Instructions.thy ===== *)
theory Bridge_Instructions
  imports Reference_Runtime
begin

text \<open>
  The instruction builders of the bridge client (\<open>bridge/solana/instructions.rs\<close>), the accounts
  structs of the program they are meant for (\<open>programs/paraloom/src/lib.rs\<close>, as the list of slots
  Anchor reads in order), and the borsh encoding of the instruction data. Program-derived addresses
  are the parameter \<open>find_program_address\<close>; the bump is not used by the client.
\<close>

section \<open>Addresses and discriminators\<close>

definition SYSTEM_PROGRAM_ID :: pubkey where
  "SYSTEM_PROGRAM_ID = replicate 32 0"

definition RENT_SYSVAR_ID :: pubkey where
  "RENT_SYSVAR_ID =
     [6, 167, 213, 23, 25, 44, 92, 81, 33, 140, 201, 76, 61, 74, 241, 127, 88, 218, 238, 8, 155, 161,
      253, 68, 227, 219, 217, 138, 0, 0, 0, 0]"

definition SPL_TOKEN_PROGRAM_ID :: pubkey where
  "SPL_TOKEN_PROGRAM_ID =
     [6, 221, 246, 225, 215, 101, 161, 147, 217, 203, 225, 70, 206, 235, 121, 172, 28, 180, 133, 237,
      95, 91, 55, 145, 58, 140, 245, 133, 126, 255, 0, 169]"

definition SPL_TOKEN_2022_PROGRAM_ID :: pubkey where
  "SPL_TOKEN_2022_PROGRAM_ID =
     [6, 221, 246, 225, 238, 117, 143, 222, 24, 66, 93, 188, 228, 108, 205, 218, 182, 26, 252, 77,
      131, 185, 13, 39, 254, 189, 249, 40, 216, 161, 139, 252]"

definition SPL_ASSOCIATED_TOKEN_ACCOUNT_PROGRAM_ID :: pubkey where
  "SPL_ASSOCIATED_TOKEN_ACCOUNT_PROGRAM_ID =
     [140, 151, 37, 143, 78, 36, 137, 241, 187, 61, 16, 41, 20, 142, 13, 131, 11, 90, 19, 153, 218,
      255, 16, 132, 4, 142, 123, 216, 219, 233, 248, 89]"

definition INITIALIZE :: bytes where "INITIALIZE = [175, 175, 109, 31, 13, 152, 155, 237]"

definition DEPOSIT :: bytes where "DEPOSIT = [242, 35, 198, 137, 82, 225, 242, 182]"

definition PAUSE :: bytes where "PAUSE = [211, 22, 221, 251, 74, 121, 193, 47]"

definition UNPAUSE :: bytes where "UNPAUSE = [169, 144, 4, 38, 10, 141, 188, 255]"

definition SET_BRIDGE_AUTHORITY :: bytes where "SET_BRIDGE_AUTHORITY = [158, 241, 140, 64, 226, 16, 99, 251]"

definition SET_DEPOSIT_CAP :: bytes where "SET_DEPOSIT_CAP = [30, 43, 219, 90, 254, 4, 85, 236]"

definition INITIALIZE_VALIDATOR_REGISTRY :: bytes where "INITIALIZE_VALIDATOR_REGISTRY = [168, 49, 128, 236, 25, 7, 168, 85]"

definition REGISTER_VALIDATOR :: bytes where "REGISTER_VALIDATOR = [118, 98, 251, 58, 81, 30, 13, 240]"

definition DEPOSIT_SPL :: bytes where "DEPOSIT_SPL = [224, 0, 198, 175, 198, 47, 105, 204]"

definition RESET_VALIDATOR_REGISTRY :: bytes where "RESET_VALIDATOR_REGISTRY = [101, 188, 0, 99, 248, 198, 207, 7]"

definition DEACTIVATE_VALIDATOR :: bytes where "DEACTIVATE_VALIDATOR = [188, 227, 224, 187, 231, 52, 3, 147]"

definition TRANSACT :: bytes where "TRANSACT = [217, 149, 130, 143, 221, 52, 252, 119]"

definition TRANSACT_SPL :: bytes where "TRANSACT_SPL = [154, 66, 244, 204, 78, 225, 163, 151]"

definition DEPOSIT_NOTE :: bytes where "DEPOSIT_NOTE = [75, 212, 96, 185, 178, 167, 29, 57]"

definition DEPOSIT_NOTE_SPL :: bytes where "DEPOSIT_NOTE_SPL = [244, 219, 167, 106, 7, 120, 254, 253]"

definition INITIALIZE_MERKLE_TREE :: bytes where "INITIALIZE_MERKLE_TREE = [67, 143, 80, 157, 177, 227, 11, 238]"

definition UNREGISTER_VALIDATOR :: bytes where "UNREGISTER_VALIDATOR = [14, 134, 107, 159, 238, 241, 39, 249]"

definition WITHDRAW_UNBONDED_STAKE :: bytes where "WITHDRAW_UNBONDED_STAKE = [239, 246, 61, 176, 60, 14, 5, 109]"

definition MIGRATE_VALIDATOR_ACCOUNT :: bytes where "MIGRATE_VALIDATOR_ACCOUNT = [141, 49, 52, 5, 175, 161, 182, 154]"

definition INIT_STAKE_TOKEN_VAULT :: bytes where "INIT_STAKE_TOKEN_VAULT = [15, 138, 162, 97, 120, 60, 125, 127]"

definition MIGRATE_BRIDGE_STATE :: bytes where "MIGRATE_BRIDGE_STATE = [196, 193, 143, 108, 71, 132, 75, 181]"

definition CLAIM_REWARDS :: bytes where "CLAIM_REWARDS = [4, 144, 132, 71, 116, 23, 151, 80]"

definition derive_bridge_vault :: "runtime \<Rightarrow> pubkey \<Rightarrow> pubkey" where
  "derive_bridge_vault rt pid = find_program_address rt [ascii ''bridge_vault''] pid"

definition derive_bridge_state :: "runtime \<Rightarrow> pubkey \<Rightarrow> pubkey" where
  "derive_bridge_state rt pid = find_program_address rt [ascii ''bridge_state''] pid"

definition derive_validator_account :: "runtime \<Rightarrow> pubkey \<Rightarrow> pubkey \<Rightarrow> pubkey" where
  "derive_validator_account rt pid validator =
     find_program_address rt [ascii ''validator'', validator] pid"

definition derive_validator_registry :: "runtime \<Rightarrow> pubkey \<Rightarrow> pubkey" where
  "derive_validator_registry rt pid = find_program_address rt [ascii ''validator_registry''] pid"

definition derive_merkle_tree :: "runtime \<Rightarrow> pubkey \<Rightarrow> pubkey" where
  "derive_merkle_tree rt pid = find_program_address rt [ascii ''merkle_tree''] pid"

definition derive_program_data :: "runtime \<Rightarrow> pubkey \<Rightarrow> pubkey" where
  "derive_program_data rt pid = find_program_address rt [pid] (bpf_loader_upgradeable_id rt)"

definition derive_nullifier_account :: "runtime \<Rightarrow> pubkey \<Rightarrow> bytes32 \<Rightarrow> pubkey" where
  "derive_nullifier_account rt pid nullifier =
     find_program_address rt [ascii ''nullifier'', nullifier] pid"

definition derive_asset_vault_authority :: "runtime \<Rightarrow> pubkey \<Rightarrow> pubkey" where
  "derive_asset_vault_authority rt pid =
     find_program_address rt [ascii ''asset_vault_authority''] pid"

definition derive_asset_vault :: "runtime \<Rightarrow> pubkey \<Rightarrow> pubkey \<Rightarrow> pubkey" where
  "derive_asset_vault rt pid mint = find_program_address rt [ascii ''asset_vault'', mint] pid"

definition derive_stake_token_vault :: "runtime \<Rightarrow> pubkey \<Rightarrow> pubkey" where
  "derive_stake_token_vault rt pid = find_program_address rt [ascii ''stake_token_vault''] pid"

definition derive_stake_vault_authority :: "runtime \<Rightarrow> pubkey \<Rightarrow> pubkey" where
  "derive_stake_vault_authority rt pid =
     find_program_address rt [ascii ''stake_vault_authority''] pid"

definition derive_associated_token_address :: "runtime \<Rightarrow> pubkey \<Rightarrow> pubkey \<Rightarrow> pubkey \<Rightarrow> pubkey" where
  "derive_associated_token_address rt owner mint token_program =
     find_program_address rt [owner, token_program, mint] SPL_ASSOCIATED_TOKEN_ACCOUNT_PROGRAM_ID"

lemmas derive_defs =
  derive_bridge_vault_def derive_bridge_state_def derive_validator_account_def
  derive_validator_registry_def derive_merkle_tree_def derive_program_data_def
  derive_nullifier_account_def derive_asset_vault_authority_def derive_asset_vault_def
  derive_stake_token_vault_def derive_stake_vault_authority_def

section \<open>Instruction data\<close>

record DepositInstructionData =
  did_amount :: u64
  did_recipient :: bytes32
  did_randomness :: bytes32

record TransactInstructionData =
  tid_nullifiers :: "bytes32 \<times> bytes32"
  tid_output_commitments :: "bytes32 \<times> bytes32"
  tid_root :: bytes32
  tid_ext_amount :: i64
  tid_proof :: bytes

record DepositNoteInstructionData =
  dnd_amount :: u64
  dnd_pubkey :: bytes32
  dnd_blinding :: bytes32

text \<open>Borsh: integers little-endian, arrays as they are, a vector behind its \<open>u32\<close> length.\<close>

definition borsh_vec :: "bytes \<Rightarrow> bytes option" where
  "borsh_vec bs = (if length bs < 2 ^ 32 then Some (le_bytes 4 (length bs) @ bs) else None)"

definition borsh_transact :: "TransactInstructionData \<Rightarrow> bytes option" where
  "borsh_transact d =
     map_option (\<lambda>proof.
       fst (tid_nullifiers d) @ snd (tid_nullifiers d) @ fst (tid_output_commitments d) @
       snd (tid_output_commitments d) @ tid_root d @ u64_to_le_bytes (tid_ext_amount d) @ proof)
       (borsh_vec (tid_proof d))"

definition borsh_deposit_note :: "DepositNoteInstructionData \<Rightarrow> bytes" where
  "borsh_deposit_note d = u64_to_le_bytes (dnd_amount d) @ dnd_pubkey d @ dnd_blinding d"

text \<open>The derived decoders; \<open>try_from_slice\<close> refuses trailing bytes.\<close>

definition borsh_deposit_decode :: "bytes \<Rightarrow> DepositInstructionData option" where
  "borsh_deposit_decode bs =
     (if length bs = 72
      then Some \<lparr> did_amount = u64_from_le_bytes (take 8 bs), did_recipient = take 32 (drop 8 bs),
             did_randomness = drop 40 bs \<rparr>
      else None)"

definition borsh_transact_decode :: "bytes \<Rightarrow> TransactInstructionData option" where
  "borsh_transact_decode bs =
     (if 172 \<le> length bs \<and> length bs = 172 + le_val (take 4 (drop 168 bs))
      then Some \<lparr> tid_nullifiers = (take 32 bs, take 32 (drop 32 bs)),
             tid_output_commitments = (take 32 (drop 64 bs), take 32 (drop 96 bs)),
             tid_root = take 32 (drop 128 bs), tid_ext_amount = u64_from_le_bytes (take 8 (drop 160 bs)),
             tid_proof = drop 172 bs \<rparr>
      else None)"

section \<open>Builders\<close>

record AccountMeta =
  am_pubkey :: pubkey
  am_is_signer :: bool
  am_is_writable :: bool

definition meta :: "pubkey \<Rightarrow> bool \<Rightarrow> AccountMeta" where
  "meta k signer = \<lparr> am_pubkey = k, am_is_signer = signer, am_is_writable = True \<rparr>"

definition meta_readonly :: "pubkey \<Rightarrow> bool \<Rightarrow> AccountMeta" where
  "meta_readonly k signer = \<lparr> am_pubkey = k, am_is_signer = signer, am_is_writable = False \<rparr>"

record Instruction =
  ix_program_id :: pubkey
  ix_accounts :: "AccountMeta list"
  ix_data :: bytes

definition create_initialize_instruction ::
  "runtime \<Rightarrow> pubkey \<Rightarrow> pubkey \<Rightarrow> u32 \<Rightarrow> bytes32 \<Rightarrow> Instruction" where
  "create_initialize_instruction rt pid authority program_version initial_merkle_root =
     \<lparr> ix_program_id = pid,
       ix_accounts = [meta (derive_bridge_state rt pid) False, meta authority True,
         meta_readonly (derive_program_data rt pid) False, meta_readonly SYSTEM_PROGRAM_ID False],
       ix_data = INITIALIZE @ le_bytes 4 (unat program_version) @ initial_merkle_root \<rparr>"

definition create_initialize_validator_registry_instruction ::
  "runtime \<Rightarrow> pubkey \<Rightarrow> pubkey \<Rightarrow> Instruction" where
  "create_initialize_validator_registry_instruction rt pid authority =
     \<lparr> ix_program_id = pid,
       ix_accounts = [meta (derive_validator_registry rt pid) False, meta authority True,
         meta_readonly (derive_program_data rt pid) False, meta_readonly SYSTEM_PROGRAM_ID False],
       ix_data = INITIALIZE_VALIDATOR_REGISTRY \<rparr>"

definition create_reset_validator_registry_instruction ::
  "runtime \<Rightarrow> pubkey \<Rightarrow> pubkey \<Rightarrow> pubkey list \<Rightarrow> pubkey \<Rightarrow> u64 \<Rightarrow> Instruction" where
  "create_reset_validator_registry_instruction rt pid authority co_signers stake_mint
       expected_active_validators =
     \<lparr> ix_program_id = pid,
       ix_accounts = [meta (derive_validator_registry rt pid) False, meta authority True,
         meta_readonly (derive_program_data rt pid) False, meta_readonly SYSTEM_PROGRAM_ID False] @
         map (\<lambda>wallet. meta_readonly (derive_validator_account rt pid wallet) False) co_signers,
       ix_data = RESET_VALIDATOR_REGISTRY @ stake_mint @ u64_to_le_bytes expected_active_validators \<rparr>"

definition create_deactivate_validator_instruction ::
  "runtime \<Rightarrow> pubkey \<Rightarrow> pubkey \<Rightarrow> pubkey \<Rightarrow> Instruction" where
  "create_deactivate_validator_instruction rt pid authority validator_wallet =
     \<lparr> ix_program_id = pid,
       ix_accounts = [meta (derive_validator_account rt pid validator_wallet) False,
         meta (derive_validator_registry rt pid) False, meta authority True],
       ix_data = DEACTIVATE_VALIDATOR \<rparr>"

definition create_register_validator_instruction ::
  "runtime \<Rightarrow> pubkey \<Rightarrow> pubkey \<Rightarrow> pubkey \<Rightarrow> pubkey \<Rightarrow> pubkey \<Rightarrow> u64 \<Rightarrow> u64 \<Rightarrow> Instruction" where
  "create_register_validator_instruction rt pid validator stake_mint validator_token_account
       token_program stake_amount token_stake_amount =
     \<lparr> ix_program_id = pid,
       ix_accounts = [meta (derive_validator_account rt pid validator) False,
         meta (derive_validator_registry rt pid) False, meta validator True,
         meta_readonly stake_mint False, meta validator_token_account False,
         meta (derive_stake_token_vault rt pid) False, meta_readonly token_program False,
         meta_readonly SYSTEM_PROGRAM_ID False],
       ix_data = REGISTER_VALIDATOR @ u64_to_le_bytes stake_amount @
         u64_to_le_bytes token_stake_amount \<rparr>"

definition create_init_stake_token_vault_instruction ::
  "runtime \<Rightarrow> pubkey \<Rightarrow> pubkey \<Rightarrow> pubkey \<Rightarrow> pubkey \<Rightarrow> Instruction" where
  "create_init_stake_token_vault_instruction rt pid authority stake_mint token_program =
     \<lparr> ix_program_id = pid,
       ix_accounts = [meta authority True, meta_readonly stake_mint False,
         meta (derive_stake_token_vault rt pid) False,
         meta_readonly (derive_stake_vault_authority rt pid) False,
         meta_readonly (derive_program_data rt pid) False, meta_readonly token_program False,
         meta_readonly SYSTEM_PROGRAM_ID False, meta_readonly RENT_SYSVAR_ID False],
       ix_data = INIT_STAKE_TOKEN_VAULT \<rparr>"

definition create_migrate_bridge_state_instruction ::
  "runtime \<Rightarrow> pubkey \<Rightarrow> pubkey \<Rightarrow> Instruction" where
  "create_migrate_bridge_state_instruction rt pid authority =
     \<lparr> ix_program_id = pid,
       ix_accounts = [meta (derive_bridge_state rt pid) False, meta authority True,
         meta_readonly (derive_program_data rt pid) False, meta_readonly SYSTEM_PROGRAM_ID False],
       ix_data = MIGRATE_BRIDGE_STATE \<rparr>"

definition create_unregister_validator_instruction ::
  "runtime \<Rightarrow> pubkey \<Rightarrow> pubkey \<Rightarrow> Instruction" where
  "create_unregister_validator_instruction rt pid validator =
     \<lparr> ix_program_id = pid,
       ix_accounts = [meta (derive_validator_account rt pid validator) False,
         meta (derive_validator_registry rt pid) False, meta validator True],
       ix_data = UNREGISTER_VALIDATOR \<rparr>"

definition create_withdraw_unbonded_stake_instruction ::
  "runtime \<Rightarrow> pubkey \<Rightarrow> pubkey \<Rightarrow> pubkey \<Rightarrow> pubkey \<Rightarrow> pubkey \<Rightarrow> Instruction" where
  "create_withdraw_unbonded_stake_instruction rt pid validator stake_mint validator_token_account
       token_program =
     \<lparr> ix_program_id = pid,
       ix_accounts = [meta (derive_validator_account rt pid validator) False, meta validator True,
         meta_readonly stake_mint False, meta validator_token_account False,
         meta (derive_stake_token_vault rt pid) False,
         meta_readonly (derive_stake_vault_authority rt pid) False,
         meta_readonly token_program False],
       ix_data = WITHDRAW_UNBONDED_STAKE \<rparr>"

definition create_claim_rewards_instruction :: "runtime \<Rightarrow> pubkey \<Rightarrow> pubkey \<Rightarrow> Instruction" where
  "create_claim_rewards_instruction rt pid validator =
     \<lparr> ix_program_id = pid,
       ix_accounts = [meta_readonly (derive_bridge_state rt pid) False,
         meta (derive_validator_account rt pid validator) False,
         meta (derive_bridge_vault rt pid) False, meta validator True,
         meta_readonly SYSTEM_PROGRAM_ID False],
       ix_data = CLAIM_REWARDS \<rparr>"

definition create_migrate_validator_account_instruction ::
  "runtime \<Rightarrow> pubkey \<Rightarrow> pubkey \<Rightarrow> pubkey \<Rightarrow> Instruction" where
  "create_migrate_validator_account_instruction rt pid authority validator_wallet =
     \<lparr> ix_program_id = pid,
       ix_accounts = [meta (derive_validator_account rt pid validator_wallet) False,
         meta authority True, meta_readonly (derive_program_data rt pid) False,
         meta_readonly SYSTEM_PROGRAM_ID False],
       ix_data = MIGRATE_VALIDATOR_ACCOUNT @ validator_wallet \<rparr>"

definition append_quorum_accounts ::
  "runtime \<Rightarrow> pubkey \<Rightarrow> pubkey list \<Rightarrow> AccountMeta list \<Rightarrow> AccountMeta list" where
  "append_quorum_accounts rt pid quorum_validators accounts =
     accounts @ concat (map (\<lambda>v.
       [meta_readonly v True, meta_readonly (derive_validator_account rt pid v) False])
       quorum_validators)"

definition create_transact_instruction ::
  "runtime \<Rightarrow> pubkey \<Rightarrow> pubkey \<Rightarrow> pubkey \<Rightarrow> pubkey \<Rightarrow> bytes32 \<times> bytes32 \<Rightarrow> bytes32 \<times> bytes32
     \<Rightarrow> bytes32 \<Rightarrow> i64 \<Rightarrow> bytes \<Rightarrow> pubkey list \<Rightarrow> Instruction option" where
  "create_transact_instruction rt pid authority bridge_vault recipient nullifiers
       output_commitments root ext_amount proof quorum_validators =
     map_option (\<lambda>data.
       \<lparr> ix_program_id = pid,
         ix_accounts = append_quorum_accounts rt pid quorum_validators
           [meta (derive_bridge_state rt pid) False, meta (derive_merkle_tree rt pid) False,
            meta bridge_vault False,
            meta (derive_nullifier_account rt pid (fst nullifiers)) False,
            meta (derive_nullifier_account rt pid (snd nullifiers)) False,
            meta recipient False, meta (derive_validator_account rt pid authority) False,
            meta_readonly (derive_validator_registry rt pid) False, meta authority True,
            meta_readonly SYSTEM_PROGRAM_ID False],
         ix_data = TRANSACT @ data \<rparr>)
       (borsh_transact \<lparr> tid_nullifiers = nullifiers, tid_output_commitments = output_commitments,
          tid_root = root, tid_ext_amount = ext_amount, tid_proof = proof \<rparr>)"

definition create_transact_spl_instruction ::
  "runtime \<Rightarrow> pubkey \<Rightarrow> pubkey \<Rightarrow> pubkey \<Rightarrow> pubkey \<Rightarrow> pubkey \<Rightarrow> pubkey \<Rightarrow> bytes32 \<times> bytes32
     \<Rightarrow> bytes32 \<times> bytes32 \<Rightarrow> bytes32 \<Rightarrow> i64 \<Rightarrow> bytes \<Rightarrow> pubkey list \<Rightarrow> Instruction option" where
  "create_transact_spl_instruction rt pid authority mint recipient_token_account fee_token_account
       token_program nullifiers output_commitments root ext_amount proof quorum_validators =
     map_option (\<lambda>data.
       \<lparr> ix_program_id = pid,
         ix_accounts = append_quorum_accounts rt pid quorum_validators
           [meta (derive_bridge_state rt pid) False, meta (derive_merkle_tree rt pid) False,
            meta_readonly mint False, meta (derive_asset_vault rt pid mint) False,
            meta_readonly (derive_asset_vault_authority rt pid) False,
            meta recipient_token_account False, meta fee_token_account False,
            meta (derive_nullifier_account rt pid (fst nullifiers)) False,
            meta (derive_nullifier_account rt pid (snd nullifiers)) False,
            meta (derive_validator_account rt pid authority) False,
            meta_readonly (derive_validator_registry rt pid) False, meta authority True,
            meta_readonly token_program False, meta_readonly SYSTEM_PROGRAM_ID False],
         ix_data = TRANSACT_SPL @ data \<rparr>)
       (borsh_transact \<lparr> tid_nullifiers = nullifiers, tid_output_commitments = output_commitments,
          tid_root = root, tid_ext_amount = ext_amount, tid_proof = proof \<rparr>)"

definition create_deposit_note_instruction ::
  "runtime \<Rightarrow> pubkey \<Rightarrow> pubkey \<Rightarrow> pubkey \<Rightarrow> u64 \<Rightarrow> bytes32 \<Rightarrow> bytes32 \<Rightarrow> Instruction" where
  "create_deposit_note_instruction rt pid depositor bridge_vault amount pubkey blinding =
     \<lparr> ix_program_id = pid,
       ix_accounts = [meta (derive_bridge_state rt pid) False, meta bridge_vault False,
         meta (derive_merkle_tree rt pid) False, meta depositor True,
         meta_readonly SYSTEM_PROGRAM_ID False],
       ix_data = DEPOSIT_NOTE @ borsh_deposit_note
         \<lparr> dnd_amount = amount, dnd_pubkey = pubkey, dnd_blinding = blinding \<rparr> \<rparr>"

definition create_initialize_merkle_tree_instruction ::
  "runtime \<Rightarrow> pubkey \<Rightarrow> pubkey \<Rightarrow> Instruction" where
  "create_initialize_merkle_tree_instruction rt pid authority =
     \<lparr> ix_program_id = pid,
       ix_accounts = [meta (derive_merkle_tree rt pid) False, meta authority True,
         meta_readonly (derive_program_data rt pid) False, meta_readonly SYSTEM_PROGRAM_ID False],
       ix_data = INITIALIZE_MERKLE_TREE \<rparr>"

definition admin_accounts :: "runtime \<Rightarrow> pubkey \<Rightarrow> pubkey \<Rightarrow> AccountMeta list" where
  "admin_accounts rt pid authority =
     [meta (derive_bridge_state rt pid) False, meta_readonly (derive_validator_registry rt pid) False,
      meta_readonly authority True]"

definition create_pause_instruction :: "runtime \<Rightarrow> pubkey \<Rightarrow> pubkey \<Rightarrow> Instruction" where
  "create_pause_instruction rt pid authority =
     \<lparr> ix_program_id = pid, ix_accounts = admin_accounts rt pid authority, ix_data = PAUSE \<rparr>"

definition create_unpause_instruction :: "runtime \<Rightarrow> pubkey \<Rightarrow> pubkey \<Rightarrow> Instruction" where
  "create_unpause_instruction rt pid authority =
     \<lparr> ix_program_id = pid, ix_accounts = admin_accounts rt pid authority, ix_data = UNPAUSE \<rparr>"

definition create_set_bridge_authority_instruction ::
  "runtime \<Rightarrow> pubkey \<Rightarrow> pubkey \<Rightarrow> pubkey \<Rightarrow> Instruction" where
  "create_set_bridge_authority_instruction rt pid authority new_authority =
     \<lparr> ix_program_id = pid, ix_accounts = admin_accounts rt pid authority,
       ix_data = SET_BRIDGE_AUTHORITY @ new_authority \<rparr>"

definition create_set_deposit_cap_instruction ::
  "runtime \<Rightarrow> pubkey \<Rightarrow> pubkey \<Rightarrow> u64 \<Rightarrow> Instruction" where
  "create_set_deposit_cap_instruction rt pid authority new_cap =
     \<lparr> ix_program_id = pid, ix_accounts = admin_accounts rt pid authority,
       ix_data = SET_DEPOSIT_CAP @ u64_to_le_bytes new_cap \<rparr>"

section \<open>The accounts structs of the program\<close>

text \<open>A slot of an accounts struct: the address it is pinned to by its seeds or its type (if it is),
  whether it must sign, and whether it is \<open>mut\<close> or \<open>init\<close>.\<close>

record slot =
  sl_key :: "pubkey option"
  sl_signer :: bool
  sl_mut :: bool

definition pinned :: "pubkey \<Rightarrow> slot" where
  "pinned k = \<lparr> sl_key = Some k, sl_signer = False, sl_mut = False \<rparr>"

definition pinned_mut :: "pubkey \<Rightarrow> slot" where
  "pinned_mut k = \<lparr> sl_key = Some k, sl_signer = False, sl_mut = True \<rparr>"

definition unpinned :: slot where
  "unpinned = \<lparr> sl_key = None, sl_signer = False, sl_mut = False \<rparr>"

definition unpinned_mut :: slot where
  "unpinned_mut = \<lparr> sl_key = None, sl_signer = False, sl_mut = True \<rparr>"

definition signs :: slot where
  "signs = \<lparr> sl_key = None, sl_signer = True, sl_mut = False \<rparr>"

definition signs_mut :: slot where
  "signs_mut = \<lparr> sl_key = None, sl_signer = True, sl_mut = True \<rparr>"

definition program_data_key :: "runtime \<Rightarrow> pubkey" where
  "program_data_key rt = find_program_address rt [program_id rt] (bpf_loader_upgradeable_id rt)"

definition Initialize_context :: "runtime \<Rightarrow> slot list" where
  "Initialize_context rt =
     [pinned_mut (bridge_state_key rt), signs_mut, pinned (program_data_key rt), pinned (system_program_id rt)]"

definition DepositNote_context :: "runtime \<Rightarrow> slot list" where
  "DepositNote_context rt =
     [pinned_mut (bridge_state_key rt), pinned_mut (bridge_vault_key rt), pinned_mut (merkle_tree_key rt),
      signs_mut, pinned (system_program_id rt)]"

definition ResetValidatorRegistry_context :: "runtime \<Rightarrow> slot list" where
  "ResetValidatorRegistry_context rt =
     [pinned_mut (validator_registry_key rt), signs_mut, pinned (program_data_key rt),
      pinned (system_program_id rt)]"

definition TransactSpl_context :: "runtime \<Rightarrow> pubkey \<Rightarrow> pubkey \<Rightarrow> bytes32 \<times> bytes32 \<Rightarrow> slot list" where
  "TransactSpl_context rt authority mint nullifiers =
     [pinned_mut (bridge_state_key rt), pinned_mut (merkle_tree_key rt), unpinned, pinned_mut (asset_vault_key rt mint),
      pinned (asset_vault_authority_key rt), unpinned_mut, unpinned_mut,
      pinned_mut (nullifier_key rt (fst nullifiers)), pinned_mut (nullifier_key rt (snd nullifiers)),
      pinned_mut (validator_key rt authority), pinned (validator_registry_key rt), signs_mut, unpinned,
      pinned (system_program_id rt)]"

definition Transact_context :: "runtime \<Rightarrow> pubkey \<Rightarrow> bytes32 \<times> bytes32 \<Rightarrow> slot list" where
  "Transact_context rt authority nullifiers =
     [pinned_mut (bridge_state_key rt), pinned_mut (merkle_tree_key rt), pinned_mut (bridge_vault_key rt),
      pinned_mut (nullifier_key rt (fst nullifiers)), pinned_mut (nullifier_key rt (snd nullifiers)),
      unpinned_mut, pinned_mut (validator_key rt authority), pinned (validator_registry_key rt), signs_mut,
      pinned (system_program_id rt)]"

definition Pause_context :: "runtime \<Rightarrow> slot list" where
  "Pause_context rt = [pinned_mut (bridge_state_key rt), pinned (validator_registry_key rt), signs]"

definition SetBridgeAuthority_context :: "runtime \<Rightarrow> slot list" where
  "SetBridgeAuthority_context rt =
     [pinned_mut (bridge_state_key rt), pinned (validator_registry_key rt), signs]"

definition SetDepositCap_context :: "runtime \<Rightarrow> slot list" where
  "SetDepositCap_context rt = [pinned_mut (bridge_state_key rt), pinned (validator_registry_key rt), signs]"

definition InitializeValidatorRegistry_context :: "runtime \<Rightarrow> pubkey \<Rightarrow> slot list" where
  "InitializeValidatorRegistry_context rt rent =
     [pinned_mut (validator_registry_key rt), signs_mut, unpinned, pinned_mut (stake_token_vault_key rt),
      pinned (stake_vault_authority_key rt), pinned (program_data_key rt), unpinned, pinned (system_program_id rt),
      pinned rent]"

definition InitStakeTokenVault_context :: "runtime \<Rightarrow> pubkey \<Rightarrow> slot list" where
  "InitStakeTokenVault_context rt rent =
     [signs_mut, unpinned, pinned_mut (stake_token_vault_key rt), pinned (stake_vault_authority_key rt),
      pinned (program_data_key rt), unpinned, pinned (system_program_id rt), pinned rent]"

definition MigrateBridgeState_context :: "runtime \<Rightarrow> slot list" where
  "MigrateBridgeState_context rt =
     [pinned_mut (bridge_state_key rt), signs_mut, pinned (program_data_key rt), pinned (system_program_id rt)]"

definition InitializeMerkleTree_context :: "runtime \<Rightarrow> slot list" where
  "InitializeMerkleTree_context rt =
     [pinned_mut (merkle_tree_key rt), signs_mut, pinned (program_data_key rt), pinned (system_program_id rt)]"

definition RegisterValidator_context :: "runtime \<Rightarrow> pubkey \<Rightarrow> pubkey \<Rightarrow> slot list" where
  "RegisterValidator_context rt validator stake_mint =
     [pinned_mut (validator_key rt validator), pinned_mut (validator_registry_key rt), signs_mut,
      pinned stake_mint, unpinned_mut, pinned_mut (stake_token_vault_key rt), unpinned, pinned (system_program_id rt)]"

definition UnregisterValidator_context :: "runtime \<Rightarrow> pubkey \<Rightarrow> slot list" where
  "UnregisterValidator_context rt validator =
     [pinned_mut (validator_key rt validator), pinned_mut (validator_registry_key rt), signs_mut]"

definition ClaimRewards_context :: "runtime \<Rightarrow> pubkey \<Rightarrow> slot list" where
  "ClaimRewards_context rt validator =
     [pinned (bridge_state_key rt), pinned_mut (validator_key rt validator), pinned_mut (bridge_vault_key rt),
      signs_mut, pinned (system_program_id rt)]"

definition DeactivateValidator_context :: "runtime \<Rightarrow> pubkey \<Rightarrow> slot list" where
  "DeactivateValidator_context rt validator =
     [pinned_mut (validator_key rt validator), pinned_mut (validator_registry_key rt), signs]"

definition WithdrawUnbondedStake_context :: "runtime \<Rightarrow> pubkey \<Rightarrow> pubkey \<Rightarrow> slot list" where
  "WithdrawUnbondedStake_context rt validator stake_mint =
     [pinned_mut (validator_key rt validator), signs_mut, pinned stake_mint, unpinned_mut,
      pinned_mut (stake_token_vault_key rt), pinned (stake_vault_authority_key rt), unpinned]"

definition MigrateValidatorAccount_context :: "runtime \<Rightarrow> pubkey \<Rightarrow> slot list" where
  "MigrateValidatorAccount_context rt validator =
     [pinned_mut (validator_key rt validator), signs_mut, pinned (program_data_key rt),
      pinned (system_program_id rt)]"

text \<open>Anchor reads the slots off the front of the account list; what is left are the remaining
  accounts.\<close>

definition admits :: "slot \<Rightarrow> AccountMeta \<Rightarrow> bool" where
  "admits s m \<longleftrightarrow>
     (case sl_key s of Some k \<Rightarrow> am_pubkey m = k | None \<Rightarrow> True) \<and>
     (sl_signer s \<longrightarrow> am_is_signer m) \<and> (sl_mut s \<longrightarrow> am_is_writable m)"

definition loads :: "slot list \<Rightarrow> Instruction \<Rightarrow> bool" where
  "loads slots ix \<longleftrightarrow> list_all2 admits slots (take (length slots) (ix_accounts ix))"

section \<open>Client and program agree\<close>

lemma derive_keys:
  "derive_bridge_vault rt (program_id rt) = bridge_vault_key rt"
  "derive_bridge_state rt (program_id rt) = bridge_state_key rt"
  "derive_validator_account rt (program_id rt) v = validator_key rt v"
  "derive_validator_registry rt (program_id rt) = validator_registry_key rt"
  "derive_merkle_tree rt (program_id rt) = merkle_tree_key rt"
  "derive_program_data rt (program_id rt) = program_data_key rt"
  "derive_nullifier_account rt (program_id rt) n = nullifier_key rt n"
  "derive_asset_vault_authority rt (program_id rt) = asset_vault_authority_key rt"
  "derive_asset_vault rt (program_id rt) mint = asset_vault_key rt mint"
  "derive_stake_token_vault rt (program_id rt) = stake_token_vault_key rt"
  "derive_stake_vault_authority rt (program_id rt) = stake_vault_authority_key rt"
  by (simp_all add: derive_defs bridge_vault_key_def bridge_state_key_def validator_key_def
      validator_registry_key_def merkle_tree_key_def program_data_key_def nullifier_key_def
      asset_vault_authority_key_def asset_vault_key_def stake_token_vault_key_def
      stake_vault_authority_key_def pda_def)

lemma admits_simps:
  "admits (pinned k) m \<longleftrightarrow> am_pubkey m = k"
  "admits (pinned_mut k) m \<longleftrightarrow> am_pubkey m = k \<and> am_is_writable m"
  "admits unpinned m"
  "admits unpinned_mut m \<longleftrightarrow> am_is_writable m"
  "admits signs m \<longleftrightarrow> am_is_signer m"
  "admits signs_mut m \<longleftrightarrow> am_is_signer m \<and> am_is_writable m"
  by (simp_all add: admits_def pinned_def pinned_mut_def unpinned_def unpinned_mut_def signs_def signs_mut_def)

lemma meta_simps [simp]:
  "am_pubkey (meta k s) = k" "am_is_signer (meta k s) = s" "am_is_writable (meta k s)"
  "am_pubkey (meta_readonly k s) = k" "am_is_signer (meta_readonly k s) = s"
  "\<not> am_is_writable (meta_readonly k s)"
  by (simp_all add: meta_def meta_readonly_def)

lemmas loads_simps = loads_def admits_simps derive_keys

lemmas contexts =
  Initialize_context_def DepositNote_context_def ResetValidatorRegistry_context_def
  TransactSpl_context_def Transact_context_def Pause_context_def SetBridgeAuthority_context_def
  SetDepositCap_context_def InitializeValidatorRegistry_context_def InitStakeTokenVault_context_def
  MigrateBridgeState_context_def InitializeMerkleTree_context_def RegisterValidator_context_def
  UnregisterValidator_context_def ClaimRewards_context_def DeactivateValidator_context_def
  WithdrawUnbondedStake_context_def MigrateValidatorAccount_context_def

lemmas builders =
  create_initialize_instruction_def create_initialize_validator_registry_instruction_def
  create_reset_validator_registry_instruction_def create_deactivate_validator_instruction_def
  create_register_validator_instruction_def create_init_stake_token_vault_instruction_def
  create_migrate_bridge_state_instruction_def create_unregister_validator_instruction_def
  create_withdraw_unbonded_stake_instruction_def create_claim_rewards_instruction_def
  create_migrate_validator_account_instruction_def create_transact_instruction_def
  create_transact_spl_instruction_def create_deposit_note_instruction_def
  create_initialize_merkle_tree_instruction_def create_pause_instruction_def
  create_unpause_instruction_def create_set_bridge_authority_instruction_def
  create_set_deposit_cap_instruction_def

definition filled_key :: "u8 \<Rightarrow> bytes32" where
  "filled_key b = replicate 32 b"

text \<open>C36. Client and program agree on accounts: every builder below lists, in the order of the
  program's accounts struct, accounts that meet each slot's address, signature and \<open>mut\<close>
  requirements (for the program's own id, the bridge vault it derives, and the documented ids of the
  system program and the rent sysvar).\<close>

theorem client_accounts_match_program:
  assumes "system_program_id rt = SYSTEM_PROGRAM_ID" and "rent = RENT_SYSVAR_ID"
    and "pid = program_id rt" and "vault = bridge_vault_key rt"
  shows "loads (Initialize_context rt) (create_initialize_instruction rt pid k version root) \<and>
    loads (ResetValidatorRegistry_context rt)
      (create_reset_validator_registry_instruction rt pid k ws mint n) \<and>
    loads (DeactivateValidator_context rt w) (create_deactivate_validator_instruction rt pid k w) \<and>
    loads (RegisterValidator_context rt w mint)
      (create_register_validator_instruction rt pid w mint ta tp stake tstake) \<and>
    loads (InitStakeTokenVault_context rt rent)
      (create_init_stake_token_vault_instruction rt pid k mint tp) \<and>
    loads (MigrateBridgeState_context rt) (create_migrate_bridge_state_instruction rt pid k) \<and>
    loads (UnregisterValidator_context rt w) (create_unregister_validator_instruction rt pid w) \<and>
    loads (WithdrawUnbondedStake_context rt w mint)
      (create_withdraw_unbonded_stake_instruction rt pid w mint ta tp) \<and>
    loads (ClaimRewards_context rt w) (create_claim_rewards_instruction rt pid w) \<and>
    loads (MigrateValidatorAccount_context rt w)
      (create_migrate_validator_account_instruction rt pid k w) \<and>
    (\<forall>ix. create_transact_instruction rt pid k vault recipient nfs cms root ext proof ws = Some ix \<longrightarrow>
      loads (Transact_context rt k nfs) ix) \<and>
    (\<forall>ix. create_transact_spl_instruction rt pid k mint rta fta tp nfs cms root ext proof ws = Some ix \<longrightarrow>
      loads (TransactSpl_context rt k mint nfs) ix) \<and>
    loads (DepositNote_context rt) (create_deposit_note_instruction rt pid k vault amount pk bl) \<and>
    loads (InitializeMerkleTree_context rt) (create_initialize_merkle_tree_instruction rt pid k) \<and>
    loads (Pause_context rt) (create_pause_instruction rt pid k) \<and>
    loads (Pause_context rt) (create_unpause_instruction rt pid k) \<and>
    loads (SetBridgeAuthority_context rt) (create_set_bridge_authority_instruction rt pid k new) \<and>
    loads (SetDepositCap_context rt) (create_set_deposit_cap_instruction rt pid k cap)"
  unfolding assms
  by (intro conjI allI impI)
    (auto simp: loads_simps contexts builders admin_accounts_def append_quorum_accounts_def assms(1))

theorem client_accounts_match_program_witness:
  "loads (Pause_context (ref_runtime\<lparr>system_program_id := SYSTEM_PROGRAM_ID\<rparr>))
     (create_pause_instruction (ref_runtime\<lparr>system_program_id := SYSTEM_PROGRAM_ID\<rparr>)
       (program_id ref_runtime) [1])"
  using client_accounts_match_program [of "ref_runtime\<lparr>system_program_id := SYSTEM_PROGRAM_ID\<rparr>"
      RENT_SYSVAR_ID "program_id ref_runtime"] by simp

text \<open>C38. One builder is out of date: the list \<open>create_initialize_validator_registry_instruction\<close>
  builds has four accounts, in no order that fills the nine slots of
  \<open>InitializeValidatorRegistry\<close>; the program can never accept it.\<close>

theorem registry_init_accounts_missing:
  "\<not> loads (InitializeValidatorRegistry_context rt rent)
       (create_initialize_validator_registry_instruction rt pid k) \<and>
   length (ix_accounts (create_initialize_validator_registry_instruction rt pid k)) = 4 \<and>
   length (InitializeValidatorRegistry_context rt rent) = 9"
  by (auto simp: loads_def create_initialize_validator_registry_instruction_def
      InitializeValidatorRegistry_context_def dest!: list_all2_lengthD)

section \<open>Instruction data round trips\<close>

lemma borsh_transact_roundtrip:
  assumes "length (fst (tid_nullifiers d)) = 32" and "length (snd (tid_nullifiers d)) = 32"
    and "length (fst (tid_output_commitments d)) = 32" and "length (snd (tid_output_commitments d)) = 32"
    and "length (tid_root d) = 32" and "borsh_transact d = Some bs"
  shows "borsh_transact_decode bs = Some d"
proof -
  from assms(6) have len: "length (tid_proof d) < 2 ^ 32"
    and bs: "bs = fst (tid_nullifiers d) @ snd (tid_nullifiers d) @ fst (tid_output_commitments d) @
       snd (tid_output_commitments d) @ tid_root d @ u64_to_le_bytes (tid_ext_amount d) @
       le_bytes 4 (length (tid_proof d)) @ tid_proof d"
    by (auto simp: borsh_transact_def borsh_vec_def split: if_splits)
  have "le_val (le_bytes 4 (length (tid_proof d))) = length (tid_proof d)"
    using len by (simp add: le_val_le_bytes)
  then show ?thesis using assms(1-5) unfolding bs
    by (simp add: borsh_transact_decode_def prod_eq_iff)
qed

text \<open>C37. The settlement instruction carries exactly the settlement: when it can be built (the
  proof is shorter than \<open>2 ^ 32\<close> bytes), its data is the \<open>transact\<close> discriminator followed by bytes
  the derived decoder reads back as the same nullifiers, commitments, root, amount and proof, and
  after the ten named accounts come, for each co-signer in order, its signing wallet and its
  validator account.\<close>

theorem transact_instruction_roundtrip:
  assumes "length (fst nfs) = 32" and "length (snd nfs) = 32" and "length (fst cms) = 32"
    and "length (snd cms) = 32" and "length root = 32"
  shows "(create_transact_instruction rt pid k vault recipient nfs cms root ext proof ws = None
      \<longleftrightarrow> 2 ^ 32 \<le> length proof) \<and>
    (\<forall>ix. create_transact_instruction rt pid k vault recipient nfs cms root ext proof ws = Some ix \<longrightarrow>
      take 8 (ix_data ix) = TRANSACT \<and>
      borsh_transact_decode (drop 8 (ix_data ix)) =
        Some \<lparr> tid_nullifiers = nfs, tid_output_commitments = cms, tid_root = root,
          tid_ext_amount = ext, tid_proof = proof \<rparr> \<and>
      drop 10 (ix_accounts ix) = concat (map (\<lambda>v.
        [meta_readonly v True, meta_readonly (derive_validator_account rt pid v) False]) ws))"
proof -
  let ?d = "\<lparr> tid_nullifiers = nfs, tid_output_commitments = cms, tid_root = root,
      tid_ext_amount = ext, tid_proof = proof \<rparr>"
  have "borsh_transact_decode bs = Some ?d" if "borsh_transact ?d = Some bs" for bs
    by (rule borsh_transact_roundtrip) (simp_all add: assms that)
  moreover have "borsh_transact ?d = None \<longleftrightarrow> 2 ^ 32 \<le> length proof"
    by (simp add: borsh_transact_def borsh_vec_def not_less)
  ultimately show ?thesis
    by (auto simp: create_transact_instruction_def append_quorum_accounts_def TRANSACT_def)
qed

theorem transact_instruction_roundtrip_witness:
  "\<exists>ix. create_transact_instruction ref_runtime [1] [2] [3] [4] (filled_key 1, filled_key 2)
       (filled_key 3, filled_key 4) (filled_key 5) (- 7) [8] [[9]] = Some ix \<and>
     map_option tid_ext_amount (borsh_transact_decode (drop 8 (ix_data ix))) = Some (- 7) \<and>
     length (ix_accounts ix) = 12"
proof -
  have n: "length (fst (filled_key a, filled_key b)) = 32" "length (snd (filled_key a, filled_key b)) = 32"
    "length (filled_key a) = 32" for a b by (simp_all add: filled_key_def)
  note rt = transact_instruction_roundtrip [OF n(1) [of 1 2] n(2) [of 1 2] n(1) [of 3 4] n(2) [of 3 4] n(3) [of 5],
      of ref_runtime "[1]" "[2]" "[3]" "[4]" "- 7" "[8]" "[[9]]"]
  have "create_transact_instruction ref_runtime [1] [2] [3] [4] (filled_key 1, filled_key 2)
       (filled_key 3, filled_key 4) (filled_key 5) (- 7) [8] [[9]] \<noteq> None"
    using rt by simp
  then obtain ix where ix: "create_transact_instruction ref_runtime [1] [2] [3] [4]
      (filled_key 1, filled_key 2) (filled_key 3, filled_key 4) (filled_key 5) (- 7) [8] [[9]] = Some ix"
    by blast
  then have "length (ix_accounts ix) = 12"
    by (auto simp: create_transact_instruction_def append_quorum_accounts_def)
  with ix rt show ?thesis by auto
qed

end
