(* ===== verification/Pool_Storage.thy ===== *)
theory Pool_Storage
  imports Prelude "HOL-Library.AList"
begin

text \<open>
  The node's persistent store for the shielded pool (\<open>storage/privacy.rs\<close>): leaves, spent
  nullifiers and pool state in three RocksDB column families. RocksDB itself is the parameter
  \<open>rocksdb\<close>; \<open>rocksdb_ok\<close> states what its documentation promises, relative to a view of the
  database as one map per column family. The lemmas say what each operation does to that view and
  that what was written is read back, leaves in the order of their indices.
\<close>

section \<open>The database\<close>

datatype cf = CF_MERKLE_TREE | CF_NULLIFIER_SET | CF_POOL_STATE

datatype store_error = CfNotFound | RocksDb | InvalidSize | Overflow

record 'd rocksdb =
  cf_handle :: "cf \<Rightarrow> 'd \<Rightarrow> bool"
  put_cf :: "cf \<Rightarrow> bytes \<Rightarrow> bytes \<Rightarrow> 'd \<Rightarrow> 'd option"
  write_batch :: "(cf \<times> bytes \<times> bytes) list \<Rightarrow> 'd \<Rightarrow> 'd option"
  get_cf :: "cf \<Rightarrow> bytes \<Rightarrow> 'd \<Rightarrow> bytes option option"
  iterator_cf :: "cf \<Rightarrow> 'd \<Rightarrow> (bytes \<times> bytes) option list"
  prefix_iterator_cf :: "cf \<Rightarrow> bytes \<Rightarrow> 'd \<Rightarrow> (bytes \<times> bytes) option list"

text \<open>A view of a database: the contents of each column family.\<close>

type_synonym 'd view = "'d \<Rightarrow> cf \<Rightarrow> bytes \<rightharpoonup> bytes"

definition put_entry :: "(cf \<Rightarrow> bytes \<rightharpoonup> bytes) \<Rightarrow> cf \<times> bytes \<times> bytes \<Rightarrow> (cf \<Rightarrow> bytes \<rightharpoonup> bytes)" where
  "put_entry m e = (case e of (c, k, v) \<Rightarrow> m(c := (m c)(k \<mapsto> v)))"

text \<open>A put, or an atomic batch, that succeeds stores exactly its entries and keeps the column
  families; a read that succeeds reports the stored value; an iterator that yields no error
  enumerates every entry once; a prefix iterator starts at the first key with the prefix and runs
  forward, so that the entries with the prefix are exactly an initial segment of it.\<close>

definition rocksdb_ok :: "'d rocksdb \<Rightarrow> 'd view \<Rightarrow> bool" where
  "rocksdb_ok db view \<longleftrightarrow>
     (\<forall>c k v d d'. put_cf db c k v d = Some d' \<longrightarrow>
        view d' = put_entry (view d) (c, k, v) \<and> (\<forall>c. cf_handle db c d' = cf_handle db c d)) \<and>
     (\<forall>es d d'. write_batch db es d = Some d' \<longrightarrow>
        view d' = foldl put_entry (view d) es \<and> (\<forall>c. cf_handle db c d' = cf_handle db c d)) \<and>
     (\<forall>c k d r. get_cf db c k d = Some r \<longrightarrow> r = view d c k) \<and>
     (\<forall>c d es. iterator_cf db c d = map Some es \<longrightarrow>
        distinct (map fst es) \<and> map_of es = view d c) \<and>
     (\<forall>c p d es. prefix_iterator_cf db c p d = map Some es \<longrightarrow>
        distinct (map fst (takeWhile (\<lambda>(k, v). take (length p) k = p) es)) \<and>
        (\<forall>k v. (k, v) \<in> set (takeWhile (\<lambda>(k, v). take (length p) k = p) es) \<longleftrightarrow>
           view d c k = Some v \<and> take (length p) k = p))"

section \<open>Leaves\<close>

definition with_cf :: "'d rocksdb \<Rightarrow> cf \<Rightarrow> 'd \<Rightarrow> (unit, store_error) result" where
  "with_cf db c d = require (cf_handle db c d) CfNotFound"

definition insert_commitment ::
  "'d rocksdb \<Rightarrow> u64 \<Rightarrow> bytes32 \<Rightarrow> 'd \<Rightarrow> ('d, store_error) result" where
  "insert_commitment db index commitment d =
     and_then (with_cf db CF_MERKLE_TREE d) (\<lambda>_.
     ok_or (put_cf db CF_MERKLE_TREE (u64_to_le_bytes index) commitment d) RocksDb)"

definition get_commitment ::
  "'d rocksdb \<Rightarrow> u64 \<Rightarrow> 'd \<Rightarrow> (bytes32 option, store_error) result" where
  "get_commitment db index d =
     and_then (with_cf db CF_MERKLE_TREE d) (\<lambda>_.
     and_then (ok_or (get_cf db CF_MERKLE_TREE (u64_to_le_bytes index) d) RocksDb) (\<lambda>found.
     case found of
       Some bs \<Rightarrow> if length bs \<noteq> 32 then Err InvalidSize else Ok (Some bs)
     | None \<Rightarrow> Ok None))"

text \<open>The staged entries; \<open>start_index + i\<close> panics on overflow (overflow checks are on in every
  profile).\<close>

fun commitment_entries ::
  "u64 \<Rightarrow> nat \<Rightarrow> bytes32 list \<Rightarrow> ((cf \<times> bytes \<times> bytes) list, store_error) result" where
  "commitment_entries start_index i [] = Ok []"
| "commitment_entries start_index i (c # cs) =
     and_then (ok_or (checked_add start_index (of_nat i)) Overflow) (\<lambda>index.
     and_then (commitment_entries start_index (i + 1) cs) (\<lambda>es.
     Ok ((CF_MERKLE_TREE, u64_to_le_bytes index, c) # es)))"

definition insert_commitments_batch ::
  "'d rocksdb \<Rightarrow> u64 \<Rightarrow> bytes32 list \<Rightarrow> 'd \<Rightarrow> ('d, store_error) result" where
  "insert_commitments_batch db start_index commitments d =
     and_then (with_cf db CF_MERKLE_TREE d) (\<lambda>_.
     and_then (commitment_entries start_index 0 commitments) (\<lambda>batch.
     ok_or (write_batch db batch d) RocksDb))"

definition commitment_count :: "'d rocksdb \<Rightarrow> 'd \<Rightarrow> (nat, store_error) result" where
  "commitment_count db d =
     and_then (with_cf db CF_MERKLE_TREE d) (\<lambda>_. Ok (length (iterator_cf db CF_MERKLE_TREE d)))"

fun decode_leaves ::
  "(bytes \<times> bytes) option list \<Rightarrow> ((u64 \<times> bytes32) list, store_error) result" where
  "decode_leaves [] = Ok []"
| "decode_leaves (None # items) = Err RocksDb"
| "decode_leaves (Some (key, val) # items) =
     and_then (require (length val = 32) InvalidSize) (\<lambda>_.
     and_then (require (length key = 8) InvalidSize) (\<lambda>_.
     and_then (decode_leaves items) (\<lambda>indexed.
     Ok ((u64_from_le_bytes key, val) # indexed))))"

definition get_all_commitments :: "'d rocksdb \<Rightarrow> 'd \<Rightarrow> (bytes32 list, store_error) result" where
  "get_all_commitments db d =
     and_then (with_cf db CF_MERKLE_TREE d) (\<lambda>_.
     and_then (decode_leaves (iterator_cf db CF_MERKLE_TREE d)) (\<lambda>indexed.
     Ok (map snd (sort_key fst indexed))))"

section \<open>Nullifiers\<close>

definition insert_nullifier :: "'d rocksdb \<Rightarrow> bytes32 \<Rightarrow> 'd \<Rightarrow> ('d, store_error) result" where
  "insert_nullifier db nullifier d =
     and_then (with_cf db CF_NULLIFIER_SET d) (\<lambda>_.
     ok_or (put_cf db CF_NULLIFIER_SET nullifier [] d) RocksDb)"

definition contains_nullifier :: "'d rocksdb \<Rightarrow> bytes32 \<Rightarrow> 'd \<Rightarrow> (bool, store_error) result" where
  "contains_nullifier db nullifier d =
     and_then (with_cf db CF_NULLIFIER_SET d) (\<lambda>_.
     and_then (ok_or (get_cf db CF_NULLIFIER_SET nullifier d) RocksDb) (\<lambda>found.
     Ok (found \<noteq> None)))"

definition insert_nullifiers_batch ::
  "'d rocksdb \<Rightarrow> bytes32 list \<Rightarrow> 'd \<Rightarrow> ('d, store_error) result" where
  "insert_nullifiers_batch db nullifiers d =
     and_then (with_cf db CF_NULLIFIER_SET d) (\<lambda>_.
     ok_or (write_batch db (map (\<lambda>n. (CF_NULLIFIER_SET, n, [])) nullifiers) d) RocksDb)"

fun check_nullifiers_loop :: "'d rocksdb \<Rightarrow> bytes32 list \<Rightarrow> 'd \<Rightarrow> (bool, store_error) result" where
  "check_nullifiers_loop db [] d = Ok True"
| "check_nullifiers_loop db (n # ns) d =
     and_then (ok_or (get_cf db CF_NULLIFIER_SET n d) RocksDb) (\<lambda>found.
     if found \<noteq> None then Ok False else check_nullifiers_loop db ns d)"

definition check_nullifiers_batch ::
  "'d rocksdb \<Rightarrow> bytes32 list \<Rightarrow> 'd \<Rightarrow> (bool, store_error) result" where
  "check_nullifiers_batch db nullifiers d =
     and_then (with_cf db CF_NULLIFIER_SET d) (\<lambda>_. check_nullifiers_loop db nullifiers d)"

definition nullifier_count :: "'d rocksdb \<Rightarrow> 'd \<Rightarrow> (nat, store_error) result" where
  "nullifier_count db d =
     and_then (with_cf db CF_NULLIFIER_SET d) (\<lambda>_. Ok (length (iterator_cf db CF_NULLIFIER_SET d)))"

fun decode_nullifiers :: "(bytes \<times> bytes) option list \<Rightarrow> (bytes32 list, store_error) result" where
  "decode_nullifiers [] = Ok []"
| "decode_nullifiers (None # items) = Err RocksDb"
| "decode_nullifiers (Some (key, val) # items) =
     and_then (require (length key = 32) InvalidSize) (\<lambda>_.
     and_then (decode_nullifiers items) (\<lambda>ns. Ok (key # ns)))"

definition get_all_nullifiers :: "'d rocksdb \<Rightarrow> 'd \<Rightarrow> (bytes32 list, store_error) result" where
  "get_all_nullifiers db d =
     and_then (with_cf db CF_NULLIFIER_SET d) (\<lambda>_.
     decode_nullifiers (iterator_cf db CF_NULLIFIER_SET d))"

section \<open>Pool state\<close>

text \<open>\<open>AssetId\<close> is a 32-byte array; native SOL is the all-zero id.\<close>

type_synonym asset_id = bytes32

definition native_asset_id :: asset_id where
  "native_asset_id = replicate 32 0"

definition SUPPLY_PREFIX :: bytes where
  "SUPPLY_PREFIX = ascii ''supply:''"

definition asset_supply_key :: "asset_id \<Rightarrow> bytes" where
  "asset_supply_key asset = SUPPLY_PREFIX @ asset"

definition total_supply_key :: bytes where
  "total_supply_key = ascii ''total_supply''"

definition merkle_root_key :: bytes where
  "merkle_root_key = ascii ''merkle_root''"

definition set_total_supply :: "'d rocksdb \<Rightarrow> u64 \<Rightarrow> 'd \<Rightarrow> ('d, store_error) result" where
  "set_total_supply db supply d =
     and_then (with_cf db CF_POOL_STATE d) (\<lambda>_.
     ok_or (put_cf db CF_POOL_STATE total_supply_key (u64_to_le_bytes supply) d) RocksDb)"

text \<open>Reading an 8-byte integer, zero if it was never written.\<close>

definition read_supply :: "'d rocksdb \<Rightarrow> bytes \<Rightarrow> 'd \<Rightarrow> (u64, store_error) result" where
  "read_supply db key d =
     and_then (with_cf db CF_POOL_STATE d) (\<lambda>_.
     and_then (ok_or (get_cf db CF_POOL_STATE key d) RocksDb) (\<lambda>found.
     case found of
       Some bs \<Rightarrow> if length bs \<noteq> 8 then Err InvalidSize else Ok (u64_from_le_bytes bs)
     | None \<Rightarrow> Ok 0))"

definition get_total_supply :: "'d rocksdb \<Rightarrow> 'd \<Rightarrow> (u64, store_error) result" where
  "get_total_supply db d = read_supply db total_supply_key d"

definition set_asset_supply :: "'d rocksdb \<Rightarrow> asset_id \<Rightarrow> u64 \<Rightarrow> 'd \<Rightarrow> ('d, store_error) result" where
  "set_asset_supply db asset supply d =
     (if asset = native_asset_id then set_total_supply db supply d
      else and_then (with_cf db CF_POOL_STATE d) (\<lambda>_.
           ok_or (put_cf db CF_POOL_STATE (asset_supply_key asset) (u64_to_le_bytes supply) d) RocksDb))"

definition get_asset_supply :: "'d rocksdb \<Rightarrow> asset_id \<Rightarrow> 'd \<Rightarrow> (u64, store_error) result" where
  "get_asset_supply db asset d =
     (if asset = native_asset_id then get_total_supply db d
      else read_supply db (asset_supply_key asset) d)"

fun scan_supplies ::
  "(bytes \<times> bytes) option list \<Rightarrow> (asset_id \<rightharpoonup> u64) \<Rightarrow> (asset_id \<rightharpoonup> u64, store_error) result" where
  "scan_supplies [] supplies = Ok supplies"
| "scan_supplies (None # items) supplies = Err RocksDb"
| "scan_supplies (Some (key, val) # items) supplies =
     (if take (length SUPPLY_PREFIX) key \<noteq> SUPPLY_PREFIX then Ok supplies
      else let id_bytes = drop (length SUPPLY_PREFIX) key in
        if length id_bytes \<noteq> 32 \<or> length val \<noteq> 8 then scan_supplies items supplies
        else let supply = u64_from_le_bytes val in
          scan_supplies items (if 0 < supply then supplies(id_bytes \<mapsto> supply) else supplies))"

definition get_all_asset_supplies ::
  "'d rocksdb \<Rightarrow> 'd \<Rightarrow> (asset_id \<rightharpoonup> u64, store_error) result" where
  "get_all_asset_supplies db d =
     and_then (with_cf db CF_POOL_STATE d) (\<lambda>_.
     and_then (get_total_supply db d) (\<lambda>native.
     scan_supplies (prefix_iterator_cf db CF_POOL_STATE SUPPLY_PREFIX d)
       (if 0 < native then [native_asset_id \<mapsto> native] else Map.empty)))"

definition set_merkle_root :: "'d rocksdb \<Rightarrow> bytes32 \<Rightarrow> 'd \<Rightarrow> ('d, store_error) result" where
  "set_merkle_root db root d =
     and_then (with_cf db CF_POOL_STATE d) (\<lambda>_.
     ok_or (put_cf db CF_POOL_STATE merkle_root_key root d) RocksDb)"

definition get_merkle_root :: "'d rocksdb \<Rightarrow> 'd \<Rightarrow> (bytes32 option, store_error) result" where
  "get_merkle_root db d =
     and_then (with_cf db CF_POOL_STATE d) (\<lambda>_.
     and_then (ok_or (get_cf db CF_POOL_STATE merkle_root_key d) RocksDb) (\<lambda>found.
     case found of
       Some bs \<Rightarrow> if length bs \<noteq> 32 then Err InvalidSize else Ok (Some bs)
     | None \<Rightarrow> Ok None))"

section \<open>Effects on the view\<close>

lemma rocksdb_putD:
  assumes "rocksdb_ok db view" and "put_cf db c k v d = Some d'"
  shows "view d' = put_entry (view d) (c, k, v)" and "cf_handle db c' d' = cf_handle db c' d"
  using assms by (auto simp: rocksdb_ok_def)

lemma rocksdb_batchD:
  assumes "rocksdb_ok db view" and "write_batch db es d = Some d'"
  shows "view d' = foldl put_entry (view d) es" and "cf_handle db c' d' = cf_handle db c' d"
  using assms by (auto simp: rocksdb_ok_def)

lemma rocksdb_getD:
  assumes "rocksdb_ok db view" and "get_cf db c k d = Some r"
  shows "r = view d c k"
  using assms by (auto simp: rocksdb_ok_def)

lemma rocksdb_iteratorD:
  assumes "rocksdb_ok db view" and "iterator_cf db c d = map Some es"
  shows "distinct (map fst es)" and "map_of es = view d c"
  using assms by (auto simp: rocksdb_ok_def)

lemma with_cf_Ok [rust_simps]: "with_cf db c d = Ok u \<longleftrightarrow> cf_handle db c d"
  by (simp add: with_cf_def require_eq_Ok)

text \<open>The column family of the leaves holds exactly \<open>xs\<close>, under their indices.\<close>

definition holds_leaves :: "(bytes \<rightharpoonup> bytes) \<Rightarrow> bytes32 list \<Rightarrow> bool" where
  "holds_leaves m xs \<longleftrightarrow> length xs < 2 ^ 64 \<and> (\<forall>x\<in>set xs. length x = 32) \<and>
     m = map_of (map (\<lambda>i. (u64_to_le_bytes (of_nat i), xs ! i)) [0..<length xs])"

lemma holds_leaves_Nil: "holds_leaves Map.empty []"
  by (simp add: holds_leaves_def)

lemma map_of_snoc: "k \<notin> fst ` set es \<Longrightarrow> map_of (es @ [(k, v)]) = (map_of es)(k \<mapsto> v)"
  by (induction es) auto

lemma holds_leaves_snoc:
  assumes "holds_leaves m xs" and "length x = 32" and "length xs + 1 < 2 ^ 64"
  shows "holds_leaves (m(u64_to_le_bytes (of_nat (length xs)) \<mapsto> x)) (xs @ [x])"
proof -
  let ?e = "\<lambda>xs i. (u64_to_le_bytes (of_nat i), xs ! i)"
  have "u64_to_le_bytes (of_nat (length xs)) \<noteq> u64_to_le_bytes (of_nat i)" if "i < length xs" for i
    using that assms(3) by (simp add: word_unat_eq_iff unat_of_nat take_bit_nat_eq_self)
  then have "u64_to_le_bytes (of_nat (length xs)) \<notin> fst ` set (map (?e xs) [0..<length xs])"
    unfolding set_map image_image fst_conv by (metis (no_types, lifting) atLeastLessThan_iff imageE set_upt)
  note snoc = map_of_snoc [OF this, of x]
  have "map (?e (xs @ [x])) [0..<length (xs @ [x])] =
      map (?e xs) [0..<length xs] @ [(u64_to_le_bytes (of_nat (length xs)), x)]"
    by (simp add: nth_append)
  then have "map_of (map (?e (xs @ [x])) [0..<length (xs @ [x])]) =
      (map_of (map (?e xs) [0..<length xs]))(u64_to_le_bytes (of_nat (length xs)) \<mapsto> x)"
    by (simp only: snoc)
  then show ?thesis using assms unfolding holds_leaves_def by auto
qed

lemma insert_commitment_leaves:
  assumes "rocksdb_ok db view" and "holds_leaves (view d CF_MERKLE_TREE) xs"
    and "length x = 32" and "length xs + 1 < 2 ^ 64"
    and "insert_commitment db (of_nat (length xs)) x d = Ok d'"
  shows "holds_leaves (view d' CF_MERKLE_TREE) (xs @ [x])"
    and "c \<noteq> CF_MERKLE_TREE \<Longrightarrow> view d' c = view d c"
proof -
  have v: "view d' = put_entry (view d) (CF_MERKLE_TREE, u64_to_le_bytes (of_nat (length xs)), x)"
    using rocksdb_putD(1) [OF assms(1)] assms(5)
    unfolding insert_commitment_def and_then_eq_Ok ok_or_eq_Ok by blast
  show "holds_leaves (view d' CF_MERKLE_TREE) (xs @ [x])"
    using holds_leaves_snoc [OF assms(2-4)] by (simp add: v put_entry_def)
  show "view d' c = view d c" if "c \<noteq> CF_MERKLE_TREE" using that by (simp add: v put_entry_def)
qed

lemma commitment_entries_leaves:
  assumes "holds_leaves (m CF_MERKLE_TREE) (xs @ ys)" and "length ys = i"
    and "commitment_entries (of_nat (length xs)) i cs = Ok es"
    and "\<forall>c\<in>set cs. length c = 32" and "length xs + i + length cs < 2 ^ 64"
  shows "holds_leaves (foldl put_entry m es CF_MERKLE_TREE) (xs @ ys @ cs) \<and>
    (\<forall>c. c \<noteq> CF_MERKLE_TREE \<longrightarrow> foldl put_entry m es c = m c)"
  using assms
proof (induction cs arbitrary: i ys m es)
  case (Cons c cs)
  obtain rest where es: "es = (CF_MERKLE_TREE, u64_to_le_bytes (of_nat (length (xs @ ys))), c) # rest"
    and rest: "commitment_entries (of_nat (length xs)) (i + 1) cs = Ok rest"
    using Cons.prems(2,3) by (auto simp: and_then_eq_Ok ok_or_eq_Ok checked_add_def split: if_splits)
  let ?m = "put_entry m (CF_MERKLE_TREE, u64_to_le_bytes (of_nat (length (xs @ ys))), c)"
  have "holds_leaves (?m CF_MERKLE_TREE) (xs @ (ys @ [c]))"
    using holds_leaves_snoc [OF Cons.prems(1), of c] Cons.prems by (simp add: put_entry_def)
  then have "holds_leaves (foldl put_entry ?m rest CF_MERKLE_TREE) (xs @ (ys @ [c]) @ cs) \<and>
      (\<forall>c. c \<noteq> CF_MERKLE_TREE \<longrightarrow> foldl put_entry ?m rest c = ?m c)"
    by (rule Cons.IH [OF _ _ rest]) (use Cons.prems in simp_all)
  moreover have "?m c = m c" if "c \<noteq> CF_MERKLE_TREE" for c using that by (simp add: put_entry_def)
  ultimately show ?case unfolding es by simp
qed simp

lemma insert_commitments_batch_leaves:
  assumes "rocksdb_ok db view" and "holds_leaves (view d CF_MERKLE_TREE) xs"
    and "\<forall>c\<in>set cs. length c = 32" and "length xs + length cs < 2 ^ 64"
    and "insert_commitments_batch db (of_nat (length xs)) cs d = Ok d'"
  shows "holds_leaves (view d' CF_MERKLE_TREE) (xs @ cs)"
proof -
  obtain es where "commitment_entries (of_nat (length xs)) 0 cs = Ok es" "write_batch db es d = Some d'"
    using assms(5) by (auto simp: insert_commitments_batch_def and_then_eq_Ok ok_or_eq_Ok)
  then show ?thesis
    using commitment_entries_leaves [of "view d" xs "[]"] rocksdb_batchD(1) [OF assms(1)] assms(2-4)
    by simp
qed

section \<open>What was written is read back\<close>

lemma decode_leaves_Some:
  "\<forall>(k, v)\<in>set es. length k = 8 \<and> length v = 32 \<Longrightarrow>
   decode_leaves (map Some es) = Ok (map (\<lambda>(k, v). (u64_from_le_bytes k, v)) es)"
  by (induction es) auto

lemma map_of_same_set:
  assumes "distinct (map fst es)" and "distinct (map fst es')" and "map_of es = map_of es'"
  shows "set es = set es'"
proof -
  have "(k, v) \<in> set es \<longleftrightarrow> (k, v) \<in> set es'" for k v
    using map_of_eq_Some_iff [OF assms(1), of k v] map_of_eq_Some_iff [OF assms(2), of k v] assms(3)
    by simp
  then show ?thesis by auto
qed

lemma sort_key_unique:
  fixes f :: "'a \<Rightarrow> 'b::linorder"
  assumes "distinct (map f ys)" and "distinct (map f zs)" and "sorted (map f zs)" and "set ys = set zs"
  shows "sort_key f ys = zs"
  using assms by (intro map_sorted_distinct_set_unique [of f]) (simp_all add: distinct_map)

text \<open>The iterator may enumerate the leaves in any order (and does not do so in index order once
  there are more than 256): sorting by the decoded index restores it.\<close>

lemma get_all_commitments_leaves:
  assumes "rocksdb_ok db view" and "holds_leaves (view d CF_MERKLE_TREE) xs"
    and "cf_handle db CF_MERKLE_TREE d" and "iterator_cf db CF_MERKLE_TREE d = map Some es"
  shows "get_all_commitments db d = Ok xs"
proof -
  let ?es = "map (\<lambda>i. (u64_to_le_bytes (of_nat i), xs ! i)) [0..<length xs]"
  let ?ix = "map (\<lambda>i. (of_nat i :: u64, xs ! i)) [0..<length xs]"
  let ?dec = "\<lambda>(k, v). (u64_from_le_bytes k, v)"
  have len: "length xs < 2 ^ 64" using assms(2) by (simp add: holds_leaves_def)
  have inj: "inj_on (of_nat :: nat \<Rightarrow> u64) {0..<length xs}"
    using len by (auto simp: inj_on_def word_unat_eq_iff unat_of_nat take_bit_nat_eq_self)
  have dist: "distinct (map fst ?es)" "distinct (map fst ?ix)"
    using inj by (auto simp: comp_def distinct_map inj_on_def)
  have set: "set es = set ?es"
    using rocksdb_iteratorD [OF assms(1,4)] dist(1) assms(2)
    by (intro map_of_same_set) (auto simp: holds_leaves_def)
  then have "\<forall>(k, v)\<in>set es. length k = 8 \<and> length v = 32"
    using assms(2) by (auto simp: holds_leaves_def)
  then have dec: "decode_leaves (iterator_cf db CF_MERKLE_TREE d) = Ok (map ?dec es)"
    using assms(4) by (simp add: decode_leaves_Some)
  have sorted: "sorted (map fst ?ix)"
    using len by (auto simp: sorted_iff_nth_mono word_le_nat_alt unat_of_nat take_bit_nat_eq_self)
  have sets: "set (map ?dec es) = set ?ix" using set by (auto simp: image_image)
  have d: "distinct es" "distinct ?es"
    using rocksdb_iteratorD(1) [OF assms(1,4)] dist(1) distinct_map by blast+
  have "length es = card (set es)" using distinct_card [OF d(1)] by (rule sym)
  also have "\<dots> = length ?es" unfolding set by (rule distinct_card [OF d(2)])
  finally have "length (map fst (map ?dec es)) = length (map fst ?ix)" by simp
  also have "\<dots> = card (set (map fst ?ix))" using distinct_card [OF dist(2)] by (rule sym)
  also have "set (map fst ?ix) = set (map fst (map ?dec es))" using sets unfolding set_map by simp
  finally have "distinct (map fst (map ?dec es))" by (intro card_distinct) (rule sym)
  then have "sort_key fst (map ?dec es) = ?ix"
    by (rule sort_key_unique [OF _ dist(2) sorted sets])
  then show ?thesis
    using dec assms(3) by (simp add: get_all_commitments_def with_cf_def comp_def map_nth)
qed

lemma decode_nullifiers_Some:
  "\<forall>(k, v)\<in>set es. length k = 32 \<Longrightarrow> decode_nullifiers (map Some es) = Ok (map fst es)"
  by (induction es) auto

lemma get_all_nullifiers_set:
  assumes "rocksdb_ok db view" and "\<forall>n\<in>dom (view d CF_NULLIFIER_SET). length n = 32"
    and "cf_handle db CF_NULLIFIER_SET d" and "iterator_cf db CF_NULLIFIER_SET d = map Some es"
  shows "\<exists>ns. get_all_nullifiers db d = Ok ns \<and> set ns = dom (view d CF_NULLIFIER_SET) \<and> distinct ns"
proof -
  note it = rocksdb_iteratorD [OF assms(1,4)]
  have dom: "dom (view d CF_NULLIFIER_SET) = set (map fst es)"
    using it(2) dom_map_of_conv_image_fst [of es] by simp
  then have "\<forall>(k, v)\<in>set es. length k = 32" using assms(2) by auto
  then show ?thesis
    using assms(3,4) it(1) dom
    by (simp add: get_all_nullifiers_def with_cf_def decode_nullifiers_Some)
qed

text \<open>The pool-state family holds the supplies \<open>S\<close>: native SOL under its own key, every other asset
  under the prefix, and nothing else under the prefix.\<close>

definition holds_supplies :: "(bytes \<rightharpoonup> bytes) \<Rightarrow> (asset_id \<rightharpoonup> u64) \<Rightarrow> bool" where
  "holds_supplies m S \<longleftrightarrow>
     (\<forall>a\<in>dom S. length a = 32) \<and>
     m total_supply_key = map_option u64_to_le_bytes (S native_asset_id) \<and>
     (\<forall>a. a \<noteq> native_asset_id \<longrightarrow> m (asset_supply_key a) = map_option u64_to_le_bytes (S a)) \<and>
     m (asset_supply_key native_asset_id) = None"

definition positive :: "(asset_id \<rightharpoonup> u64) \<Rightarrow> asset_id \<rightharpoonup> u64" where
  "positive S a = (case S a of Some v \<Rightarrow> if 0 < v then Some v else None | None \<Rightarrow> None)"

lemma pool_keys_distinct [simp]:
  "total_supply_key \<noteq> asset_supply_key a" "asset_supply_key a \<noteq> total_supply_key"
  "merkle_root_key \<noteq> asset_supply_key a" "asset_supply_key a \<noteq> merkle_root_key"
  "merkle_root_key \<noteq> total_supply_key" "total_supply_key \<noteq> merkle_root_key"
  "asset_supply_key a = asset_supply_key b \<longleftrightarrow> a = b"
  by (simp_all add: total_supply_key_def asset_supply_key_def merkle_root_key_def SUPPLY_PREFIX_def
      ascii_def)

lemma holds_supplies_upd:
  assumes "holds_supplies m S" and "length a = 32"
  shows "holds_supplies (m((if a = native_asset_id then total_supply_key else asset_supply_key a)
    \<mapsto> u64_to_le_bytes v)) (S(a \<mapsto> v))"
  using assms by (auto simp: holds_supplies_def)

lemma set_asset_supply_effect:
  assumes "rocksdb_ok db view" and "set_asset_supply db a v d = Ok d'"
  shows "view d' = put_entry (view d) (CF_POOL_STATE,
    if a = native_asset_id then total_supply_key else asset_supply_key a, u64_to_le_bytes v)"
  using assms(2) rocksdb_putD(1) [OF assms(1)]
  unfolding set_asset_supply_def set_total_supply_def
  by (cases "a = native_asset_id") (auto simp: and_then_eq_Ok ok_or_eq_Ok)

lemma scan_supplies_all:
  assumes "\<forall>(k, v)\<in>set (takeWhile (\<lambda>(k, v). take (length SUPPLY_PREFIX) k = SUPPLY_PREFIX) es).
      \<exists>a n. k = asset_supply_key a \<and> length a = 32 \<and> v = u64_to_le_bytes n"
    and "distinct (map fst (takeWhile (\<lambda>(k, v). take (length SUPPLY_PREFIX) k = SUPPLY_PREFIX) es))"
  shows "\<exists>S'. scan_supplies (map Some es) S = Ok S' \<and> (\<forall>a. S' a =
    (case map_of (takeWhile (\<lambda>(k, v). take (length SUPPLY_PREFIX) k = SUPPLY_PREFIX) es)
       (asset_supply_key a) of
       Some bs \<Rightarrow> if 0 < u64_from_le_bytes bs then Some (u64_from_le_bytes bs) else S a
     | None \<Rightarrow> S a))"
  using assms
proof (induction es arbitrary: S)
  case (Cons e es)
  let ?tw = "takeWhile (\<lambda>(k, v). take (length SUPPLY_PREFIX) k = SUPPLY_PREFIX)"
  obtain k v where e: "e = (k, v)" by force
  show ?case
  proof (cases "take (length SUPPLY_PREFIX) k = SUPPLY_PREFIX")
    case True
    then obtain a n where a: "k = asset_supply_key a" "length a = 32" "v = u64_to_le_bytes n"
      using Cons.prems(1) e by auto
    have fresh: "map_of (?tw es) k = None"
      using Cons.prems(2) True e by (simp add: map_of_eq_None_iff)
    obtain S' where S': "scan_supplies (map Some es) (if 0 < n then S(a \<mapsto> n) else S) = Ok S'"
      "\<forall>b. S' b = (case map_of (?tw es) (asset_supply_key b) of
         Some bs \<Rightarrow> if 0 < u64_from_le_bytes bs then Some (u64_from_le_bytes bs)
           else (if 0 < n then S(a \<mapsto> n) else S) b
       | None \<Rightarrow> (if 0 < n then S(a \<mapsto> n) else S) b)"
      using Cons.IH [of "if 0 < n then S(a \<mapsto> n) else S"] Cons.prems True e by auto
    have "scan_supplies (map Some (e # es)) S = Ok S'"
      using S'(1) e a True by (simp add: asset_supply_key_def)
    then show ?thesis
      using S'(2) e a True fresh by (auto split: option.splits)
  next
    case False
    then show ?thesis using e by simp
  qed
qed simp

lemma get_all_asset_supplies_positive:
  assumes "rocksdb_ok db view" and "holds_supplies (view d CF_POOL_STATE) S"
    and "\<forall>k\<in>dom (view d CF_POOL_STATE). take (length SUPPLY_PREFIX) k = SUPPLY_PREFIX \<longrightarrow>
      (\<exists>a. k = asset_supply_key a)"
    and "cf_handle db CF_POOL_STATE d" and "get_cf db CF_POOL_STATE total_supply_key d \<noteq> None"
    and "prefix_iterator_cf db CF_POOL_STATE SUPPLY_PREFIX d = map Some es"
  shows "get_all_asset_supplies db d = Ok (positive S)"
proof -
  let ?tw = "takeWhile (\<lambda>(k, v). take (length SUPPLY_PREFIX) k = SUPPLY_PREFIX) es"
  let ?native = "case S native_asset_id of None \<Rightarrow> 0 | Some v \<Rightarrow> v"
  let ?base = "if 0 < ?native then [native_asset_id \<mapsto> ?native] else Map.empty"
  have it: "distinct (map fst ?tw)" "\<And>k v. (k, v) \<in> set ?tw \<longleftrightarrow>
      view d CF_POOL_STATE k = Some v \<and> take (length SUPPLY_PREFIX) k = SUPPLY_PREFIX"
    using assms(1,6) by (auto simp: rocksdb_ok_def)
  have tw: "map_of ?tw (asset_supply_key a) = view d CF_POOL_STATE (asset_supply_key a)" for a
    using it by (cases "view d CF_POOL_STATE (asset_supply_key a)")
      (auto simp: map_of_eq_None_iff asset_supply_key_def)
  have get: "get_total_supply db d = Ok ?native"
    using assms(2,4,5) rocksdb_getD [OF assms(1)]
    by (cases "S native_asset_id")
      (fastforce simp: get_total_supply_def read_supply_def with_cf_def holds_supplies_def)+
  have "\<exists>a n. k = asset_supply_key a \<and> length a = 32 \<and> v = u64_to_le_bytes n"
    if "(k, v) \<in> set ?tw" for k v
  proof -
    have kv: "view d CF_POOL_STATE k = Some v" "take (length SUPPLY_PREFIX) k = SUPPLY_PREFIX"
      using that it(2) by blast+
    then obtain a where a: "k = asset_supply_key a" using assms(3) by blast
    then have "a \<noteq> native_asset_id" using kv(1) assms(2) by (auto simp: holds_supplies_def)
    then show ?thesis using a kv(1) assms(2) by (fastforce simp: holds_supplies_def)
  qed
  then obtain S' where S': "scan_supplies (map Some es) ?base = Ok S'"
    "\<And>a. S' a = (case view d CF_POOL_STATE (asset_supply_key a) of
       Some bs \<Rightarrow> if 0 < u64_from_le_bytes bs then Some (u64_from_le_bytes bs) else ?base a
     | None \<Rightarrow> ?base a)"
    using scan_supplies_all [OF _ it(1)] unfolding tw by blast
  have "S' = positive S"
  proof
    fix a show "S' a = positive S a"
      using assms(2) by (cases "a = native_asset_id")
        (auto simp: S'(2) positive_def holds_supplies_def split: option.splits)
  qed
  then show ?thesis
    using get S'(1) assms(4,6) by (simp add: get_all_asset_supplies_def with_cf_def)
qed

section \<open>A reference database\<close>

text \<open>Association lists, newest entry first, show that the laws can be met.\<close>

type_synonym ref_db = "cf \<Rightarrow> (bytes \<times> bytes) list"

definition ref_put :: "ref_db \<Rightarrow> cf \<times> bytes \<times> bytes \<Rightarrow> ref_db" where
  "ref_put d e = (case e of (c, k, v) \<Rightarrow> d(c := (k, v) # d c))"

definition ref_view :: "ref_db \<Rightarrow> cf \<Rightarrow> bytes \<rightharpoonup> bytes" where
  "ref_view d c = map_of (d c)"

definition ref_rocksdb :: "ref_db rocksdb" where
  "ref_rocksdb =
     \<lparr> cf_handle = (\<lambda>c d. True),
       put_cf = (\<lambda>c k v d. Some (ref_put d (c, k, v))),
       write_batch = (\<lambda>es d. Some (foldl ref_put d es)),
       get_cf = (\<lambda>c k d. Some (map_of (d c) k)),
       iterator_cf = (\<lambda>c d. map Some (AList.clearjunk (d c))),
       prefix_iterator_cf = (\<lambda>c p d. map Some
         (let es = AList.clearjunk (d c) in
          filter (\<lambda>(k, v). take (length p) k = p) es @
          filter (\<lambda>(k, v). take (length p) k \<noteq> p) es)) \<rparr>"

lemma ref_rocksdb_sel [simp]:
  "cf_handle ref_rocksdb = (\<lambda>c d. True)"
  "put_cf ref_rocksdb = (\<lambda>c k v d. Some (ref_put d (c, k, v)))"
  "write_batch ref_rocksdb = (\<lambda>es d. Some (foldl ref_put d es))"
  "get_cf ref_rocksdb = (\<lambda>c k d. Some (map_of (d c) k))"
  "iterator_cf ref_rocksdb = (\<lambda>c d. map Some (AList.clearjunk (d c)))"
  by (simp_all add: ref_rocksdb_def)

lemma ref_view_put: "ref_view (ref_put d e) = put_entry (ref_view d) e"
  by (cases e) (auto simp: ref_view_def ref_put_def put_entry_def)

lemma takeWhile_filter_append:
  "takeWhile P (filter P xs @ filter (\<lambda>x. \<not> P x) ys) = filter P xs"
proof (induction xs)
  case Nil
  show ?case by (induction ys) auto
qed simp

lemma ref_rocksdb_ok [simp]: "rocksdb_ok ref_rocksdb ref_view"
proof -
  have batch: "ref_view (foldl ref_put d es) = foldl put_entry (ref_view d) es" for d es
    by (induction es arbitrary: d) (simp_all add: ref_view_put)
  have it: "distinct (map fst (AList.clearjunk (d c)))" "map_of (AList.clearjunk (d c)) = ref_view d c"
    for d :: ref_db and c
    by (simp_all add: ref_view_def map_of_clearjunk distinct_clearjunk)
  have mem: "(k, v) \<in> set (AList.clearjunk (d c)) \<longleftrightarrow> ref_view d c k = Some v"
    for k v and d :: ref_db and c
    using it(2) [of d c] map_of_eq_Some_iff [OF it(1), of d c k v] by simp
  have split: "prefix_iterator_cf ref_rocksdb c p d = map Some es \<Longrightarrow>
      takeWhile (\<lambda>(k, v). take (length p) k = p) es =
        filter (\<lambda>(k, v). take (length p) k = p) (AList.clearjunk (d c))" for c p d es
    using takeWhile_filter_append [of "\<lambda>(k, v). take (length p) k = p"]
    by (auto simp: ref_rocksdb_def Let_def case_prod_unfold simp flip: map_append)
  show ?thesis
    unfolding rocksdb_ok_def
    by (auto simp: ref_view_put batch it mem split distinct_map_filter ref_view_def [symmetric])
qed

end
