(* ===== verification/Spend_Notes.thy ===== *)
theory Spend_Notes
  imports Field_Encoding Merkle_Hash
begin

text \<open>
  Notes, keys and hashes of the node (\<open>privacy/poseidon.rs\<close>, \<open>privacy/types.rs\<close>): the
  domain-separated Poseidon functions, the spend-key construction and inclusion paths. The
  arkworks sponge is the field \<open>poseidon_sponge\<close> of the parameter: absorbing a list of field
  elements and squeezing one.
\<close>

section \<open>Poseidon\<close>

record node_crypto = crypto +
  poseidon_sponge :: "nat list \<Rightarrow> nat"

text \<open>The sponge squeezes a field element.\<close>

definition sponge_ok :: "'z node_crypto_scheme \<Rightarrow> bool" where
  "sponge_ok cr \<longleftrightarrow> ark_fr_ok cr \<and> (\<forall>xs. poseidon_sponge cr xs < fr_modulus)"

definition poseidon_hash_fields :: "'z node_crypto_scheme \<Rightarrow> nat list \<Rightarrow> nat" where
  "poseidon_hash_fields cr inputs = poseidon_sponge cr inputs"

definition poseidon_hash_field :: "'z node_crypto_scheme \<Rightarrow> nat \<Rightarrow> nat" where
  "poseidon_hash_field cr input = poseidon_sponge cr [input]"

text \<open>\<open>data.chunks(31)\<close>, each chunk copied to the front of a zeroed 32-byte array.\<close>

function chunks31 :: "bytes \<Rightarrow> bytes list" where
  "chunks31 [] = []"
| "data \<noteq> [] \<Longrightarrow> chunks31 data = take 31 data # chunks31 (drop 31 data)"
  by auto
termination by (relation "measure length") auto

definition pack_chunk :: "'z node_crypto_scheme \<Rightarrow> bytes \<Rightarrow> nat" where
  "pack_chunk cr chunk =
     fr_from_le_bytes_mod_order cr (chunk @ replicate (32 - length chunk) 0)"

definition poseidon_hash_bytes :: "'z node_crypto_scheme \<Rightarrow> bytes \<Rightarrow> nat" where
  "poseidon_hash_bytes cr data = poseidon_sponge cr (map (pack_chunk cr) (chunks31 data))"

text \<open>\<open>fr_to_bytes_32\<close> of \<open>types.rs\<close>, which \<open>poseidon_hash\<close> and \<open>hash_pair\<close> repeat inline.\<close>

definition fr_to_bytes_32 :: "'z node_crypto_scheme \<Rightarrow> nat \<Rightarrow> bytes32" where
  "fr_to_bytes_32 cr fr =
     (let bs = fr_to_bytes_le cr fr; len = min (length bs) 32
      in take len bs @ replicate (32 - len) 0)"

definition poseidon_hash :: "'z node_crypto_scheme \<Rightarrow> bytes \<Rightarrow> bytes32" where
  "poseidon_hash cr data = fr_to_bytes_32 cr (poseidon_hash_bytes cr data)"

definition poseidon_hash_pair :: "'z node_crypto_scheme \<Rightarrow> bytes32 \<Rightarrow> bytes32 \<Rightarrow> bytes32" where
  "poseidon_hash_pair cr left right = poseidon_hash cr (left @ right)"

section \<open>Domain-separated hashes\<close>

definition COMMITMENT_TAG :: u64 where "COMMITMENT_TAG = 1"

definition NULLIFIER_TAG :: u64 where "NULLIFIER_TAG = 2"

definition MERKLE_PAIR_TAG :: u64 where "MERKLE_PAIR_TAG = 3"

definition PUBKEY_TAG :: u64 where "PUBKEY_TAG = 4"

definition SIGNATURE_TAG :: u64 where "SIGNATURE_TAG = 5"

definition poseidon_pubkey :: "'z node_crypto_scheme \<Rightarrow> nat \<Rightarrow> nat" where
  "poseidon_pubkey cr privkey = poseidon_hash_fields cr [fr_from_u64 cr PUBKEY_TAG, privkey]"

definition poseidon_commit_spend :: "'z node_crypto_scheme \<Rightarrow> nat \<Rightarrow> nat \<Rightarrow> nat \<Rightarrow> nat \<Rightarrow> nat" where
  "poseidon_commit_spend cr amount pubkey blinding asset_id =
     poseidon_hash_fields cr [fr_from_u64 cr COMMITMENT_TAG, amount, pubkey, blinding, asset_id]"

definition poseidon_signature :: "'z node_crypto_scheme \<Rightarrow> nat \<Rightarrow> nat \<Rightarrow> nat \<Rightarrow> nat" where
  "poseidon_signature cr privkey commitment leaf_index =
     poseidon_hash_fields cr [fr_from_u64 cr SIGNATURE_TAG, privkey, commitment, leaf_index]"

definition poseidon_nullifier_spend :: "'z node_crypto_scheme \<Rightarrow> nat \<Rightarrow> nat \<Rightarrow> nat \<Rightarrow> nat" where
  "poseidon_nullifier_spend cr commitment leaf_index signature =
     poseidon_hash_fields cr [fr_from_u64 cr NULLIFIER_TAG, commitment, leaf_index, signature]"

definition poseidon_commit :: "'z node_crypto_scheme \<Rightarrow> nat \<Rightarrow> nat \<Rightarrow> nat \<Rightarrow> nat \<Rightarrow> nat" where
  "poseidon_commit cr amount randomness recipient asset_id =
     poseidon_hash_fields cr [fr_from_u64 cr COMMITMENT_TAG, amount, randomness, recipient, asset_id]"

definition poseidon_nullifier :: "'z node_crypto_scheme \<Rightarrow> nat \<Rightarrow> nat \<Rightarrow> nat" where
  "poseidon_nullifier cr commitment secret =
     poseidon_hash_fields cr [fr_from_u64 cr NULLIFIER_TAG, commitment, secret]"

definition poseidon_merkle_pair :: "'z node_crypto_scheme \<Rightarrow> nat \<Rightarrow> nat \<Rightarrow> nat" where
  "poseidon_merkle_pair cr left right =
     poseidon_hash_fields cr [fr_from_u64 cr MERKLE_PAIR_TAG, left, right]"

section \<open>Notes and spend keys\<close>

definition Nullifier_derive ::
  "'z node_crypto_scheme \<Rightarrow> bytes32 \<Rightarrow> bytes32 \<Rightarrow> bytes32" where
  "Nullifier_derive cr commitment spending_key =
     fr_to_bytes_32 cr (poseidon_nullifier cr
       (fr_from_le_bytes_mod_order cr commitment) (fr_from_le_bytes_mod_order cr spending_key))"

record SpendKeypair =
  kp_privkey :: bytes32
  kp_pubkey :: bytes32

definition SpendKeypair_from_privkey :: "'z node_crypto_scheme \<Rightarrow> bytes32 \<Rightarrow> SpendKeypair" where
  "SpendKeypair_from_privkey cr privkey =
     \<lparr> kp_privkey = privkey,
       kp_pubkey = fr_to_bytes_32 cr (poseidon_pubkey cr (fr_from_le_bytes_mod_order cr privkey)) \<rparr>"

definition SpendKeypair_nullifier ::
  "'z node_crypto_scheme \<Rightarrow> SpendKeypair \<Rightarrow> bytes32 \<Rightarrow> u64 \<Rightarrow> bytes32" where
  "SpendKeypair_nullifier cr kp commitment leaf_index =
     (let sk = fr_from_le_bytes_mod_order cr (kp_privkey kp);
          c = fr_from_le_bytes_mod_order cr commitment;
          idx = fr_from_u64 cr leaf_index;
          signature = poseidon_signature cr sk c idx
      in fr_to_bytes_32 cr (poseidon_nullifier_spend cr c idx signature))"

definition spend_commitment ::
  "'z node_crypto_scheme \<Rightarrow> u64 \<Rightarrow> bytes32 \<Rightarrow> bytes32 \<Rightarrow> bytes32 \<Rightarrow> bytes32" where
  "spend_commitment cr amount pubkey blinding asset_id =
     fr_to_bytes_32 cr (poseidon_commit_spend cr (fr_from_u64 cr amount)
       (fr_from_le_bytes_mod_order cr pubkey) (fr_from_le_bytes_mod_order cr blinding)
       (fr_from_le_bytes_mod_order cr asset_id))"

record Note =
  nt_recipient :: bytes32
  nt_amount :: u64
  nt_randomness :: bytes32
  nt_asset_id :: bytes32
  nt_memo :: "bytes option"

definition Note_new :: "bytes32 \<Rightarrow> u64 \<Rightarrow> bytes32 \<Rightarrow> bytes32 \<Rightarrow> Note" where
  "Note_new recipient amount randomness asset_id =
     \<lparr> nt_recipient = recipient, nt_amount = amount, nt_randomness = randomness,
       nt_asset_id = asset_id, nt_memo = None \<rparr>"

definition Note_new_native :: "bytes32 \<Rightarrow> u64 \<Rightarrow> bytes32 \<Rightarrow> Note" where
  "Note_new_native recipient amount randomness =
     Note_new recipient amount randomness (replicate 32 0)"

definition Note_commitment :: "'z node_crypto_scheme \<Rightarrow> Note \<Rightarrow> bytes32" where
  "Note_commitment cr note =
     (let amount_fr = fr_from_u64 cr (nt_amount note);
          pubkey_fr = fr_from_le_bytes_mod_order cr (nt_recipient note);
          blinding_fr = fr_from_le_bytes_mod_order cr (nt_randomness note);
          asset_id_fr = fr_from_le_bytes_mod_order cr (nt_asset_id note)
      in fr_to_bytes_32 cr (poseidon_commit_spend cr amount_fr pubkey_fr blinding_fr asset_id_fr))"

section \<open>Inclusion paths\<close>

record MerklePath =
  mp_path :: "bytes32 list"
  mp_indices :: "bool list"

definition MerklePath_empty :: MerklePath where
  "MerklePath_empty = \<lparr> mp_path = [], mp_indices = [] \<rparr>"

fun path_fold :: "'z node_crypto_scheme \<Rightarrow> (bytes32 \<times> bool) list \<Rightarrow> bytes32 \<Rightarrow> bytes32" where
  "path_fold cr [] current = current"
| "path_fold cr ((sibling, is_right) # rest) current =
     (let (l_bytes, r_bytes) = (if is_right then (current, sibling) else (sibling, current));
          l = fr_from_le_bytes_mod_order cr l_bytes;
          r = fr_from_le_bytes_mod_order cr r_bytes
      in path_fold cr rest (fr_to_bytes_32 cr (poseidon_merkle_pair cr l r)))"

definition MerklePath_verify ::
  "'z node_crypto_scheme \<Rightarrow> MerklePath \<Rightarrow> bytes32 \<Rightarrow> bytes32 \<Rightarrow> bool" where
  "MerklePath_verify cr p leaf root =
     (if length (mp_path p) \<noteq> length (mp_indices p) then False
      else path_fold cr (zip (mp_path p) (mp_indices p)) leaf = root)"

section \<open>Encodings\<close>

lemma sponge_okD:
  assumes "sponge_ok cr"
  shows "fr_from_le_bytes_mod_order cr bs = le_val bs mod fr_modulus"
    and "fr_from_u64 cr x = unat x"
    and "y < fr_modulus \<Longrightarrow> fr_to_bytes_32 cr y = le_bytes 32 y"
    and "poseidon_sponge cr xs < fr_modulus"
proof -
  have ark: "ark_fr_ok cr" and sponge: "poseidon_sponge cr xs < fr_modulus"
    using assms unfolding sponge_ok_def by blast+
  from sponge show "poseidon_sponge cr xs < fr_modulus" .
  from ark show "fr_from_le_bytes_mod_order cr bs = le_val bs mod fr_modulus"
    unfolding ark_fr_ok_def by blast
  from ark show "fr_from_u64 cr x = unat x" unfolding ark_fr_ok_def by blast
  show "fr_to_bytes_32 cr y = le_bytes 32 y" if "y < fr_modulus"
  proof -
    have "fr_to_bytes_le cr y = le_bytes 32 y" using ark that unfolding ark_fr_ok_def by blast
    then show ?thesis by (simp only: fr_to_bytes_32_def Let_def length_le_bytes) simp
  qed
qed

lemma fr_to_bytes_32_inject:
  assumes "sponge_ok cr"
  shows "fr_to_bytes_32 cr (poseidon_sponge cr xs) = fr_to_bytes_32 cr (poseidon_sponge cr ys) \<longleftrightarrow>
    poseidon_sponge cr xs = poseidon_sponge cr ys"
proof -
  have "poseidon_sponge cr zs < 256 ^ 32" for zs
    using sponge_okD(4) [OF assms, of zs] fr_modulus_lt_2_256 by linarith
  then show ?thesis
    unfolding sponge_okD(3) [OF assms sponge_okD(4) [OF assms]] by (intro le_bytes_inject)
qed

lemma fr_to_bytes_32_length: "length (fr_to_bytes_32 cr y) = 32"
  by (simp add: fr_to_bytes_32_def Let_def)

lemma tags_distinct: "distinct (map unat
    [COMMITMENT_TAG, NULLIFIER_TAG, MERKLE_PAIR_TAG, PUBKEY_TAG, SIGNATURE_TAG])"
  by (simp add: COMMITMENT_TAG_def NULLIFIER_TAG_def MERKLE_PAIR_TAG_def PUBKEY_TAG_def
      SIGNATURE_TAG_def)

lemma le_val_replicate_0: "le_val (replicate k 0) = 0"
  by (induction k) simp_all

text \<open>Packing keeps a byte string of known length: 31 bytes are below the field order.\<close>

lemma pack_chunk_value:
  assumes "sponge_ok cr" and "length chunk \<le> 31"
  shows "pack_chunk cr chunk = le_val chunk"
proof -
  have "le_val chunk < 256 ^ length chunk" by (rule le_val_bound)
  also have "\<dots> \<le> 256 ^ 31" using assms(2) by (intro power_increasing) simp_all
  also have "(256 :: nat) ^ 31 < fr_modulus" by (simp add: fr_modulus_def)
  finally have less: "le_val chunk < fr_modulus" .
  have "le_val (chunk @ replicate k 0) = le_val chunk" for k
    by (induction chunk) (simp_all add: le_val_replicate_0)
  then show ?thesis
    using sponge_okD(1) [OF assms(1)] less by (simp add: pack_chunk_def)
qed

section \<open>Binding\<close>

text \<open>The residue a 32-byte string denotes, and the sponge inputs of a spend.\<close>

definition residue :: "bytes32 \<Rightarrow> nat" where
  "residue bs = le_val bs mod fr_modulus"

definition signature_input :: "SpendKeypair \<Rightarrow> bytes32 \<Rightarrow> u64 \<Rightarrow> nat list" where
  "signature_input kp commitment leaf_index =
     [unat SIGNATURE_TAG, residue (kp_privkey kp), residue commitment, unat leaf_index]"

definition nullifier_input ::
  "'z node_crypto_scheme \<Rightarrow> SpendKeypair \<Rightarrow> bytes32 \<Rightarrow> u64 \<Rightarrow> nat list" where
  "nullifier_input cr kp commitment leaf_index =
     [unat NULLIFIER_TAG, residue commitment, unat leaf_index,
      poseidon_sponge cr (signature_input kp commitment leaf_index)]"

definition note_input :: "Note \<Rightarrow> nat list" where
  "note_input note =
     [unat COMMITMENT_TAG, unat (nt_amount note), residue (nt_recipient note),
      residue (nt_randomness note), residue (nt_asset_id note)]"

lemma nullifier_sponge:
  "sponge_ok cr \<Longrightarrow> SpendKeypair_nullifier cr kp c i =
     fr_to_bytes_32 cr (poseidon_sponge cr (nullifier_input cr kp c i))"
  by (simp add: SpendKeypair_nullifier_def poseidon_nullifier_spend_def poseidon_signature_def
      poseidon_hash_fields_def sponge_okD(1,2) nullifier_input_def signature_input_def residue_def
      Let_def)

lemma note_sponge:
  "sponge_ok cr \<Longrightarrow> Note_commitment cr note = fr_to_bytes_32 cr (poseidon_sponge cr (note_input note))"
  by (simp add: Note_commitment_def poseidon_commit_spend_def poseidon_hash_fields_def
      sponge_okD(1,2) note_input_def residue_def Let_def)

text \<open>The spend-key commitment of the wallet is the note's.\<close>

lemma note_spend_commitment:
  "Note_commitment cr note =
     spend_commitment cr (nt_amount note) (nt_recipient note) (nt_randomness note) (nt_asset_id note)"
  by (simp add: Note_commitment_def spend_commitment_def Let_def)

lemma inj_on_pair: "inj_on f {x, y} \<Longrightarrow> f x = f y \<longleftrightarrow> x = y"
  by (auto simp: inj_on_def)

section \<open>A reference sponge\<close>

definition ref_sponge :: "nat list \<Rightarrow> nat" where
  "ref_sponge xs =
     (case xs of [t, l, r] \<Rightarrow> t + l + 2 * r | _ \<Rightarrow> foldl (\<lambda>a x. a * 31 + x + 1) 0 xs) mod fr_modulus"

definition ref_node_crypto :: node_crypto where
  "ref_node_crypto =
     crypto.extend (crypto.truncate ref_runtime)
       \<lparr> poseidon_sponge = ref_sponge \<rparr>"

lemma ref_node_crypto_sel [simp]:
  "fr_from_le_bytes_mod_order ref_node_crypto = (\<lambda>bs. le_val bs mod fr_modulus)"
  "fr_from_u64 ref_node_crypto = unat"
  "fr_to_bytes_le ref_node_crypto = le_bytes 32"
  "poseidon_sponge ref_node_crypto = ref_sponge"
  by (simp_all add: ref_node_crypto_def crypto.defs)

lemma ref_sponge_ok [simp]: "sponge_ok ref_node_crypto"
  using ref_ark_fr_ok
  by (simp add: sponge_ok_def ark_fr_ok_def ref_node_crypto_def crypto.defs
      ref_sponge_def)

section \<open>Properties\<close>

text \<open>C23. A nullifier binds the spend: as long as the sponge does not collide on the inputs of two
  spends, equal nullifiers come from the same tree position, the same commitment and the same
  private key (as field elements); and equal note commitments from notes with the same amount,
  owner key, blinding and asset. Conversely each of these determines the nullifier or the
  commitment.\<close>

theorem spend_binding:
  assumes "sponge_ok cr"
    and "inj_on (poseidon_sponge cr) {nullifier_input cr kp c i, nullifier_input cr kp' c' i'}"
    and "inj_on (poseidon_sponge cr) {signature_input kp c i, signature_input kp' c' i'}"
    and "inj_on (poseidon_sponge cr) {note_input note, note_input note'}"
  shows "(SpendKeypair_nullifier cr kp c i = SpendKeypair_nullifier cr kp' c' i' \<longleftrightarrow>
      i = i' \<and> residue c = residue c' \<and> residue (kp_privkey kp) = residue (kp_privkey kp')) \<and>
    (Note_commitment cr note = Note_commitment cr note' \<longleftrightarrow>
      nt_amount note = nt_amount note' \<and> residue (nt_recipient note) = residue (nt_recipient note') \<and>
      residue (nt_randomness note) = residue (nt_randomness note') \<and>
      residue (nt_asset_id note) = residue (nt_asset_id note'))"
proof -
  have "SpendKeypair_nullifier cr kp c i = SpendKeypair_nullifier cr kp' c' i' \<longleftrightarrow>
      nullifier_input cr kp c i = nullifier_input cr kp' c' i'"
    unfolding nullifier_sponge [OF assms(1)] fr_to_bytes_32_inject [OF assms(1)]
    by (rule inj_on_pair [OF assms(2)])
  also have "\<dots> \<longleftrightarrow> residue c = residue c' \<and> i = i' \<and> signature_input kp c i = signature_input kp' c' i'"
    unfolding nullifier_input_def using inj_on_pair [OF assms(3)] by (simp add: word_unat_eq_iff)
  finally have "SpendKeypair_nullifier cr kp c i = SpendKeypair_nullifier cr kp' c' i' \<longleftrightarrow>
      residue c = residue c' \<and> i = i' \<and> signature_input kp c i = signature_input kp' c' i'" .
  moreover have "Note_commitment cr note = Note_commitment cr note' \<longleftrightarrow>
      note_input note = note_input note'"
    unfolding note_sponge [OF assms(1)] fr_to_bytes_32_inject [OF assms(1)]
    by (rule inj_on_pair [OF assms(4)])
  ultimately show ?thesis by (auto simp: signature_input_def note_input_def word_unat_eq_iff)
qed

theorem spend_binding_witness:
  "SpendKeypair_nullifier ref_node_crypto (SpendKeypair_from_privkey ref_node_crypto (le_bytes 32 7))
     (le_bytes 32 9) 3 \<noteq>
   SpendKeypair_nullifier ref_node_crypto (SpendKeypair_from_privkey ref_node_crypto (le_bytes 32 7))
     (le_bytes 32 9) 4"
proof -
  let ?kp = "SpendKeypair_from_privkey ref_node_crypto (le_bytes 32 7)"
  have "inj_on (poseidon_sponge ref_node_crypto) {signature_input ?kp (le_bytes 32 9) 3,
      signature_input ?kp (le_bytes 32 9) 4}"
    by (simp add: ref_sponge_def signature_input_def inj_on_def fr_modulus_def SIGNATURE_TAG_def residue_def
        SpendKeypair_from_privkey_def le_val_le_bytes)
  moreover have "inj_on (poseidon_sponge ref_node_crypto)
      {nullifier_input ref_node_crypto ?kp (le_bytes 32 9) 3,
       nullifier_input ref_node_crypto ?kp (le_bytes 32 9) 4}"
    by (simp add: ref_sponge_def nullifier_input_def signature_input_def inj_on_def fr_modulus_def
        SIGNATURE_TAG_def NULLIFIER_TAG_def residue_def SpendKeypair_from_privkey_def le_val_le_bytes)
  ultimately show ?thesis
    using spend_binding [OF ref_sponge_ok, of ?kp "le_bytes 32 9" 3 ?kp "le_bytes 32 9" 4
        "Note_new_native zero32 1 zero32" "Note_new_native zero32 1 zero32"] by simp
qed

end
