(* ===== verification/Pool_Tree.thy ===== *)
theory Pool_Tree
  imports Pool_Storage Spend_Notes
begin

text \<open>
  The node's commitment tree (\<open>privacy/merkle.rs\<close>): all leaves in memory, a cached root, a window
  of recent roots, and an optional persistent store that is written before memory changes. The
  lemmas show that the level-by-level computation is the root of the full tree, that every path
  verifies, and what the cache and the store hold along any sequence of operations.
\<close>

section \<open>The tree\<close>

definition DEFAULT_TREE_DEPTH :: nat where "DEFAULT_TREE_DEPTH = 32"

definition ROOT_HISTORY_LEN :: nat where "ROOT_HISTORY_LEN = 256"

record pool_tree =
  pt_depth :: nat
  pt_leaves :: "bytes32 list"
  pt_cached_root :: "bytes32 option"
  pt_recent_roots :: "bytes32 list"

definition with_depth :: "nat \<Rightarrow> pool_tree" where
  "with_depth depth =
     \<lparr> pt_depth = depth, pt_leaves = [], pt_cached_root = None, pt_recent_roots = [] \<rparr>"

definition new_tree :: pool_tree where
  "new_tree = with_depth DEFAULT_TREE_DEPTH"

definition tree_with_storage :: "'d rocksdb \<Rightarrow> 'd \<Rightarrow> (pool_tree, store_error) result" where
  "tree_with_storage db d =
     and_then (get_all_commitments db d) (\<lambda>leaves.
     and_then (get_merkle_root db d) (\<lambda>cached_root.
     Ok \<lparr> pt_depth = DEFAULT_TREE_DEPTH, pt_leaves = leaves, pt_cached_root = cached_root,
          pt_recent_roots = (case cached_root of Some r \<Rightarrow> [r] | None \<Rightarrow> []) \<rparr>))"

text \<open>Operations take the optional database and return it updated; an error returns nothing, so
  that memory and database are what they were.\<close>

definition persist ::
  "('d \<Rightarrow> ('d, store_error) result) \<Rightarrow> 'd option \<Rightarrow> ('d option, store_error) result" where
  "persist w store = (case store of None \<Rightarrow> Ok None | Some d \<Rightarrow> and_then (w d) (\<lambda>d'. Ok (Some d')))"

definition tree_insert ::
  "'d rocksdb \<Rightarrow> bytes32 \<Rightarrow> pool_tree \<Rightarrow> 'd option \<Rightarrow> (pool_tree \<times> 'd option \<times> nat, store_error) result"
  where
  "tree_insert db commitment t store =
     (let index = length (pt_leaves t) in
      and_then (persist (insert_commitment db (of_nat index) commitment) store) (\<lambda>store'.
      Ok (t\<lparr>pt_leaves := pt_leaves t @ [commitment], pt_cached_root := None\<rparr>, store', index)))"

definition tree_insert_batch ::
  "'d rocksdb \<Rightarrow> bytes32 list \<Rightarrow> pool_tree \<Rightarrow> 'd option
     \<Rightarrow> (pool_tree \<times> 'd option \<times> nat list, store_error) result" where
  "tree_insert_batch db commitments t store =
     (let start_index = length (pt_leaves t);
          indices = [start_index..<start_index + length commitments] in
      and_then (persist (insert_commitments_batch db (of_nat start_index) commitments) store)
        (\<lambda>store'.
      Ok (t\<lparr>pt_leaves := pt_leaves t @ commitments, pt_cached_root := None\<rparr>, store', indices)))"

section \<open>Roots and paths\<close>

definition hash_pair :: "'z node_crypto_scheme \<Rightarrow> bytes32 \<Rightarrow> bytes32 \<Rightarrow> bytes32" where
  "hash_pair cr left right =
     fr_to_bytes_32 cr (poseidon_merkle_pair cr
       (fr_from_le_bytes_mod_order cr left) (fr_from_le_bytes_mod_order cr right))"

primrec empty_subtree_hashes :: "'z node_crypto_scheme \<Rightarrow> nat \<Rightarrow> bytes32 list" where
  "empty_subtree_hashes cr 0 = [zero32]"
| "empty_subtree_hashes cr (Suc k) =
     (let empties = empty_subtree_hashes cr k; prev = empties ! k
      in empties @ [hash_pair cr prev prev])"

definition next_layer :: "'z node_crypto_scheme \<Rightarrow> bytes32 \<Rightarrow> bytes32 list \<Rightarrow> bytes32 list" where
  "next_layer cr e layer =
     map (\<lambda>j. hash_pair cr (get_or e layer (2 * j)) (get_or e layer (2 * j + 1)))
       [0..<(length layer + 1) div 2]"

definition compute_root :: "'z node_crypto_scheme \<Rightarrow> nat \<Rightarrow> bytes32 list \<Rightarrow> bytes32" where
  "compute_root cr depth leaves =
     (let empties = empty_subtree_hashes cr depth in
      if leaves = [] then empties ! depth
      else hd (foldl (\<lambda>layer e. next_layer cr e layer) leaves (take depth empties)))"

fun path_loop ::
  "'z node_crypto_scheme \<Rightarrow> bytes32 list \<Rightarrow> bytes32 list \<Rightarrow> nat \<Rightarrow> bytes32 list \<times> bool list" where
  "path_loop cr [] layer current_index = ([], [])"
| "path_loop cr (e # empties) layer current_index =
     (let is_right_child = (current_index mod 2 = 1);
          sibling_index = (if is_right_child then current_index - 1 else current_index + 1);
          sibling = get_or e layer sibling_index;
          (path, indices) = path_loop cr empties (next_layer cr e layer) (current_index div 2)
      in (sibling # path, (\<not> is_right_child) # indices))"

definition compute_path ::
  "'z node_crypto_scheme \<Rightarrow> nat \<Rightarrow> bytes32 list \<Rightarrow> nat \<Rightarrow> MerklePath" where
  "compute_path cr depth leaves index =
     (let (path, indices) = path_loop cr (take depth (empty_subtree_hashes cr depth)) leaves index
      in \<lparr> mp_path = path, mp_indices = indices \<rparr>)"

text \<open>\<open>root()\<close>: the cached root if there is one; otherwise it is computed, cached, recorded in the
  window and written to the store, whose failure is only logged.\<close>

definition record_root :: "bytes32 \<Rightarrow> bytes32 list \<Rightarrow> bytes32 list" where
  "record_root root recent =
     (if recent \<noteq> [] \<and> last recent = root then recent
      else let recent' = recent @ [root] in drop (length recent' - ROOT_HISTORY_LEN) recent')"

definition tree_root_of ::
  "'z node_crypto_scheme \<Rightarrow> 'd rocksdb \<Rightarrow> pool_tree \<Rightarrow> 'd option \<Rightarrow> bytes32 \<times> pool_tree \<times> 'd option"
  where
  "tree_root_of cr db t store =
     (case pt_cached_root t of
        Some root \<Rightarrow> (root, t, store)
      | None \<Rightarrow>
          let root = compute_root cr (pt_depth t) (pt_leaves t) in
          (root,
           t\<lparr>pt_cached_root := Some root, pt_recent_roots := record_root root (pt_recent_roots t)\<rparr>,
           (case persist (set_merkle_root db root) store of Ok store' \<Rightarrow> store' | Err _ \<Rightarrow> store)))"

definition knows_root ::
  "'z node_crypto_scheme \<Rightarrow> 'd rocksdb \<Rightarrow> bytes32 \<Rightarrow> pool_tree \<Rightarrow> 'd option
     \<Rightarrow> bool \<times> pool_tree \<times> 'd option" where
  "knows_root cr db root t store =
     (let (current, t', store') = tree_root_of cr db t store in
      (current = root \<or> root \<in> set (pt_recent_roots t'), t', store'))"

definition root_after :: "'z node_crypto_scheme \<Rightarrow> bytes32 list \<Rightarrow> pool_tree \<Rightarrow> bytes32" where
  "root_after cr commitments t = compute_root cr (pt_depth t) (pt_leaves t @ commitments)"

fun position :: "('a \<Rightarrow> bool) \<Rightarrow> 'a list \<Rightarrow> nat option" where
  "position P [] = None"
| "position P (x # xs) = (if P x then Some 0 else map_option Suc (position P xs))"

definition index_of :: "bytes32 \<Rightarrow> pool_tree \<Rightarrow> nat option" where
  "index_of commitment t = position (\<lambda>leaf. leaf = commitment) (pt_leaves t)"

definition tree_path :: "'z node_crypto_scheme \<Rightarrow> nat \<Rightarrow> pool_tree \<Rightarrow> MerklePath option" where
  "tree_path cr index t =
     (if index \<ge> length (pt_leaves t) then None
      else Some (compute_path cr (pt_depth t) (pt_leaves t) index))"

definition tree_verify ::
  "'z node_crypto_scheme \<Rightarrow> 'd rocksdb \<Rightarrow> bytes32 \<Rightarrow> MerklePath \<Rightarrow> pool_tree \<Rightarrow> 'd option
     \<Rightarrow> bool \<times> pool_tree \<times> 'd option" where
  "tree_verify cr db leaf p t store =
     (let (root, t', store') = tree_root_of cr db t store
      in (MerklePath_verify cr p leaf root, t', store'))"

section \<open>The computed root is the root of the full tree\<close>

primrec empty_hash :: "'z node_crypto_scheme \<Rightarrow> nat \<Rightarrow> bytes32" where
  "empty_hash cr 0 = zero32"
| "empty_hash cr (Suc k) = hash_pair cr (empty_hash cr k) (empty_hash cr k)"

interpretation pool_hash: merkle_hasher "hash_pair cr" "empty_hash cr" for cr
  by unfold_locales simp

abbreviation pool_level :: "'z node_crypto_scheme \<Rightarrow> nat \<Rightarrow> bytes32 list \<Rightarrow> bytes32 list" where
  "pool_level cr \<equiv> tree_level (hash_pair cr) (empty_hash cr)"

abbreviation pool_root :: "'z node_crypto_scheme \<Rightarrow> nat \<Rightarrow> bytes32 list \<Rightarrow> bytes32" where
  "pool_root cr \<equiv> tree_root (hash_pair cr) (empty_hash cr)"

lemma empty_subtree_hashes_map: "empty_subtree_hashes cr d = map (empty_hash cr) [0..<Suc d]"
proof (induction d)
  case (Suc d)
  then have "empty_subtree_hashes cr d ! d = empty_hash cr d" by (simp del: upt_Suc)
  then show ?case using Suc by (simp add: Let_def)
qed simp

lemma empties_used: "take d (empty_subtree_hashes cr d) = map (empty_hash cr) [0..<d]"
  by (simp add: empty_subtree_hashes_map)

lemma next_layer_pair_up: "next_layer cr e layer = pair_up (hash_pair cr) e layer"
  by (simp add: next_layer_def pair_up_conv_map)

lemma fold_layers:
  "foldl (\<lambda>layer e. next_layer cr e layer) leaves (map (empty_hash cr) [0..<d]) = pool_level cr d leaves"
  by (induction d) (simp_all add: next_layer_pair_up)

lemma compute_root_tree: "compute_root cr d leaves = pool_root cr d leaves"
proof (cases leaves)
  case Nil
  have "empty_subtree_hashes cr d ! d = empty_hash cr d"
    unfolding empty_subtree_hashes_map by (subst nth_map) (simp_all del: upt_Suc)
  then show ?thesis using Nil by (simp add: compute_root_def Let_def)
next
  case (Cons x xs)
  have "0 < length (pool_level cr d leaves)"
    using tree_level_index [of 0 leaves d "hash_pair cr" "empty_hash cr"] Cons by simp
  then show ?thesis
    using Cons by (auto simp: compute_root_def Let_def empties_used fold_layers tree_root_def
        split: list.splits)
qed

section \<open>Every path verifies\<close>

lemma path_fold_step:
  "path_fold cr ((sibling, is_right) # rest) current =
     path_fold cr rest (if is_right then hash_pair cr current sibling else hash_pair cr sibling current)"
  by (simp add: hash_pair_def Let_def)

lemma path_loop_climbs:
  assumes "i < length (pool_level cr k xs)"
  shows "(case path_loop cr (map (empty_hash cr) [k..<k + n]) (pool_level cr k xs) i of (path, indices) \<Rightarrow>
      length path = n \<and> length indices = n \<and>
      path_fold cr (zip path indices) (pool_level cr k xs ! i) =
        pool_level cr (k + n) xs ! (i div 2 ^ n))"
  using assms
proof (induction n arbitrary: k i)
  case (Suc n)
  let ?l = "pool_level cr k xs"
  have up: "next_layer cr (empty_hash cr k) ?l = pool_level cr (Suc k) xs"
    by (simp add: next_layer_pair_up)
  have "i div 2 < length (pool_level cr (Suc k) xs)" using Suc.prems by auto
  note IH = Suc.IH [OF this]
  obtain path indices where p: "path_loop cr (map (empty_hash cr) [Suc k..<Suc k + n])
      (pool_level cr (Suc k) xs) (i div 2) = (path, indices)" by force
  have "[k..<k + Suc n] = k # [Suc k..<Suc k + n]" by (simp add: upt_rec)
  then have loop: "path_loop cr (map (empty_hash cr) [k..<k + Suc n]) ?l i =
      (get_or (empty_hash cr k) ?l (sibling_index i) # path, even i # indices)"
    using p up by (simp add: sibling_index_def odd_iff_mod_2_eq_one even_iff_mod_2_eq_zero Let_def)
  have step: "pool_level cr (Suc k) xs ! (i div 2) =
      (if even i then hash_pair cr (?l ! i) (get_or (empty_hash cr k) ?l (sibling_index i))
       else hash_pair cr (get_or (empty_hash cr k) ?l (sibling_index i)) (?l ! i))"
    using tree_level_step [OF Suc.prems] by simp
  have "i div 2 ^ Suc n = i div 2 div 2 ^ n" by (simp add: div_mult2_eq)
  then show ?case
    using IH p unfolding loop
    by (simp add: path_fold_step step [symmetric] del: tree_level.simps path_fold.simps)
qed simp

lemma path_verifies:
  assumes "i < length leaves" and "length leaves \<le> 2 ^ d"
  shows "MerklePath_verify cr (compute_path cr d leaves i) (leaves ! i) (compute_root cr d leaves)"
proof -
  obtain path indices where p: "path_loop cr (map (empty_hash cr) [0..<d]) leaves i = (path, indices)"
    by force
  then have "length path = d" "length indices = d"
    "path_fold cr (zip path indices) (leaves ! i) = pool_level cr d leaves ! (i div 2 ^ d)"
    using path_loop_climbs [of i cr 0 leaves d] assms(1) by simp_all
  then show ?thesis
    using p tree_root_conv_nth [OF assms, of "hash_pair cr" "empty_hash cr"]
    by (simp add: compute_path_def empties_used MerklePath_verify_def compute_root_tree)
qed

section \<open>The cache and the window of roots\<close>

text \<open>The cache is empty or right, and every recent root is the root of a prefix of the leaves.\<close>

definition prefix_root :: "'z node_crypto_scheme \<Rightarrow> nat \<Rightarrow> bytes32 list \<Rightarrow> bytes32 \<Rightarrow> bool" where
  "prefix_root cr d xs r \<longleftrightarrow> (\<exists>n \<le> length xs. r = compute_root cr d (take n xs))"

definition tree_ok :: "'z node_crypto_scheme \<Rightarrow> pool_tree \<Rightarrow> bool" where
  "tree_ok cr t \<longleftrightarrow>
     pt_cached_root t \<in> {None, Some (compute_root cr (pt_depth t) (pt_leaves t))} \<and>
     list_all (prefix_root cr (pt_depth t) (pt_leaves t)) (pt_recent_roots t) \<and>
     length (pt_recent_roots t) \<le> ROOT_HISTORY_LEN"

lemma tree_ok_new: "tree_ok cr (with_depth d)"
  by (simp add: tree_ok_def with_depth_def)

lemma prefix_root_append: "prefix_root cr d xs r \<Longrightarrow> prefix_root cr d (xs @ ys) r"
  unfolding prefix_root_def by (metis append_take_drop_id length_append take_append trans_le_add1 diff_is_0_eq take_0 append_Nil2)

lemma prefix_root_whole: "prefix_root cr d xs (compute_root cr d xs)"
  unfolding prefix_root_def by (rule exI [of _ "length xs"]) simp

lemma tree_ok_extend:
  "tree_ok cr t \<Longrightarrow> tree_ok cr (t\<lparr>pt_leaves := pt_leaves t @ cs, pt_cached_root := None\<rparr>)"
  by (simp add: tree_ok_def list_all_iff prefix_root_append)

lemma tree_insert_Ok:
  "tree_insert db c t store = Ok (t', store', i) \<longleftrightarrow>
     i = length (pt_leaves t) \<and> t' = t\<lparr>pt_leaves := pt_leaves t @ [c], pt_cached_root := None\<rparr> \<and>
     persist (insert_commitment db (of_nat i) c) store = Ok store'"
  by (auto simp: tree_insert_def Let_def and_then_eq_Ok)

lemma tree_insert_batch_Ok:
  "tree_insert_batch db cs t store = Ok (t', store', is) \<longleftrightarrow>
     is = [length (pt_leaves t)..<length (pt_leaves t) + length cs] \<and>
     t' = t\<lparr>pt_leaves := pt_leaves t @ cs, pt_cached_root := None\<rparr> \<and>
     persist (insert_commitments_batch db (of_nat (length (pt_leaves t))) cs) store = Ok store'"
  by (auto simp: tree_insert_batch_def Let_def and_then_eq_Ok)

lemma tree_insert_ok: "tree_ok cr t \<Longrightarrow> tree_insert db c t store = Ok (t', store', i) \<Longrightarrow> tree_ok cr t'"
  by (auto simp: tree_insert_Ok intro: tree_ok_extend)

lemma tree_insert_batch_ok:
  "tree_ok cr t \<Longrightarrow> tree_insert_batch db cs t store = Ok (t', store', is) \<Longrightarrow> tree_ok cr t'"
  by (auto simp: tree_insert_batch_Ok intro: tree_ok_extend)

lemma record_root_all:
  "list_all P recent \<Longrightarrow> P r \<Longrightarrow> list_all P (record_root r recent)"
  "length recent \<le> ROOT_HISTORY_LEN \<Longrightarrow> length (record_root r recent) \<le> ROOT_HISTORY_LEN"
  by (auto simp: record_root_def Let_def list_all_iff dest: in_set_dropD)

lemma tree_root_of_ok:
  assumes "tree_ok cr t" and "tree_root_of cr db t store = (r, t', store')"
  shows "r = compute_root cr (pt_depth t) (pt_leaves t)" and "tree_ok cr t'"
    and "pt_leaves t' = pt_leaves t" and "pt_depth t' = pt_depth t" and "pt_cached_root t' = Some r"
proof -
  let ?r = "compute_root cr (pt_depth t) (pt_leaves t)"
  have cases: "pt_cached_root t = Some ?r \<and> r = ?r \<and> t' = t \<or> pt_cached_root t = None \<and> r = ?r \<and>
      t' = t\<lparr>pt_cached_root := Some r, pt_recent_roots := record_root r (pt_recent_roots t)\<rparr>"
    using assms by (cases "pt_cached_root t") (auto simp: tree_root_of_def tree_ok_def Let_def)
  then show "r = ?r" "pt_leaves t' = pt_leaves t" "pt_depth t' = pt_depth t" "pt_cached_root t' = Some r"
    by auto
  show "tree_ok cr t'"
    using cases assms(1) by (auto simp: tree_ok_def record_root_all prefix_root_whole)
qed

lemma knows_root_sound:
  assumes "tree_ok cr t" and "knows_root cr db r t store = (True, t', store')"
  shows "prefix_root cr (pt_depth t) (pt_leaves t) r"
proof -
  obtain cur where root: "tree_root_of cr db t store = (cur, t', store')"
    and r: "r = cur \<or> r \<in> set (pt_recent_roots t')"
    using assms(2) by (auto simp: knows_root_def split: prod.splits)
  note ok = tree_root_of_ok [OF assms(1) root]
  from r show ?thesis using ok by (auto simp: tree_ok_def list_all_iff prefix_root_whole)
qed

section \<open>The persistent copy\<close>

text \<open>The database holds exactly the leaves in memory.\<close>

definition synced :: "'d view \<Rightarrow> pool_tree \<Rightarrow> 'd \<Rightarrow> bool" where
  "synced view t d \<longleftrightarrow> holds_leaves (view d CF_MERKLE_TREE) (pt_leaves t)"

lemma persist_Some: "persist w (Some d) = Ok store' \<longleftrightarrow> (\<exists>d'. w d = Ok d' \<and> store' = Some d')"
  by (auto simp: persist_def and_then_eq_Ok)

lemma tree_insert_synced:
  assumes "rocksdb_ok db view" and "synced view t d" and "length c = 32"
    and "length (pt_leaves t) + 1 < 2 ^ 64" and "tree_insert db c t (Some d) = Ok (t', store', i)"
  shows "\<exists>d'. store' = Some d' \<and> synced view t' d' \<and> view d' CF_POOL_STATE = view d CF_POOL_STATE"
proof -
  obtain d' where d': "insert_commitment db (of_nat (length (pt_leaves t))) c d = Ok d'" "store' = Some d'"
    "pt_leaves t' = pt_leaves t @ [c]"
    using assms(5) by (auto simp: tree_insert_Ok persist_Some)
  from insert_commitment_leaves [OF assms(1) assms(2) [unfolded synced_def] assms(3,4) d'(1)] d'
  show ?thesis by (simp add: synced_def)
qed

lemma tree_insert_batch_synced:
  assumes "rocksdb_ok db view" and "synced view t d" and "\<forall>c\<in>set cs. length c = 32"
    and "length (pt_leaves t) + length cs < 2 ^ 64"
    and "tree_insert_batch db cs t (Some d) = Ok (t', store', is)"
  shows "\<exists>d'. store' = Some d' \<and> synced view t' d'"
proof -
  obtain d' where d': "insert_commitments_batch db (of_nat (length (pt_leaves t))) cs d = Ok d'"
    "store' = Some d'" "pt_leaves t' = pt_leaves t @ cs"
    using assms(5) by (auto simp: tree_insert_batch_Ok persist_Some)
  from insert_commitments_batch_leaves [OF assms(1) assms(2) [unfolded synced_def] assms(3,4) d'(1)] d'
  show ?thesis by (simp add: synced_def)
qed

text \<open>A root that was computed and could be written is the persisted root; inserting leaves does not
  touch it.\<close>

lemma tree_root_of_persists:
  assumes "rocksdb_ok db view" and "pt_cached_root t = None"
    and "tree_root_of cr db t (Some d) = (r, t', store')"
    and "set_merkle_root db r d = Ok d'"
  shows "store' = Some d'" and "view d' CF_POOL_STATE merkle_root_key = Some r"
    and "view d' CF_MERKLE_TREE = view d CF_MERKLE_TREE"
proof -
  have put: "put_cf db CF_POOL_STATE merkle_root_key r d = Some d'"
    using assms(4) by (auto simp: set_merkle_root_def and_then_eq_Ok ok_or_eq_Ok)
  show "store' = Some d'"
    using assms(2-4) by (auto simp: tree_root_of_def Let_def persist_def)
  show "view d' CF_POOL_STATE merkle_root_key = Some r"
    "view d' CF_MERKLE_TREE = view d CF_MERKLE_TREE"
    using rocksdb_putD(1) [OF assms(1) put] by (simp_all add: put_entry_def)
qed

text \<open>What a restart loads, when the database answers.\<close>

definition readable :: "'d rocksdb \<Rightarrow> 'd \<Rightarrow> bool" where
  "readable db d \<longleftrightarrow> (\<forall>c. cf_handle db c d) \<and> (\<forall>c k. get_cf db c k d \<noteq> None) \<and>
     (\<forall>c. \<exists>es. iterator_cf db c d = map Some es) \<and>
     (\<forall>c p. \<exists>es. prefix_iterator_cf db c p d = map Some es)"

lemma tree_restart:
  assumes "rocksdb_ok db view" and "synced view t d" and "readable db d"
    and "\<forall>r. view d CF_POOL_STATE merkle_root_key = Some r \<longrightarrow> length r = 32"
  shows "\<exists>t'. tree_with_storage db d = Ok t' \<and> pt_leaves t' = pt_leaves t \<and>
    pt_depth t' = DEFAULT_TREE_DEPTH \<and>
    pt_cached_root t' = view d CF_POOL_STATE merkle_root_key"
proof -
  obtain es where it: "iterator_cf db CF_MERKLE_TREE d = map Some es"
    using assms(3) unfolding readable_def by blast
  have "get_all_commitments db d = Ok (pt_leaves t)"
    using get_all_commitments_leaves [OF assms(1) assms(2) [unfolded synced_def] _ it] assms(3)
    by (simp add: readable_def)
  moreover obtain r where r: "get_cf db CF_POOL_STATE merkle_root_key d = Some r"
    "r = view d CF_POOL_STATE merkle_root_key"
    using assms(3) rocksdb_getD [OF assms(1)] unfolding readable_def by blast
  then have "get_merkle_root db d = Ok r"
    using assms(3,4) by (auto simp: get_merkle_root_def with_cf_def readable_def split: option.splits)
  ultimately show ?thesis using r(2) by (simp add: tree_with_storage_def)
qed

section \<open>The contract of the tree\<close>

definition pool_repr :: "'z node_crypto_scheme \<Rightarrow> nat \<Rightarrow> pool_tree \<Rightarrow> bytes32 list \<Rightarrow> bool" where
  "pool_repr cr d t xs \<longleftrightarrow> tree_ok cr t \<and> pt_depth t = d \<and> pt_leaves t = xs"

definition append_pool :: "'d rocksdb \<Rightarrow> bytes32 \<Rightarrow> pool_tree \<Rightarrow> pool_tree option" where
  "append_pool db c t = (case tree_insert db c t None of Ok (t', _, _) \<Rightarrow> Some t' | Err _ \<Rightarrow> None)"

definition memory_root :: "'z node_crypto_scheme \<Rightarrow> 'd rocksdb \<Rightarrow> pool_tree \<Rightarrow> bytes32" where
  "memory_root cr db t = fst (tree_root_of cr db t None)"

interpretation memory_tree: accumulator "pool_repr cr d" "append_pool db" "memory_root cr db"
    "compute_root cr d"
  for cr :: "'z node_crypto_scheme" and d and db :: "'d rocksdb"
proof
  fix t xs x t'
  assume "pool_repr cr d t xs" "append_pool db x t = Some t'"
  moreover have "tree_insert db x t None =
      Ok (t\<lparr>pt_leaves := pt_leaves t @ [x], pt_cached_root := None\<rparr>, None, length (pt_leaves t))"
    by (simp add: tree_insert_def persist_def Let_def)
  ultimately show "pool_repr cr d t' (xs @ [x])"
    by (auto simp: pool_repr_def append_pool_def intro: tree_ok_extend)
next
  fix t xs
  assume "pool_repr cr d t xs"
  then show "memory_root cr db t = compute_root cr d xs"
    using tree_root_of_ok(1) [of cr t db None] by (cases "tree_root_of cr db t None")
      (auto simp: pool_repr_def memory_root_def)
qed

section \<open>Properties\<close>


text \<open>The post-settlement root is predicted exactly: \<open>root_after\<close> for a list of commitments is
  the root that the tree reports after they are inserted, and it is the root of the complete tree
  over all leaves with zero leaves in the unused positions.\<close>

theorem root_after_predicts:
  assumes "tree_ok cr t" and "tree_insert_batch db cs t store = Ok (t', store', is)"
    and "length (pt_leaves t) + length cs \<le> 2 ^ pt_depth t"
  shows "fst (tree_root_of cr db t' store') = root_after cr cs t \<and>
    root_after cr cs t =
      full_root (hash_pair cr) (pt_depth t) (get_or zero32 (pt_leaves t @ cs))"
proof -
  obtain r t'' store'' where r: "tree_root_of cr db t' store' = (r, t'', store'')" by (metis prod_cases3)
  have "pt_leaves t' = pt_leaves t @ cs" "pt_depth t' = pt_depth t"
    using assms(2) by (auto simp: tree_insert_batch_Ok)
  then show ?thesis
    using tree_root_of_ok(1) [OF tree_insert_batch_ok [OF assms(1,2)] r] r assms(3)
      pool_hash.tree_root_full [of "pt_leaves t @ cs" "pt_depth t" cr]
    by (simp add: root_after_def compute_root_tree)
qed

text \<open>C25. A restart can serve an outdated root: once a root was computed and persisted, a leaf that
  is inserted afterwards is reloaded by \<open>with_storage\<close>, but the reloaded tree reports the old root,
  because the persisted root is taken as the cache although it no longer belongs to the leaves.\<close>

theorem restart_serves_stale_root:
  assumes "rocksdb_ok db view" and "synced view t d" and "pt_cached_root t = None" and "tree_ok cr t"
    and "tree_root_of cr db t (Some d) = (old_root, t1, Some d1)"
    and "set_merkle_root db old_root d = Ok d1" and "length old_root = 32"
    and "tree_insert db c t1 (Some d1) = Ok (t2, Some d2, i)" and "readable db d2"
    and "length c = 32" and "length (pt_leaves t) + 1 < 2 ^ 64"
  shows "\<exists>t3. tree_with_storage db d2 = Ok t3 \<and> pt_leaves t3 = pt_leaves t @ [c] \<and>
    fst (tree_root_of cr db t3 (Some d2)) = compute_root cr (pt_depth t) (pt_leaves t)"
proof -
  note p = tree_root_of_persists [OF assms(1,3,5,6)]
  note ok = tree_root_of_ok [OF assms(4,5)]
  have s1: "synced view t1 d1" using assms(2) p(3) ok(3) by (simp add: synced_def)
  have "length (pt_leaves t1) + 1 < 2 ^ 64" using assms(11) ok(3) by simp
  from tree_insert_synced [OF assms(1) s1 assms(10) this assms(8)]
  have s2: "synced view t2 d2" "view d2 CF_POOL_STATE = view d1 CF_POOL_STATE" by auto
  then have "view d2 CF_POOL_STATE merkle_root_key = Some old_root" using p(2) by simp
  then obtain t3 where "tree_with_storage db d2 = Ok t3" "pt_leaves t3 = pt_leaves t2"
    "pt_cached_root t3 = Some old_root"
    using tree_restart [OF assms(1) s2(1) assms(9)] assms(7) by auto
  moreover have "pt_leaves t2 = pt_leaves t @ [c]" using assms(8) ok(3) by (auto simp: tree_insert_Ok)
  ultimately show ?thesis using ok(1) by (auto simp: tree_root_of_def)
qed

section \<open>Examples\<close>

definition example_pool_tree :: pool_tree where
  "example_pool_tree = (with_depth 2)\<lparr>pt_leaves := [le_bytes 32 5, le_bytes 32 6, le_bytes 32 7]\<rparr>"

lemma example_pool_tree_ok: "tree_ok cr example_pool_tree"
  by (simp add: example_pool_tree_def tree_ok_def with_depth_def)


theorem root_after_predicts_witness:
  "\<exists>t' store' is. tree_insert_batch ref_rocksdb [le_bytes 32 8] example_pool_tree (Some (\<lambda>_. [])) =
      Ok (t', store', is) \<and>
    fst (tree_root_of ref_node_crypto ref_rocksdb t' store') =
      root_after ref_node_crypto [le_bytes 32 8] example_pool_tree"
proof -
  obtain t' store' "is" where ins: "tree_insert_batch ref_rocksdb [le_bytes 32 8] example_pool_tree
      (Some (\<lambda>_. [])) = Ok (t', store', is)"
    by (simp add: tree_insert_batch_def persist_def insert_commitments_batch_def with_cf_def
        checked_add_def example_pool_tree_def with_depth_def Let_def)
  from root_after_predicts [OF example_pool_tree_ok [of ref_node_crypto] this] ins show ?thesis
    by (simp add: example_pool_tree_def with_depth_def)
qed

lemma mod_add_cancel_less:
  fixes a b c p :: nat
  assumes "(a + c) mod p = (b + c) mod p" and "a < p" and "b < p"
  shows "a = b"
  using assms
proof (induction a b rule: linorder_wlog)
  case (le a b)
  then have "p dvd b - a" using mod_eq_dvd_iff_nat [of "a + c" "b + c" p] by simp
  then show ?case using le by (auto dest: dvd_imp_le)
qed simp

lemma ref_hash_pair:
  "hash_pair ref_node_crypto l r = le_bytes 32 ((3 + residue l + 2 * residue r) mod fr_modulus)"
  using sponge_okD(3) [OF ref_sponge_ok]
  by (simp add: hash_pair_def poseidon_merkle_pair_def poseidon_hash_fields_def ref_sponge_def
      MERKLE_PAIR_TAG_def residue_def)

lemma residue_le_bytes: "x < fr_modulus \<Longrightarrow> residue (le_bytes 32 x) = x"
  by (simp add: residue_def le_val_le_bytes_field)

lemma length_empty_hash: "length (empty_hash cr k) = 32"
  by (cases k) (simp_all add: hash_pair_def fr_to_bytes_32_length)

lemma tree_ok_new_tree: "tree_ok cr new_tree"
  by (simp add: new_tree_def tree_ok_new)

lemma ref_root_changes:
  assumes "residue x \<noteq> 0"
  shows "compute_root ref_node_crypto d [x] \<noteq> compute_root ref_node_crypto d []"
proof -
  let ?s = "\<lambda>k. spine (hash_pair ref_node_crypto) (empty_hash ref_node_crypto) k [] x"
  have "residue (?s k) \<noteq> residue (empty_hash ref_node_crypto k)" for k
  proof (induction k)
    case 0
    have "residue zero32 = 0" by (simp add: residue_def zero32_def le_val_replicate_0)
    then show ?case using assms by simp
  next
    case (Suc k)
    let ?a = "residue (?s k)" and ?b = "residue (empty_hash ref_node_crypto k)"
    have "?a < fr_modulus" "?b < fr_modulus" by (simp_all add: residue_def)
    then have "(?a + (3 + 2 * ?b)) mod fr_modulus \<noteq> (?b + (3 + 2 * ?b)) mod fr_modulus"
      using mod_add_cancel_less [of ?a "3 + 2 * ?b" fr_modulus ?b] Suc by blast
    moreover have "residue (hash_pair ref_node_crypto l r) = (residue l + (3 + 2 * residue r)) mod fr_modulus"
      for l r by (simp add: ref_hash_pair residue_le_bytes algebra_simps)
    moreover have "?s (Suc k) = hash_pair ref_node_crypto (?s k) (empty_hash ref_node_crypto k)"
      by (simp add: Let_def)
    ultimately show ?case by simp
  qed
  from this [of d] show ?thesis
    using tree_root_snoc [of "[]" d "hash_pair ref_node_crypto" "empty_hash ref_node_crypto" x]
    by (auto simp: compute_root_tree)
qed

theorem restart_serves_stale_root_witness:
  "\<exists>d2 t3. tree_with_storage ref_rocksdb d2 = Ok t3 \<and> pt_leaves t3 = [le_bytes 32 9] \<and>
     fst (tree_root_of ref_node_crypto ref_rocksdb t3 (Some d2)) \<noteq>
       compute_root ref_node_crypto DEFAULT_TREE_DEPTH (pt_leaves t3)"
proof -
  let ?c = "le_bytes 32 9" and ?r = "compute_root ref_node_crypto DEFAULT_TREE_DEPTH []"
  let ?d = "\<lambda>_. [] :: (bytes \<times> bytes) list"
  let ?d1 = "ref_put ?d (CF_POOL_STATE, merkle_root_key, ?r)"
  let ?t1 = "new_tree\<lparr>pt_cached_root := Some ?r, pt_recent_roots := record_root ?r []\<rparr>"
  have root: "tree_root_of ref_node_crypto ref_rocksdb new_tree (Some ?d) = (?r, ?t1, Some ?d1)"
    by (simp add: tree_root_of_def new_tree_def with_depth_def persist_def set_merkle_root_def
        with_cf_def Let_def)
  have set: "set_merkle_root ref_rocksdb ?r ?d = Ok ?d1" by (simp add: set_merkle_root_def with_cf_def)
  obtain t2 d2 i where ins: "tree_insert ref_rocksdb ?c ?t1 (Some ?d1) = Ok (t2, Some d2, i)"
    by (simp add: tree_insert_def persist_def insert_commitment_def with_cf_def Let_def)
  have len: "length ?r = 32"
    by (simp add: compute_root_tree length_empty_hash)
  have read: "readable ref_rocksdb d2" by (auto simp: readable_def ref_rocksdb_def)
  have sync: "synced ref_view new_tree ?d"
    by (simp add: synced_def new_tree_def with_depth_def holds_leaves_def ref_view_def)
  obtain t3 where t3: "tree_with_storage ref_rocksdb d2 = Ok t3" "pt_leaves t3 = [?c]"
    "fst (tree_root_of ref_node_crypto ref_rocksdb t3 (Some d2)) = ?r"
    using restart_serves_stale_root [OF ref_rocksdb_ok sync _ tree_ok_new_tree
        root set len ins read] by (auto simp: new_tree_def with_depth_def)
  moreover have "residue ?c \<noteq> 0" by (simp add: residue_le_bytes fr_modulus_def)
  ultimately show ?thesis using ref_root_changes [of ?c DEFAULT_TREE_DEPTH] by fastforce
qed

end
