(* ===== verification/Shielded_Pool.thy ===== *)
theory Shielded_Pool
  imports Pool_Tree Spent_Set
begin

text \<open>
  The node's view of the pool (\<open>privacy/nullifier.rs\<close>, \<open>privacy/pool.rs\<close>): the set of spent
  nullifiers and the pool that combines it with the commitment tree, the credited deposits, the
  notes and the per-asset supplies. Operations whose errors leave a changed pool behind return the
  pool together with the result.
\<close>

section \<open>The nullifier set\<close>

type_synonym nullifier_set = "bytes32 set"

definition nullifier_set_with_storage ::
  "'d rocksdb \<Rightarrow> 'd \<Rightarrow> (nullifier_set, store_error) result" where
  "nullifier_set_with_storage db d = and_then (get_all_nullifiers db d) (\<lambda>ns. Ok (set ns))"

definition nullifier_contains :: "bytes32 \<Rightarrow> nullifier_set \<Rightarrow> bool" where
  "nullifier_contains n S \<longleftrightarrow> n \<in> S"

definition nullifier_insert ::
  "'d rocksdb \<Rightarrow> bytes32 \<Rightarrow> nullifier_set \<Rightarrow> 'd option
     \<Rightarrow> (nullifier_set \<times> 'd option \<times> bool, store_error) result" where
  "nullifier_insert db n S store =
     (if nullifier_contains n S then Ok (S, store, False)
      else and_then (persist (insert_nullifier db n) store) (\<lambda>store'.
           Ok (insert n S, store', True)))"

definition check_batch :: "bytes32 list \<Rightarrow> nullifier_set \<Rightarrow> bool" where
  "check_batch ns S \<longleftrightarrow> list_all (\<lambda>n. \<not> nullifier_contains n S) ns"

definition nullifier_insert_batch ::
  "'d rocksdb \<Rightarrow> bytes32 list \<Rightarrow> nullifier_set \<Rightarrow> 'd option
     \<Rightarrow> (nullifier_set \<times> 'd option \<times> nat, store_error) result" where
  "nullifier_insert_batch db nullifiers S store =
     (let new_nullifiers = filter (\<lambda>n. \<not> nullifier_contains n S) nullifiers in
      if new_nullifiers = [] then Ok (S, store, 0)
      else and_then (persist (insert_nullifiers_batch db new_nullifiers) store) (\<lambda>store'.
           Ok (foldl (\<lambda>S n. insert n S) S new_nullifiers, store', length new_nullifiers)))"

section \<open>The pool\<close>

record shielded_pool =
  sp_tree :: pool_tree
  sp_nullifiers :: nullifier_set
  sp_deposited :: "bytes32 set"
  sp_notes :: "bytes32 \<rightharpoonup> Note"
  sp_supplies :: "asset_id \<rightharpoonup> u64"

definition new_pool :: shielded_pool where
  "new_pool = \<lparr> sp_tree = new_tree, sp_nullifiers = {}, sp_deposited = {}, sp_notes = Map.empty,
     sp_supplies = Map.empty \<rparr>"

definition pool_with_storage :: "'d rocksdb \<Rightarrow> 'd \<Rightarrow> (shielded_pool, store_error) result" where
  "pool_with_storage db d =
     and_then (tree_with_storage db d) (\<lambda>tree.
     and_then (nullifier_set_with_storage db d) (\<lambda>nullifiers.
     and_then (get_all_asset_supplies db d) (\<lambda>supplies.
     and_then (get_all_commitments db d) (\<lambda>commitments.
     Ok \<lparr> sp_tree = tree, sp_nullifiers = nullifiers, sp_deposited = set commitments,
          sp_notes = Map.empty, sp_supplies = supplies \<rparr>))))"

definition supply_of :: "asset_id \<Rightarrow> shielded_pool \<Rightarrow> u64" where
  "supply_of asset p = (case sp_supplies p asset of Some v \<Rightarrow> v | None \<Rightarrow> 0)"

definition total_supply :: "shielded_pool \<Rightarrow> u64" where
  "total_supply p = supply_of native_asset_id p"

text \<open>\<open>*supply += amount\<close> panics on overflow; the leaf is in by then.\<close>

definition credit_commitment ::
  "'d rocksdb \<Rightarrow> bytes32 \<Rightarrow> Note \<Rightarrow> u64 \<Rightarrow> asset_id \<Rightarrow> shielded_pool \<Rightarrow> 'd option
     \<Rightarrow> shielded_pool \<times> 'd option \<times> (bytes32, store_error) result" where
  "credit_commitment db commitment note amount asset p store =
     (if commitment \<in> sp_deposited p then (p, store, Ok commitment)
      else case tree_insert db commitment (sp_tree p) store of
        Err e \<Rightarrow> (p, store, Err e)
      | Ok (tree, store1, _) \<Rightarrow>
          let p1 = p\<lparr>sp_tree := tree, sp_deposited := insert commitment (sp_deposited p),
                     sp_notes := (sp_notes p)(commitment \<mapsto> note)\<rparr> in
          case checked_add (supply_of asset p1) amount of
            None \<Rightarrow> (p1, store1, Err Overflow)
          | Some supply \<Rightarrow>
              let p2 = p1\<lparr>sp_supplies := (sp_supplies p1)(asset \<mapsto> supply)\<rparr> in
              case persist (set_asset_supply db asset supply) store1 of
                Err e \<Rightarrow> (p2, store1, Err e)
              | Ok store2 \<Rightarrow> (p2, store2, Ok commitment))"

definition deposit_asset ::
  "'z node_crypto_scheme \<Rightarrow> 'd rocksdb \<Rightarrow> Note \<Rightarrow> u64 \<Rightarrow> asset_id \<Rightarrow> shielded_pool \<Rightarrow> 'd option
     \<Rightarrow> shielded_pool \<times> 'd option \<times> (bytes32, store_error) result" where
  "deposit_asset cr db note amount asset p store =
     credit_commitment db (Note_commitment cr note) note amount asset p store"

definition pool_deposit ::
  "'z node_crypto_scheme \<Rightarrow> 'd rocksdb \<Rightarrow> Note \<Rightarrow> u64 \<Rightarrow> shielded_pool \<Rightarrow> 'd option
     \<Rightarrow> shielded_pool \<times> 'd option \<times> (bytes32, store_error) result" where
  "pool_deposit cr db note amount p store =
     deposit_asset cr db note amount native_asset_id p store"

definition pool_root_of ::
  "'z node_crypto_scheme \<Rightarrow> 'd rocksdb \<Rightarrow> shielded_pool \<Rightarrow> 'd option
     \<Rightarrow> bytes32 \<times> shielded_pool \<times> 'd option" where
  "pool_root_of cr db p store =
     (let (root, tree, store') = tree_root_of cr db (sp_tree p) store
      in (root, p\<lparr>sp_tree := tree\<rparr>, store'))"

definition pool_knows_root ::
  "'z node_crypto_scheme \<Rightarrow> 'd rocksdb \<Rightarrow> bytes32 \<Rightarrow> shielded_pool \<Rightarrow> 'd option
     \<Rightarrow> bool \<times> shielded_pool \<times> 'd option" where
  "pool_knows_root cr db root p store =
     (let (known, tree, store') = knows_root cr db root (sp_tree p) store
      in (known, p\<lparr>sp_tree := tree\<rparr>, store'))"

definition pool_root_after :: "'z node_crypto_scheme \<Rightarrow> bytes32 list \<Rightarrow> shielded_pool \<Rightarrow> bytes32" where
  "pool_root_after cr commitments p = root_after cr commitments (sp_tree p)"

datatype pool_error = CommitmentNotFound | IndexOutOfRange | MoreNullifiersThanCommitments

definition pool_path ::
  "'z node_crypto_scheme \<Rightarrow> bytes32 \<Rightarrow> shielded_pool \<Rightarrow> (MerklePath, pool_error) result" where
  "pool_path cr commitment p =
     and_then (ok_or (index_of commitment (sp_tree p)) CommitmentNotFound) (\<lambda>index.
     ok_or (tree_path cr index (sp_tree p)) IndexOutOfRange)"

definition is_spent :: "bytes32 \<Rightarrow> shielded_pool \<Rightarrow> bool" where
  "is_spent n p = nullifier_contains n (sp_nullifiers p)"

text \<open>A nullifier whose write fails is skipped; the error is only logged.\<close>

fun record_spent_loop ::
  "'d rocksdb \<Rightarrow> bytes32 list \<Rightarrow> shielded_pool \<Rightarrow> 'd option \<Rightarrow> shielded_pool \<times> 'd option" where
  "record_spent_loop db [] p store = (p, store)"
| "record_spent_loop db (n # ns) p store =
     (case nullifier_insert db n (sp_nullifiers p) store of
        Ok (S, store', _) \<Rightarrow> record_spent_loop db ns (p\<lparr>sp_nullifiers := S\<rparr>) store'
      | Err e \<Rightarrow> record_spent_loop db ns p store)"

definition record_spent ::
  "'d rocksdb \<Rightarrow> bytes32 \<times> bytes32 \<Rightarrow> shielded_pool \<Rightarrow> 'd option \<Rightarrow> shielded_pool \<times> 'd option" where
  "record_spent db nullifiers p store =
     (case nullifiers of (n0, n1) \<Rightarrow> record_spent_loop db [n0, n1] p store)"

definition all_supplies :: "shielded_pool \<Rightarrow> asset_id \<rightharpoonup> u64" where
  "all_supplies p = sp_supplies p"

definition pool_commitment_count :: "shielded_pool \<Rightarrow> nat" where
  "pool_commitment_count p = length (pt_leaves (sp_tree p))"

definition spent_count :: "shielded_pool \<Rightarrow> nat" where
  "spent_count p = card (sp_nullifiers p)"

definition get_note :: "bytes32 \<Rightarrow> shielded_pool \<Rightarrow> Note option" where
  "get_note commitment p = sp_notes p commitment"

definition verify_consistency :: "shielded_pool \<Rightarrow> (unit, pool_error) result" where
  "verify_consistency p =
     (let commitments = pool_commitment_count p; nullifiers = spent_count p in
      if nullifiers > commitments then Err MoreNullifiersThanCommitments else Ok ())"

section \<open>The nullifier set records every nullifier once\<close>

lemma nullifier_insert_Ok:
  "nullifier_insert db n S store = Ok (S', store', b) \<longleftrightarrow>
     (if n \<in> S then S' = S \<and> store' = store \<and> \<not> b
      else S' = insert n S \<and> b \<and> persist (insert_nullifier db n) store = Ok store')"
  by (auto simp: nullifier_insert_def nullifier_contains_def and_then_eq_Ok)

text \<open>A step of the set: an insertion that reports a new nullifier, with or without a database.\<close>

definition marks_spent ::
  "'d rocksdb \<Rightarrow> nullifier_set \<times> 'd option \<Rightarrow> bytes32 list \<Rightarrow> nullifier_set \<times> 'd option \<Rightarrow> bool" where
  "marks_spent db s ns s' \<longleftrightarrow>
     (case ns of [n] \<Rightarrow> nullifier_insert db n (fst s) (snd s) = Ok (fst s', snd s', True) | _ \<Rightarrow> False)"

interpretation node_nullifiers: spent_set fst "marks_spent db" for db :: "'d rocksdb"
  by unfold_locales (auto simp: marks_spent_def nullifier_insert_Ok split: list.splits if_splits)

lemma insert_nullifier_effect:
  assumes "rocksdb_ok db view" and "insert_nullifier db n d = Ok d'"
  shows "view d' = put_entry (view d) (CF_NULLIFIER_SET, n, [])"
  using assms rocksdb_putD(1) [OF assms(1)]
  by (auto simp: insert_nullifier_def and_then_eq_Ok ok_or_eq_Ok)

section \<open>Crediting deposits\<close>

lemma credit_seen: "c \<in> sp_deposited p \<Longrightarrow> credit_commitment db c note amount a p store = (p, store, Ok c)"
  by (simp add: credit_commitment_def)

lemma credit_fresh_Ok:
  assumes "c \<notin> sp_deposited p"
  shows "credit_commitment db c note amount a p store = (p', store', Ok c') \<longleftrightarrow> c' = c \<and>
    (\<exists>t store1 i s. tree_insert db c (sp_tree p) store = Ok (t, store1, i) \<and>
       checked_add (supply_of a p) amount = Some s \<and>
       persist (set_asset_supply db a s) store1 = Ok store' \<and>
       p' = p\<lparr>sp_tree := t, sp_deposited := insert c (sp_deposited p),
              sp_notes := (sp_notes p)(c \<mapsto> note), sp_supplies := (sp_supplies p)(a \<mapsto> s)\<rparr>)"
  using assms
  by (auto simp: credit_commitment_def supply_of_def Let_def split: result.splits option.splits)

text \<open>The credited set is the set of leaves, and no leaf is there twice.\<close>

definition pool_ok :: "'z node_crypto_scheme \<Rightarrow> shielded_pool \<Rightarrow> bool" where
  "pool_ok cr p \<longleftrightarrow> tree_ok cr (sp_tree p) \<and> sp_deposited p = set (pt_leaves (sp_tree p)) \<and>
     distinct (pt_leaves (sp_tree p))"

lemma pool_ok_new: "pool_ok cr new_pool"
  by (simp add: pool_ok_def new_pool_def tree_ok_new_tree) (simp add: new_tree_def with_depth_def)

lemma credit_pool_ok:
  assumes "pool_ok cr p" and "credit_commitment db c note amount a p store = (p', store', r)"
  shows "pool_ok cr p'"
proof (cases "c \<in> sp_deposited p \<or> (\<exists>e. tree_insert db c (sp_tree p) store = Err e)")
  case True
  then have "p' = p" using assms(2) by (auto simp: credit_commitment_def split: if_splits)
  then show ?thesis using assms(1) by simp
next
  case False
  then obtain t s1 i where t: "tree_insert db c (sp_tree p) store = Ok (t, s1, i)"
    by (cases "tree_insert db c (sp_tree p) store") auto
  then have "sp_tree p' = t \<and> sp_deposited p' = insert c (sp_deposited p)"
    using False assms(2) by (auto simp: credit_commitment_def Let_def split: option.splits result.splits)
  then show ?thesis
    using tree_insert_ok [OF _ t] t assms(1) False by (auto simp: pool_ok_def tree_insert_Ok)
qed

text \<open>A history of the pool: deposits credited, spends recorded and roots asked for, in any order.
  It ends at the first credit that fails.\<close>

datatype pool_op =
  Credit bytes32 Note u64 asset_id
| Spent "bytes32 \<times> bytes32"
| AskRoot

definition pool_step ::
  "'z node_crypto_scheme \<Rightarrow> 'd rocksdb \<Rightarrow> pool_op \<Rightarrow> shielded_pool \<Rightarrow> 'd option
     \<Rightarrow> (shielded_pool \<times> 'd option) option" where
  "pool_step cr db op p store =
     (case op of
        Credit c note amount a \<Rightarrow>
          (case credit_commitment db c note amount a p store of
             (p', store', Ok _) \<Rightarrow> Some (p', store')
           | (_, _, Err _) \<Rightarrow> None)
      | Spent ns \<Rightarrow> Some (record_spent db ns p store)
      | AskRoot \<Rightarrow> (case pool_root_of cr db p store of (_, p', store') \<Rightarrow> Some (p', store')))"

fun pool_run ::
  "'z node_crypto_scheme \<Rightarrow> 'd rocksdb \<Rightarrow> pool_op list \<Rightarrow> shielded_pool \<Rightarrow> 'd option
     \<Rightarrow> (shielded_pool \<times> 'd option) option" where
  "pool_run cr db [] p store = Some (p, store)"
| "pool_run cr db (op # ops) p store =
     (case pool_step cr db op p store of
        Some (p', store') \<Rightarrow> pool_run cr db ops p' store'
      | None \<Rightarrow> None)"

text \<open>What the history means: the deposits that are credited are the first ones of their
  commitment.\<close>

fun first_credits :: "bytes32 set \<Rightarrow> pool_op list \<Rightarrow> (bytes32 \<times> u64 \<times> asset_id) list" where
  "first_credits seen [] = []"
| "first_credits seen (Credit c note amount a # ops) =
     (if c \<in> seen then first_credits seen ops
      else (c, amount, a) # first_credits (insert c seen) ops)"
| "first_credits seen (Spent ns # ops) = first_credits seen ops"
| "first_credits seen (AskRoot # ops) = first_credits seen ops"

definition credited :: "asset_id \<Rightarrow> (bytes32 \<times> u64 \<times> asset_id) list \<Rightarrow> nat" where
  "credited a cs = sum_list (map (\<lambda>(c, amount, a'). if a' = a then unat amount else 0) cs)"

lemma record_spent_loop_only:
  "record_spent_loop db ns p store = (p', store') \<Longrightarrow>
     sp_tree p' = sp_tree p \<and> sp_deposited p' = sp_deposited p \<and> sp_supplies p' = sp_supplies p"
proof (induction ns arbitrary: p store)
  case (Cons n ns)
  then show ?case
    by (cases "nullifier_insert db n (sp_nullifiers p) store") (auto split: prod.splits)
qed simp

lemma record_spent_only:
  "record_spent db ns p store = (p', store') \<Longrightarrow>
     sp_tree p' = sp_tree p \<and> sp_deposited p' = sp_deposited p \<and> sp_supplies p' = sp_supplies p"
  by (cases ns) (auto simp: record_spent_def simp del: record_spent_loop.simps dest: record_spent_loop_only)

lemma pool_root_of_only:
  assumes "pool_ok cr p" and "pool_root_of cr db p store = (r, p', store')"
  shows "pool_ok cr p'" and "pt_leaves (sp_tree p') = pt_leaves (sp_tree p)"
    and "sp_deposited p' = sp_deposited p" and "sp_supplies p' = sp_supplies p"
    and "sp_nullifiers p' = sp_nullifiers p"
proof -
  obtain t where t: "tree_root_of cr db (sp_tree p) store = (r, t, store')" "p' = p\<lparr>sp_tree := t\<rparr>"
    using assms(2) by (auto simp: pool_root_of_def split: prod.splits)
  then show "pool_ok cr p'" "pt_leaves (sp_tree p') = pt_leaves (sp_tree p)"
    "sp_deposited p' = sp_deposited p" "sp_supplies p' = sp_supplies p" "sp_nullifiers p' = sp_nullifiers p"
    using tree_root_of_ok [OF _ t(1)] assms(1) by (auto simp: pool_ok_def)
qed

lemma pool_step_meaning:
  assumes "pool_ok cr p" and "pool_step cr db op p store = Some (p', store')"
  shows "pool_ok cr p'"
    and "pt_leaves (sp_tree p') =
      pt_leaves (sp_tree p) @ map fst (first_credits (sp_deposited p) [op])"
    and "unat (supply_of a p') = unat (supply_of a p) + credited a (first_credits (sp_deposited p) [op])"
proof -
  have "pool_ok cr p' \<and> pt_leaves (sp_tree p') =
      pt_leaves (sp_tree p) @ map fst (first_credits (sp_deposited p) [op]) \<and>
    unat (supply_of a p') = unat (supply_of a p) + credited a (first_credits (sp_deposited p) [op])"
  proof (cases op)
    case (Credit c nt amount b)
    then obtain c' where credit: "credit_commitment db c nt amount b p store = (p', store', Ok c')"
      using assms(2) by (auto simp: pool_step_def split: prod.splits result.splits)
    show ?thesis
    proof (cases "c \<in> sp_deposited p")
      case True
      then show ?thesis using credit Credit assms(1) by (auto simp: credit_seen credited_def)
    next
      case False
      then show ?thesis
        using credit_pool_ok [OF assms(1) credit] credit Credit False
        by (auto simp: credit_fresh_Ok tree_insert_Ok credited_def supply_of_def checked_simps)
    qed
  next
    case (Spent ns)
    then have "record_spent db ns p store = (p', store')" using assms(2) by (simp add: pool_step_def)
    from record_spent_only [OF this] show ?thesis
      using assms(1) Spent by (simp add: pool_ok_def supply_of_def credited_def)
  next
    case AskRoot
    then obtain r where "pool_root_of cr db p store = (r, p', store')"
      using assms(2) by (auto simp: pool_step_def split: prod.splits)
    from pool_root_of_only [OF assms(1) this] show ?thesis
      using AskRoot by (simp add: supply_of_def credited_def)
  qed
  then show "pool_ok cr p'" "pt_leaves (sp_tree p') =
      pt_leaves (sp_tree p) @ map fst (first_credits (sp_deposited p) [op])"
    "unat (supply_of a p') = unat (supply_of a p) + credited a (first_credits (sp_deposited p) [op])"
    by blast+
qed

lemma first_credits_Cons:
  "first_credits seen (op # ops) = first_credits seen [op] @
     first_credits (seen \<union> set (map fst (first_credits seen [op]))) ops"
  by (cases op) auto

lemma credited_append: "credited a (xs @ ys) = credited a xs + credited a ys"
  by (simp add: credited_def)

lemma pool_run_meaning:
  assumes "pool_ok cr p" and "pool_run cr db ops p store = Some (p', store')"
  shows "pool_ok cr p' \<and>
    pt_leaves (sp_tree p') = pt_leaves (sp_tree p) @ map fst (first_credits (sp_deposited p) ops) \<and>
    unat (supply_of a p') = unat (supply_of a p) + credited a (first_credits (sp_deposited p) ops)"
  using assms
proof (induction ops arbitrary: p store)
  case Nil
  then show ?case by (simp add: credited_def)
next
  case (Cons op ops)
  then obtain q s where step: "pool_step cr db op p store = Some (q, s)"
    and run: "pool_run cr db ops q s = Some (p', store')"
    by (auto split: option.splits)
  note m = pool_step_meaning [OF Cons.prems(1) step]
  have "sp_deposited q = sp_deposited p \<union> set (map fst (first_credits (sp_deposited p) [op]))"
    using m(1,2) Cons.prems(1) unfolding pool_ok_def by (metis set_append)
  then show ?case
    using Cons.IH [OF m(1) run] m(2) m(3) [of a] first_credits_Cons [of "sp_deposited p" op ops]
    by (simp add: credited_append)
qed

lemma first_credits_all:
  "Credit c nt amount a \<in> set ops \<Longrightarrow> c \<in> seen \<union> set (map fst (first_credits seen ops))"
  by (induction seen ops rule: first_credits.induct) auto

section \<open>The persistent copy of the pool\<close>

text \<open>The database holds what the pool holds, and its pool-state family nothing but supplies and a
  root.\<close>

definition pool_synced :: "'d view \<Rightarrow> shielded_pool \<Rightarrow> 'd \<Rightarrow> bool" where
  "pool_synced view p d \<longleftrightarrow> synced view (sp_tree p) d \<and>
     dom (view d CF_NULLIFIER_SET) = sp_nullifiers p \<and> (\<forall>n\<in>sp_nullifiers p. length n = 32) \<and>
     holds_supplies (view d CF_POOL_STATE) (sp_supplies p) \<and>
     dom (view d CF_POOL_STATE) \<subseteq> {total_supply_key, merkle_root_key} \<union> range asset_supply_key \<and>
     (\<forall>r. view d CF_POOL_STATE merkle_root_key = Some r \<longrightarrow> length r = 32)"

lemma tree_insert_keeps:
  assumes "rocksdb_ok db view" and "tree_insert db c t (Some d) = Ok (t', Some d', i)"
    and "cf \<noteq> CF_MERKLE_TREE"
  shows "view d' cf = view d cf"
  using assms rocksdb_putD(1) [OF assms(1)]
  by (auto simp: tree_insert_Ok persist_Some insert_commitment_def and_then_eq_Ok ok_or_eq_Ok put_entry_def)

lemma tree_insert_store: "tree_insert db c t (Some d) = Ok (t', s, i) \<Longrightarrow> \<exists>d'. s = Some d'"
  by (auto simp: tree_insert_Ok persist_Some)

lemma credit_synced:
  assumes "rocksdb_ok db view" and "pool_synced view p d" and "length c = 32" and "length a = 32"
    and "length (pt_leaves (sp_tree p)) + 1 < 2 ^ 64"
    and "credit_commitment db c nt amount a p (Some d) = (p', store', Ok c')"
  shows "\<exists>d'. store' = Some d' \<and> pool_synced view p' d'"
proof (cases "c \<in> sp_deposited p")
  case True
  then show ?thesis using assms(2,6) by (auto simp: credit_seen)
next
  case False
  let ?key = "if a = native_asset_id then total_supply_key else asset_supply_key a"
  obtain t s1 i s where t: "tree_insert db c (sp_tree p) (Some d) = Ok (t, s1, i)"
    and set: "persist (set_asset_supply db a s) s1 = Ok store'"
    and p': "p' = p\<lparr>sp_tree := t, sp_deposited := insert c (sp_deposited p),
      sp_notes := (sp_notes p)(c \<mapsto> nt), sp_supplies := (sp_supplies p)(a \<mapsto> s)\<rparr>"
    using assms(6) False by (auto simp: credit_fresh_Ok)
  obtain d1 where d1: "s1 = Some d1" using tree_insert_store [OF t] by blast
  obtain d' where d': "set_asset_supply db a s d1 = Ok d'" "store' = Some d'"
    using set d1 by (auto simp: persist_Some)
  note keeps = tree_insert_keeps [OF assms(1) t [unfolded d1]]
  have v: "view d' = put_entry (view d1) (CF_POOL_STATE, ?key, u64_to_le_bytes s)"
    by (rule set_asset_supply_effect [OF assms(1) d'(1)])
  have "synced view t d1"
    using tree_insert_synced [OF assms(1) _ assms(3,5) t] assms(2) d1 by (auto simp: pool_synced_def)
  then have "synced view t d'" by (simp add: synced_def v put_entry_def)
  moreover have "holds_supplies (view d' CF_POOL_STATE) ((sp_supplies p)(a \<mapsto> s))"
    using holds_supplies_upd [OF _ assms(4)] assms(2) keeps
    by (simp add: v put_entry_def pool_synced_def)
  ultimately show ?thesis
    using assms(2) keeps d'(2) unfolding p' by (auto simp: pool_synced_def v put_entry_def)
qed

lemma nullifier_insert_synced:
  assumes "rocksdb_ok db view" and "pool_synced view p d" and "length n = 32"
    and "nullifier_insert db n (sp_nullifiers p) (Some d) = Ok (S, store', b)"
  shows "\<exists>d'. store' = Some d' \<and> pool_synced view (p\<lparr>sp_nullifiers := S\<rparr>) d'"
proof (cases "n \<in> sp_nullifiers p")
  case True
  then show ?thesis using assms(2,4) by (auto simp: nullifier_insert_Ok pool_synced_def)
next
  case False
  then obtain d' where d': "insert_nullifier db n d = Ok d'" "store' = Some d'" "S = insert n (sp_nullifiers p)"
    using assms(4) by (auto simp: nullifier_insert_Ok persist_Some)
  then show ?thesis
    using insert_nullifier_effect [OF assms(1) d'(1)] assms(2,3)
    by (auto simp: pool_synced_def synced_def put_entry_def)
qed

lemma record_spent_loop_synced:
  "rocksdb_ok db view \<Longrightarrow> pool_synced view p d \<Longrightarrow> \<forall>n\<in>set ns. length n = 32 \<Longrightarrow>
   record_spent_loop db ns p (Some d) = (p', store') \<Longrightarrow>
   \<exists>d'. store' = Some d' \<and> pool_synced view p' d'"
proof (induction ns arbitrary: p d)
  case (Cons n ns)
  show ?case
  proof (cases "nullifier_insert db n (sp_nullifiers p) (Some d)")
    case (Ok r)
    then obtain S s b where r: "nullifier_insert db n (sp_nullifiers p) (Some d) = Ok (S, s, b)"
      by (cases r) auto
    with nullifier_insert_synced [OF Cons.prems(1,2) _ r] Cons.prems(3)
    obtain d1 where "s = Some d1" "pool_synced view (p\<lparr>sp_nullifiers := S\<rparr>) d1" by auto
    then show ?thesis using Cons.IH [OF Cons.prems(1)] Cons.prems(3,4) r by simp
  qed (use Cons in auto)
qed auto

lemma length_hash_pair: "length (hash_pair cr l r) = 32"
  by (simp add: hash_pair_def fr_to_bytes_32_length)

lemma length_compute_root:
  assumes "\<forall>x\<in>set xs. length x = 32"
  shows "length (compute_root cr d xs) = 32"
proof -
  have "\<forall>x\<in>set (pool_level cr d xs). length x = 32"
  proof (induction d)
    case (Suc d)
    then show ?case
      by (auto simp: pair_up_conv_map length_hash_pair)
  qed (use assms in simp)
  then show ?thesis
    by (auto simp: compute_root_tree tree_root_def length_empty_hash split: list.splits)
qed

lemma root_synced:
  assumes "rocksdb_ok db view" and "pool_synced view p d"
    and "pool_root_of cr db p (Some d) = (r, p', store')"
  shows "\<exists>d'. store' = Some d' \<and> pool_synced view p' d'"
proof -
  obtain t where t: "tree_root_of cr db (sp_tree p) (Some d) = (r, t, store')" "p' = p\<lparr>sp_tree := t\<rparr>"
    using assms(3) by (auto simp: pool_root_of_def split: prod.splits)
  have leaves: "pt_leaves t = pt_leaves (sp_tree p)"
    using t(1) by (auto simp: tree_root_of_def Let_def split: option.splits)
  show ?thesis
  proof (cases "pt_cached_root (sp_tree p) = None \<and> is_ok (set_merkle_root db r d)")
    case True
    then obtain d' where d': "set_merkle_root db r d = Ok d'" by (cases "set_merkle_root db r d") auto
    have "put_cf db CF_POOL_STATE merkle_root_key r d = Some d'"
      using d' by (auto simp: set_merkle_root_def and_then_eq_Ok ok_or_eq_Ok)
    note v = rocksdb_putD(1) [OF assms(1) this]
    have "r = compute_root cr (pt_depth (sp_tree p)) (pt_leaves (sp_tree p))"
      using True t(1) by (auto simp: tree_root_of_def Let_def)
    then have "length r = 32"
      using assms(2) by (simp add: length_compute_root pool_synced_def synced_def holds_leaves_def)
    moreover have "store' = Some d'" using tree_root_of_persists(1) [OF assms(1) _ t(1) d'] True by simp
    ultimately show ?thesis
      using assms(2) leaves v unfolding t(2)
      by (auto simp: pool_synced_def synced_def put_entry_def holds_supplies_def)
  next
    case False
    then have "store' = Some d"
      using t(1) by (cases "set_merkle_root db r d")
        (auto simp: tree_root_of_def Let_def persist_def split: option.splits result.splits)
    then show ?thesis using assms(2) leaves unfolding t(2) by (simp add: pool_synced_def synced_def)
  qed
qed

text \<open>Commitments, nullifiers and asset ids are 32-byte arrays in the code.\<close>

fun op_typed :: "pool_op \<Rightarrow> bool" where
  "op_typed (Credit c nt amount a) \<longleftrightarrow> length c = 32 \<and> length a = 32"
| "op_typed (Spent (n0, n1)) \<longleftrightarrow> length n0 = 32 \<and> length n1 = 32"
| "op_typed AskRoot \<longleftrightarrow> True"

lemma pool_step_synced:
  assumes "rocksdb_ok db view" and "pool_synced view p d" and "op_typed op"
    and "length (pt_leaves (sp_tree p)) + 1 < 2 ^ 64"
    and "pool_step cr db op p (Some d) = Some (p', store')"
  shows "\<exists>d'. store' = Some d' \<and> pool_synced view p' d'"
proof (cases op)
  case (Credit c nt amount a)
  then obtain c' where "credit_commitment db c nt amount a p (Some d) = (p', store', Ok c')"
    using assms(5) by (auto simp: pool_step_def split: prod.splits result.splits)
  from credit_synced [OF assms(1,2) _ _ assms(4) this] show ?thesis using assms(3) Credit by simp
next
  case (Spent ns)
  obtain n0 n1 where ns: "ns = (n0, n1)" by force
  have "record_spent_loop db [n0, n1] p (Some d) = (p', store')"
    using assms(5) Spent ns by (simp add: pool_step_def record_spent_def del: record_spent_loop.simps)
  from record_spent_loop_synced [OF assms(1,2) _ this] show ?thesis using assms(3) Spent ns by simp
next
  case AskRoot
  then obtain r where "pool_root_of cr db p (Some d) = (r, p', store')"
    using assms(5) by (auto simp: pool_step_def split: prod.splits)
  from root_synced [OF assms(1,2) this] show ?thesis .
qed

lemma first_credits_length: "length (first_credits seen ops) \<le> length ops"
  by (induction seen ops rule: first_credits.induct) auto

lemma pool_run_synced:
  assumes "rocksdb_ok db view" and "pool_ok cr p" and "pool_synced view p d" and "list_all op_typed ops"
    and "length (pt_leaves (sp_tree p)) + length ops < 2 ^ 64"
    and "pool_run cr db ops p (Some d) = Some (p', store')"
  shows "\<exists>d'. store' = Some d' \<and> pool_synced view p' d'"
  using assms
proof (induction ops arbitrary: p d)
  case (Cons op ops)
  then obtain q s where step: "pool_step cr db op p (Some d) = Some (q, s)"
    and run: "pool_run cr db ops q s = Some (p', store')"
    by (auto split: option.splits)
  obtain d1 where d1: "s = Some d1" "pool_synced view q d1"
    using pool_step_synced [OF Cons.prems(1,3) _ _ step] Cons.prems(4,5) by auto
  note m = pool_step_meaning [OF Cons.prems(2) step]
  have "length (pt_leaves (sp_tree q)) + length ops < 2 ^ 64"
    using m(2) first_credits_length [of "sp_deposited p" "[op]"] Cons.prems(5) by simp
  then show ?case using Cons.IH [OF Cons.prems(1) m(1) d1(2)] Cons.prems(4) run d1(1) by simp
qed auto

lemma pool_restart:
  assumes "rocksdb_ok db view" and "pool_ok cr p" and "pool_synced view p d" and "readable db d"
  shows "\<exists>q. pool_with_storage db d = Ok q \<and> pt_leaves (sp_tree q) = pt_leaves (sp_tree p) \<and>
    sp_nullifiers q = sp_nullifiers p \<and> sp_deposited q = sp_deposited p \<and>
    sp_supplies q = positive (sp_supplies p)"
proof -
  note s = assms(3) [unfolded pool_synced_def]
  have h: "cf_handle db c d" and g: "get_cf db c k d \<noteq> None" for c k
    using assms(4) by (simp_all add: readable_def)
  obtain el en ep where it: "iterator_cf db CF_MERKLE_TREE d = map Some el"
    "iterator_cf db CF_NULLIFIER_SET d = map Some en"
    "prefix_iterator_cf db CF_POOL_STATE SUPPLY_PREFIX d = map Some ep"
    using assms(4) unfolding readable_def by blast
  obtain t where t: "tree_with_storage db d = Ok t" "pt_leaves t = pt_leaves (sp_tree p)"
    using tree_restart [OF assms(1) _ assms(4)] s by blast
  obtain ns where ns: "get_all_nullifiers db d = Ok ns" "set ns = sp_nullifiers p"
    using get_all_nullifiers_set [OF assms(1) _ h it(2)] s by auto
  have "take (length SUPPLY_PREFIX) total_supply_key \<noteq> SUPPLY_PREFIX"
    "take (length SUPPLY_PREFIX) merkle_root_key \<noteq> SUPPLY_PREFIX"
    by (simp_all add: SUPPLY_PREFIX_def total_supply_key_def merkle_root_key_def ascii_def)
  then have "\<forall>k\<in>dom (view d CF_POOL_STATE). take (length SUPPLY_PREFIX) k = SUPPLY_PREFIX \<longrightarrow>
      (\<exists>a. k = asset_supply_key a)" using s by blast
  then have sup: "get_all_asset_supplies db d = Ok (positive (sp_supplies p))"
    using get_all_asset_supplies_positive [OF assms(1) _ _ h g it(3)] s by blast
  have "get_all_commitments db d = Ok (pt_leaves (sp_tree p))"
    using get_all_commitments_leaves [OF assms(1) _ h it(1)] s by (simp add: synced_def)
  then show ?thesis
    using t ns sup assms(2)
    by (simp add: pool_with_storage_def nullifier_set_with_storage_def pool_ok_def)
qed

lemma supply_of_positive: "sp_supplies q = positive (sp_supplies p) \<Longrightarrow> supply_of a q = supply_of a p"
  by (auto simp: supply_of_def positive_def word_gt_0 split: option.splits)

lemma new_pool_synced:
  assumes "view d = (\<lambda>cf. Map.empty)"
  shows "pool_synced view new_pool d"
  using assms
  by (simp add: pool_synced_def synced_def new_pool_def new_tree_def with_depth_def holds_leaves_def
      holds_supplies_def)

section \<open>Properties\<close>

text \<open>C21. Every deposit is credited exactly once: after any history of credits, recorded spends and
  root queries on a fresh pool, the leaves are the distinct commitments of the history in the order
  of their first credit, the supply of each asset is the exact sum of the amounts of these first
  credits, and crediting any deposit of the history again succeeds without changing anything.\<close>

theorem credits_counted_once:
  assumes "pool_run cr db ops new_pool store = Some (p, store')"
  shows "pt_leaves (sp_tree p) = map fst (first_credits {} ops) \<and> distinct (pt_leaves (sp_tree p)) \<and>
    (\<forall>a. unat (supply_of a p) = credited a (first_credits {} ops)) \<and>
    (\<forall>c nt amount a. Credit c nt amount a \<in> set ops \<longrightarrow>
       credit_commitment db c nt amount a p store' = (p, store', Ok c))"
proof -
  note m = pool_run_meaning [OF pool_ok_new assms]
  have new: "sp_deposited new_pool = {}" "pt_leaves (sp_tree new_pool) = []" "supply_of a new_pool = 0" for a
    by (simp_all add: new_pool_def new_tree_def with_depth_def supply_of_def)
  have leaves: "pt_leaves (sp_tree p) = map fst (first_credits {} ops)" and ok: "pool_ok cr p"
    using m new by simp_all
  then have "c \<in> sp_deposited p" if "Credit c nt amount a \<in> set ops" for c nt amount a
    using first_credits_all [OF that, of "{}"] by (simp add: pool_ok_def)
  then show ?thesis using m new leaves ok by (auto simp: pool_ok_def credit_seen)
qed


text \<open>C26. A failed supply write is not repaired by the retry: when the leaf of a new deposit was
  written but the write of the asset's supply fails, the deposit reports the error, a retry reports
  success without writing anything, and a pool reloaded from the database contains the leaf, has
  the supply without the deposit, and also answers the retry with success.\<close>

theorem failed_supply_write_is_not_repaired:
  assumes "rocksdb_ok db view" and "pool_ok cr p" and "pool_synced view p d" and "length c = 32"
    and "length (pt_leaves (sp_tree p)) + 1 < 2 ^ 64" and "c \<notin> sp_deposited p"
    and "tree_insert db c (sp_tree p) (Some d) = Ok (t, Some d1, i)"
    and "checked_add (supply_of a p) amount = Some s" and "set_asset_supply db a s d1 = Err e"
    and "readable db d1"
  shows "\<exists>p1 q. credit_commitment db c nt amount a p (Some d) = (p1, Some d1, Err e) \<and>
    credit_commitment db c nt amount a p1 (Some d1) = (p1, Some d1, Ok c) \<and>
    pool_with_storage db d1 = Ok q \<and> c \<in> set (pt_leaves (sp_tree q)) \<and>
    supply_of a q = supply_of a p \<and>
    credit_commitment db c nt amount a q (Some d1) = (q, Some d1, Ok c)"
proof -
  let ?p1 = "p\<lparr>sp_tree := t, sp_deposited := insert c (sp_deposited p),
    sp_notes := (sp_notes p)(c \<mapsto> nt), sp_supplies := (sp_supplies p)(a \<mapsto> s)\<rparr>"
  let ?on_disk = "?p1\<lparr>sp_supplies := sp_supplies p\<rparr>"
  have credit: "credit_commitment db c nt amount a p (Some d) = (?p1, Some d1, Err e)"
    using assms(6-9) by (simp add: credit_commitment_def supply_of_def persist_def Let_def)
  have "synced view t d1"
    using tree_insert_synced [OF assms(1) _ assms(4,5,7)] assms(3) by (auto simp: pool_synced_def)
  then have disk: "pool_synced view ?on_disk d1"
    using assms(3) tree_insert_keeps [OF assms(1,7)] by (simp add: pool_synced_def)
  have "pool_ok cr ?on_disk" using credit_pool_ok [OF assms(2) credit] by (simp add: pool_ok_def)
  from pool_restart [OF assms(1) this disk assms(10)] obtain q where q: "pool_with_storage db d1 = Ok q"
    "pt_leaves (sp_tree q) = pt_leaves t" "sp_deposited q = insert c (sp_deposited p)"
    "sp_supplies q = positive (sp_supplies p)" by auto
  have "c \<in> set (pt_leaves t)" using assms(7) by (auto simp: tree_insert_Ok)
  then show ?thesis
    using credit q supply_of_positive [OF q(4)] by (simp add: credit_seen)
qed

section \<open>Examples\<close>

definition empty_ref_db :: ref_db where
  "empty_ref_db = (\<lambda>_. [])"

text \<open>Two deposits, one of them seen twice, and a recorded spend.\<close>

definition leaf_a :: bytes32 where "leaf_a = le_bytes 32 5"

definition leaf_b :: bytes32 where "leaf_b = le_bytes 32 6"

definition example_note :: Note where
  "example_note = \<lparr> nt_recipient = zero32, nt_amount = 10, nt_randomness = zero32,
     nt_asset_id = native_asset_id, nt_memo = None \<rparr>"

definition example_ops :: "pool_op list" where
  "example_ops =
     [Credit leaf_a example_note 10 native_asset_id, Credit leaf_b example_note 7 native_asset_id,
      Credit leaf_a example_note 10 native_asset_id, Spent (leaf_a, leaf_b)]"

lemma leaves_distinct: "leaf_a \<noteq> leaf_b" "leaf_b \<noteq> leaf_a"
proof -
  have "residue leaf_a = 5" "residue leaf_b = 6"
    by (simp_all add: leaf_a_def leaf_b_def residue_le_bytes fr_modulus_def)
  then show "leaf_a \<noteq> leaf_b" "leaf_b \<noteq> leaf_a" by auto
qed

lemma leaf_lengths: "length leaf_a = 32" "length leaf_b = 32" "length native_asset_id = 32"
  by (simp_all add: leaf_a_def leaf_b_def native_asset_id_def)

lemma ref_persist:
  "persist (insert_commitment ref_rocksdb i c) (Some d) =
     Ok (Some (ref_put d (CF_MERKLE_TREE, u64_to_le_bytes i, c)))"
  "persist (set_asset_supply ref_rocksdb native_asset_id v) (Some d) =
     Ok (Some (ref_put d (CF_POOL_STATE, total_supply_key, u64_to_le_bytes v)))"
  "persist (insert_nullifier ref_rocksdb n) (Some d) = Ok (Some (ref_put d (CF_NULLIFIER_SET, n, [])))"
  by (simp_all add: persist_def insert_commitment_def with_cf_def set_asset_supply_def
      set_total_supply_def insert_nullifier_def)

lemma example_ops_run:
  "\<exists>p d. pool_run ref_node_crypto ref_rocksdb example_ops new_pool (Some empty_ref_db) = Some (p, Some d)"
  by (simp add: example_ops_def pool_step_def credit_commitment_def new_pool_def leaves_distinct
      tree_insert_def ref_persist supply_of_def checked_add_def record_spent_def nullifier_insert_def
      nullifier_contains_def Let_def)

lemma example_ops_first:
  "first_credits {} example_ops = [(leaf_a, 10, native_asset_id), (leaf_b, 7, native_asset_id)]"
  by (simp add: example_ops_def leaves_distinct)

lemma ref_rocksdb_readable: "readable ref_rocksdb d"
  by (auto simp: readable_def ref_rocksdb_def)

lemma empty_ref_view: "ref_view empty_ref_db = (\<lambda>cf. Map.empty)"
  by (simp add: fun_eq_iff ref_view_def empty_ref_db_def)

theorem credits_counted_once_witness:
  "\<exists>p store'. pool_run ref_node_crypto ref_rocksdb example_ops new_pool (Some empty_ref_db) =
      Some (p, store') \<and> pt_leaves (sp_tree p) = [leaf_a, leaf_b] \<and> supply_of native_asset_id p = 17"
proof -
  obtain p d where run: "pool_run ref_node_crypto ref_rocksdb example_ops new_pool
      (Some empty_ref_db) = Some (p, Some d)" using example_ops_run by blast
  have "pt_leaves (sp_tree p) = [leaf_a, leaf_b]" "unat (supply_of native_asset_id p) = 17"
    using credits_counted_once [OF run] by (simp_all add: example_ops_first credited_def)
  then show ?thesis using run by (auto simp: word_unat_eq_iff)
qed


text \<open>A database that refuses writes to the pool-state family.\<close>

definition flaky_rocksdb :: "ref_db rocksdb" where
  "flaky_rocksdb = ref_rocksdb\<lparr>put_cf := \<lambda>c k v d.
     if c = CF_POOL_STATE then None else put_cf ref_rocksdb c k v d\<rparr>"

lemma flaky_rocksdb_ok: "rocksdb_ok flaky_rocksdb ref_view"
  using ref_rocksdb_ok unfolding rocksdb_ok_def flaky_rocksdb_def by simp

lemma flaky_readable: "readable flaky_rocksdb d"
  using ref_rocksdb_readable [of d] by (simp add: readable_def flaky_rocksdb_def)

theorem failed_supply_write_is_not_repaired_witness:
  "\<exists>p1 d1 q. credit_commitment flaky_rocksdb leaf_a example_note 10 native_asset_id new_pool
      (Some empty_ref_db) = (p1, Some d1, Err RocksDb) \<and>
    credit_commitment flaky_rocksdb leaf_a example_note 10 native_asset_id p1 (Some d1) =
      (p1, Some d1, Ok leaf_a) \<and>
    pool_with_storage flaky_rocksdb d1 = Ok q \<and> leaf_a \<in> set (pt_leaves (sp_tree q)) \<and>
    supply_of native_asset_id q = 0"
proof -
  let ?d1 = "ref_put empty_ref_db (CF_MERKLE_TREE, u64_to_le_bytes 0, leaf_a)"
  have new: "length (pt_leaves (sp_tree new_pool)) + 1 < 2 ^ 64" "leaf_a \<notin> sp_deposited new_pool"
    "supply_of native_asset_id new_pool = 0" "checked_add (supply_of native_asset_id new_pool) 10 = Some 10"
    by (simp_all add: new_pool_def new_tree_def with_depth_def supply_of_def checked_add_def)
  obtain t i where ins: "tree_insert flaky_rocksdb leaf_a (sp_tree new_pool) (Some empty_ref_db) =
      Ok (t, Some ?d1, i)"
    by (simp add: tree_insert_def persist_def insert_commitment_def with_cf_def flaky_rocksdb_def
        new_pool_def new_tree_def with_depth_def Let_def)
  have fails: "set_asset_supply flaky_rocksdb native_asset_id 10 ?d1 = Err RocksDb"
    by (simp add: set_asset_supply_def set_total_supply_def with_cf_def flaky_rocksdb_def)
  have sync: "pool_synced ref_view new_pool empty_ref_db"
    by (rule new_pool_synced [of ref_view, OF empty_ref_view])
  show ?thesis
    using failed_supply_write_is_not_repaired [OF flaky_rocksdb_ok pool_ok_new [of ref_node_crypto] sync
        leaf_lengths(1) new(1,2) ins new(4) fails flaky_readable] new(3) by metis
qed

end
