(* ===== verification/Deposit_Events.thy ===== *)
theory Deposit_Events
  imports Bridge_Instructions Shielded_Pool Settlement_Safety
begin

text \<open>
  From a confirmed Solana transaction to a leaf of the node's pool: the circom hashes of
  \<open>privacy/poseidon_circom.rs\<close>, the decoder of deposit instructions
  (\<open>bridge/solana/decoder.rs\<close>), the deposit transaction of \<open>privacy/transaction.rs\<close> and
  \<open>process_deposit\<close> of the listener. The parameter \<open>cp\<close> is \<open>light_poseidon\<close>'s hash behind
  \<open>circom_poseidon\<close>; base58 and key parsing are fields of a \<open>codec\<close>.
\<close>

section \<open>The circom hashes\<close>

definition v3_pubkey :: "(nat list \<Rightarrow> nat) \<Rightarrow> nat \<Rightarrow> nat" where
  "v3_pubkey cp privkey = cp [privkey]"

definition v3_commit :: "(nat list \<Rightarrow> nat) \<Rightarrow> nat \<Rightarrow> nat \<Rightarrow> nat \<Rightarrow> nat \<Rightarrow> nat" where
  "v3_commit cp amount pubkey blinding asset_id = cp [amount, pubkey, blinding, asset_id]"

definition v3_signature :: "(nat list \<Rightarrow> nat) \<Rightarrow> nat \<Rightarrow> nat \<Rightarrow> nat \<Rightarrow> nat" where
  "v3_signature cp privkey cm leaf_index = cp [privkey, cm, leaf_index]"

definition v3_nullifier :: "(nat list \<Rightarrow> nat) \<Rightarrow> nat \<Rightarrow> nat \<Rightarrow> nat \<Rightarrow> nat" where
  "v3_nullifier cp cm leaf_index signature = cp [cm, leaf_index, signature]"

definition v3_merkle_pair :: "(nat list \<Rightarrow> nat) \<Rightarrow> nat \<Rightarrow> nat \<Rightarrow> nat" where
  "v3_merkle_pair cp left right = cp [left, right]"

definition node_mint_to_asset ::
  "'z node_crypto_scheme \<Rightarrow> (nat list \<Rightarrow> nat) \<Rightarrow> pubkey \<Rightarrow> bytes32" where
  "node_mint_to_asset cr cp mint =
     (let lo = fr_from_le_bytes_mod_order cr (take 16 mint);
          hi = fr_from_le_bytes_mod_order cr (drop 16 mint);
          asset = v3_merkle_pair cp lo hi;
          le = fr_to_bytes_le cr asset;
          n = min (length le) 32
      in take n le @ replicate (32 - n) 0)"

text \<open>What the module relies on: the host hash is a field element and equals the syscall's, on the
  widths both support.\<close>

definition syscall_parity :: "'z crypto_scheme \<Rightarrow> (nat list \<Rightarrow> nat) \<Rightarrow> bool" where
  "syscall_parity cr cp \<longleftrightarrow>
     (\<forall>xs. xs \<noteq> [] \<and> length xs \<le> 12 \<and> (\<forall>x\<in>set xs. x < fr_modulus) \<longrightarrow>
        cp xs < fr_modulus \<and> poseidon_hashv cr (map (le_bytes 32) xs) = Some (le_bytes 32 (cp xs)))"

section \<open>Transactions as the RPC returns them\<close>

record UiCompiledInstruction =
  ci_program_id_index :: nat
  ci_accounts :: "nat list"
  ci_data :: string

datatype UiInstruction = Compiled UiCompiledInstruction | ParsedInstruction

datatype UiMessage = Raw "string list" "UiCompiledInstruction list" | ParsedMessage

datatype EncodedTransaction = Json UiMessage | OtherEncoding

record tx_meta =
  tm_err :: bool
  tm_inner_instructions :: "UiInstruction list list option"

record confirmed_tx =
  ct_slot :: u64
  ct_block_time :: "i64 option"
  ct_transaction :: EncodedTransaction
  ct_meta :: "tx_meta option"

record codec =
  bs58_decode :: "string \<Rightarrow> bytes option"
  parse_pubkey :: "string \<Rightarrow> pubkey option"

record DepositEvent =
  ev_signature :: string
  ev_from :: pubkey
  ev_amount :: u64
  ev_recipient :: bytes32
  ev_randomness :: bytes32
  ev_asset_id :: bytes32
  ev_fee :: u64
  ev_block :: u64
  ev_timestamp :: i64

record DecodedDeposit =
  dd_data :: DepositInstructionData
  dd_depositor :: pubkey
  dd_asset_id :: bytes32

definition DEPOSITOR_ACCOUNT_INDEX :: nat where "DEPOSITOR_ACCOUNT_INDEX = 2"

definition SPL_MINT_ACCOUNT_INDEX :: nat where "SPL_MINT_ACCOUNT_INDEX = 1"

definition SPL_DEPOSITOR_ACCOUNT_INDEX :: nat where "SPL_DEPOSITOR_ACCOUNT_INDEX = 5"

definition DEPOSIT_NOTE_DEPOSITOR_ACCOUNT_INDEX :: nat where
  "DEPOSIT_NOTE_DEPOSITOR_ACCOUNT_INDEX = 3"

definition DEPOSIT_NOTE_SPL_MINT_ACCOUNT_INDEX :: nat where
  "DEPOSIT_NOTE_SPL_MINT_ACCOUNT_INDEX = 2"

definition DEPOSIT_NOTE_SPL_DEPOSITOR_ACCOUNT_INDEX :: nat where
  "DEPOSIT_NOTE_SPL_DEPOSITOR_ACCOUNT_INDEX = 6"

lemmas account_indices =
  DEPOSITOR_ACCOUNT_INDEX_def SPL_MINT_ACCOUNT_INDEX_def SPL_DEPOSITOR_ACCOUNT_INDEX_def
  DEPOSIT_NOTE_DEPOSITOR_ACCOUNT_INDEX_def DEPOSIT_NOTE_SPL_MINT_ACCOUNT_INDEX_def
  DEPOSIT_NOTE_SPL_DEPOSITOR_ACCOUNT_INDEX_def

text \<open>Rust's \<open>get\<close>.\<close>

definition get :: "'a list \<Rightarrow> nat \<Rightarrow> 'a option" where
  "get xs i = (if i < length xs then Some (xs ! i) else None)"

definition account_at :: "UiCompiledInstruction \<Rightarrow> pubkey list \<Rightarrow> nat \<Rightarrow> pubkey option" where
  "account_at compiled account_keys i =
     Option.bind (get (ci_accounts compiled) i) (get account_keys)"

definition deposit_layout ::
  "'z node_crypto_scheme \<Rightarrow> (nat list \<Rightarrow> nat) \<Rightarrow> UiCompiledInstruction \<Rightarrow> pubkey list \<Rightarrow> bytes
     \<Rightarrow> (nat \<times> bytes32) option" where
  "deposit_layout cr cp compiled account_keys discriminator =
     (if discriminator = DEPOSIT_NOTE
      then Some (DEPOSIT_NOTE_DEPOSITOR_ACCOUNT_INDEX, native_asset_id)
      else if discriminator = DEPOSIT_NOTE_SPL
      then map_option (\<lambda>mint. (DEPOSIT_NOTE_SPL_DEPOSITOR_ACCOUNT_INDEX, node_mint_to_asset cr cp mint))
             (account_at compiled account_keys DEPOSIT_NOTE_SPL_MINT_ACCOUNT_INDEX)
      else if discriminator = DEPOSIT
      then Some (DEPOSITOR_ACCOUNT_INDEX, native_asset_id)
      else if discriminator = DEPOSIT_SPL
      then map_option (\<lambda>mint. (SPL_DEPOSITOR_ACCOUNT_INDEX, mint))
             (account_at compiled account_keys SPL_MINT_ACCOUNT_INDEX)
      else None)"

definition decode_compiled_deposit ::
  "'z node_crypto_scheme \<Rightarrow> (nat list \<Rightarrow> nat) \<Rightarrow> codec \<Rightarrow> UiCompiledInstruction \<Rightarrow> pubkey list
     \<Rightarrow> pubkey \<Rightarrow> DecodedDeposit option" where
  "decode_compiled_deposit cr cp cd compiled account_keys pid =
     Option.bind (get account_keys (ci_program_id_index compiled)) (\<lambda>invoked_program.
     if invoked_program \<noteq> pid then None
     else Option.bind (bs58_decode cd (ci_data compiled)) (\<lambda>raw_data.
     if length raw_data < 8 then None
     else Option.bind (deposit_layout cr cp compiled account_keys (take 8 raw_data))
       (\<lambda>(depositor_index, asset_id).
     Option.bind (borsh_deposit_decode (drop 8 raw_data)) (\<lambda>data.
     Option.bind (account_at compiled account_keys depositor_index) (\<lambda>depositor.
     Some \<lparr> dd_data = data, dd_depositor = depositor, dd_asset_id = asset_id \<rparr>)))))"

definition build_event :: "string \<Rightarrow> confirmed_tx \<Rightarrow> DecodedDeposit \<Rightarrow> DepositEvent" where
  "build_event signature confirmed decoded =
     \<lparr> ev_signature = signature, ev_from = dd_depositor decoded,
       ev_amount = did_amount (dd_data decoded), ev_recipient = did_recipient (dd_data decoded),
       ev_randomness = did_randomness (dd_data decoded), ev_asset_id = dd_asset_id decoded,
       ev_fee = 0, ev_block = ct_slot confirmed,
       ev_timestamp = (case ct_block_time confirmed of Some t \<Rightarrow> t | None \<Rightarrow> 0) \<rparr>"

definition parse_account_keys :: "codec \<Rightarrow> string list \<Rightarrow> pubkey list option" where
  "parse_account_keys cd keys = those (map (parse_pubkey cd) keys)"

definition inner_compiled :: "confirmed_tx \<Rightarrow> UiCompiledInstruction list" where
  "inner_compiled confirmed =
     (case Option.bind (ct_meta confirmed) tm_inner_instructions of
        Some inner \<Rightarrow> List.map_filter (\<lambda>i. case i of Compiled c \<Rightarrow> Some c | ParsedInstruction \<Rightarrow> None)
          (concat inner)
      | None \<Rightarrow> [])"

definition extract_deposit_events ::
  "'z node_crypto_scheme \<Rightarrow> (nat list \<Rightarrow> nat) \<Rightarrow> codec \<Rightarrow> string \<Rightarrow> confirmed_tx \<Rightarrow> pubkey
     \<Rightarrow> DepositEvent list" where
  "extract_deposit_events cr cp cd signature confirmed pid =
     (if (case ct_meta confirmed of Some m \<Rightarrow> tm_err m | None \<Rightarrow> False) then []
      else case ct_transaction confirmed of
        Json (Raw keys instructions) \<Rightarrow>
          (case parse_account_keys cd keys of
             None \<Rightarrow> []
           | Some account_keys \<Rightarrow>
               List.map_filter (\<lambda>compiled. map_option (build_event signature confirmed)
                   (decode_compiled_deposit cr cp cd compiled account_keys pid))
                 (instructions @ inner_compiled confirmed))
      | _ \<Rightarrow> [])"

section \<open>Crediting a deposit\<close>

text \<open>\<open>DepositTx\<close>; its id and timestamp are not read.\<close>

record DepositTx =
  dt_from_public :: bytes
  dt_amount :: u64
  dt_output_commitment :: bytes32
  dt_output_note :: Note
  dt_fee :: u64

text \<open>\<open>amount - fee\<close> panics when the fee is larger.\<close>

definition DepositTx_new_asset ::
  "'z node_crypto_scheme \<Rightarrow> bytes \<Rightarrow> u64 \<Rightarrow> bytes32 \<Rightarrow> bytes32 \<Rightarrow> u64 \<Rightarrow> bytes32 \<Rightarrow> DepositTx option" where
  "DepositTx_new_asset cr from_public amount recipient randomness fee asset_id =
     map_option (\<lambda>net.
       let output_note = Note_new recipient net randomness asset_id
       in \<lparr> dt_from_public = from_public, dt_amount = amount,
            dt_output_commitment = Note_commitment cr output_note, dt_output_note = output_note,
            dt_fee = fee \<rparr>)
       (checked_sub amount fee)"

definition DepositTx_verify :: "'z node_crypto_scheme \<Rightarrow> DepositTx \<Rightarrow> bool" where
  "DepositTx_verify cr tx \<longleftrightarrow>
     dt_fee tx \<le> dt_amount tx \<and>
     dt_output_commitment tx = Note_commitment cr (dt_output_note tx) \<and>
     nt_amount (dt_output_note tx) = dt_amount tx - dt_fee tx"

datatype deposit_error = DepositPanic | DepositVerificationFailed | DepositFailed store_error

definition deposit_leaf :: "'z node_crypto_scheme \<Rightarrow> (nat list \<Rightarrow> nat) \<Rightarrow> DepositEvent \<Rightarrow> bytes32" where
  "deposit_leaf cr cp event =
     fr_to_bytes_32 cr (v3_commit cp (fr_from_u64 cr (ev_amount event))
       (fr_from_le_bytes_mod_order cr (ev_recipient event))
       (fr_from_le_bytes_mod_order cr (ev_randomness event))
       (fr_from_le_bytes_mod_order cr (ev_asset_id event)))"

definition process_deposit ::
  "'z node_crypto_scheme \<Rightarrow> (nat list \<Rightarrow> nat) \<Rightarrow> 'd rocksdb \<Rightarrow> DepositEvent \<Rightarrow> shielded_pool \<Rightarrow> 'd option
     \<Rightarrow> shielded_pool \<times> 'd option \<times> (unit, deposit_error) result" where
  "process_deposit cr cp db event p store =
     (case DepositTx_new_asset cr (ev_from event) (ev_amount event) (ev_recipient event)
             (ev_randomness event) (ev_fee event) (ev_asset_id event) of
        None \<Rightarrow> (p, store, Err DepositPanic)
      | Some deposit_tx \<Rightarrow>
          if \<not> DepositTx_verify cr deposit_tx then (p, store, Err DepositVerificationFailed)
          else case credit_commitment db (deposit_leaf cr cp event) (dt_output_note deposit_tx)
                      (ev_amount event) (ev_asset_id event) p store of
                 (p', store', Ok _) \<Rightarrow> (p', store', Ok ())
               | (p', store', Err e) \<Rightarrow> (p', store', Err (DepositFailed e)))"

section \<open>The decoder reads what the client and the program agree on\<close>

text \<open>How an instruction appears in a confirmed transaction: as indices into the transaction's keys,
  with its data in base58.\<close>

definition compiles :: "codec \<Rightarrow> pubkey list \<Rightarrow> Instruction \<Rightarrow> UiCompiledInstruction \<Rightarrow> bool" where
  "compiles cd keys ix ci \<longleftrightarrow>
     get keys (ci_program_id_index ci) = Some (ix_program_id ix) \<and>
     bs58_decode cd (ci_data ci) = Some (ix_data ix) \<and>
     length (ci_accounts ci) = length (ix_accounts ix) \<and>
     (\<forall>i < length (ix_accounts ix). get keys (ci_accounts ci ! i) = Some (am_pubkey (ix_accounts ix ! i)))"

lemma compiles_account:
  assumes "compiles cd keys ix ci" and "i < length (ix_accounts ix)"
  shows "account_at ci keys i = Some (am_pubkey (ix_accounts ix ! i))"
  using assms by (simp add: compiles_def account_at_def get_def [of "ci_accounts ci"])

lemma discriminator_lengths [simp]: "length DEPOSIT_NOTE = 8" "length DEPOSIT_NOTE_SPL = 8"
  by (simp_all add: DEPOSIT_NOTE_def DEPOSIT_NOTE_SPL_def)

lemma spl_not_native: "DEPOSIT_NOTE_SPL \<noteq> DEPOSIT_NOTE"
  by (simp add: DEPOSIT_NOTE_def DEPOSIT_NOTE_SPL_def)

lemma borsh_deposit_roundtrip:
  assumes "length pk = 32" and "length bl = 32"
  shows "borsh_deposit_decode (borsh_deposit_note \<lparr> dnd_amount = amount, dnd_pubkey = pk, dnd_blinding = bl \<rparr>)
    = Some \<lparr> did_amount = amount, did_recipient = pk, did_randomness = bl \<rparr>"
  using assms by (simp add: borsh_deposit_decode_def borsh_deposit_note_def)

definition deposit_decoded :: "u64 \<Rightarrow> bytes32 \<Rightarrow> bytes32 \<Rightarrow> pubkey \<Rightarrow> bytes32 \<Rightarrow> DecodedDeposit" where
  "deposit_decoded amount pk bl depositor asset =
     \<lparr> dd_data = \<lparr> did_amount = amount, did_recipient = pk, did_randomness = bl \<rparr>,
       dd_depositor = depositor, dd_asset_id = asset \<rparr>"

lemma decode_deposit_note:
  assumes "compiles cd keys (create_deposit_note_instruction rt pid depositor vault amount pk bl) ci"
    and "length pk = 32" and "length bl = 32"
  shows "decode_compiled_deposit cr cp cd ci keys pid =
    Some (deposit_decoded amount pk bl depositor native_asset_id)"
proof -
  let ?ix = "create_deposit_note_instruction rt pid depositor vault amount pk bl"
  have "account_at ci keys 3 = Some depositor"
    using compiles_account [OF assms(1), of 3] by (simp add: create_deposit_note_instruction_def)
  moreover have "get keys (ci_program_id_index ci) = Some pid"
    "bs58_decode cd (ci_data ci) = Some (ix_data ?ix)"
    using assms(1) by (simp_all add: compiles_def create_deposit_note_instruction_def)
  ultimately show ?thesis
    using borsh_deposit_roundtrip [OF assms(2,3)]
    by (simp add: decode_compiled_deposit_def create_deposit_note_instruction_def deposit_layout_def
        account_indices deposit_decoded_def)
qed

text \<open>The client has no builder for a token deposit; any instruction that fills the slots of
  \<open>DepositNoteSpl\<close> will do.\<close>

definition DepositNoteSpl_context :: "runtime \<Rightarrow> pubkey \<Rightarrow> slot list" where
  "DepositNoteSpl_context rt mint =
     [pinned (bridge_state_key rt), pinned_mut (asset_config_key rt mint), pinned mint,
      pinned_mut (asset_vault_key rt mint), unpinned_mut, pinned_mut (merkle_tree_key rt), signs_mut,
      unpinned]"

lemma decode_deposit_note_spl:
  assumes "compiles cd keys ix ci" and "ix_program_id ix = pid"
    and "ix_data ix = DEPOSIT_NOTE_SPL @ borsh_deposit_note
      \<lparr> dnd_amount = amount, dnd_pubkey = pk, dnd_blinding = bl \<rparr>"
    and "loads (DepositNoteSpl_context rt mint) ix" and "am_pubkey (ix_accounts ix ! 6) = depositor"
    and "length pk = 32" and "length bl = 32"
  shows "decode_compiled_deposit cr cp cd ci keys pid =
    Some (deposit_decoded amount pk bl depositor (node_mint_to_asset cr cp mint))"
proof -
  have "length (DepositNoteSpl_context rt mint) = 8" by (simp add: DepositNoteSpl_context_def)
  with assms(4) have acc: "list_all2 admits (DepositNoteSpl_context rt mint) (take 8 (ix_accounts ix))"
    by (simp only: loads_def)
  then have len: "8 \<le> length (ix_accounts ix)"
    by (auto dest!: list_all2_lengthD simp: DepositNoteSpl_context_def)
  then have "admits (pinned mint) (ix_accounts ix ! 2)"
    using list_all2_nthD [OF acc, of 2] by (simp add: DepositNoteSpl_context_def)
  then have "account_at ci keys 2 = Some mint" "account_at ci keys 6 = Some depositor"
    using compiles_account [OF assms(1), of 2] compiles_account [OF assms(1), of 6] len assms(5)
    by (simp_all add: admits_simps)
  moreover have "get keys (ci_program_id_index ci) = Some pid"
    "bs58_decode cd (ci_data ci) = Some (ix_data ix)"
    using assms(1,2) by (simp_all add: compiles_def)
  ultimately show ?thesis
    using borsh_deposit_roundtrip [OF assms(6,7)] spl_not_native
    by (simp add: decode_compiled_deposit_def assms(3) deposit_layout_def account_indices
        deposit_decoded_def)
qed

section \<open>The leaf the node credits is the leaf the program appended\<close>

lemma le_bytes_pad: "le_bytes (length bs + n) (le_val bs) = bs @ replicate n 0"
proof (induction bs)
  case Nil
  then show ?case by (induction n) simp_all
next
  case (Cons b bs)
  have "unat b < 256" using unat_bound [of b] by simp
  then have "(unat b + 256 * le_val bs) mod 256 = unat b" "(unat b + 256 * le_val bs) div 256 = le_val bs"
    by simp_all
  then show ?case using Cons by simp
qed

lemma canonical_le_bytes:
  assumes "ark_fr_ok cr" and "canonical_bytes cr v"
  shows "le_val v < fr_modulus" "le_bytes 32 (le_val v) = v" "length v = 32"
  using assms le_bytes_le_val [of v] by (simp_all add: canonical_bytes_iff)

lemma fr_to_bytes_32_ark: "ark_fr_ok cr \<Longrightarrow> y < fr_modulus \<Longrightarrow> fr_to_bytes_32 cr y = le_bytes 32 y"
  by (simp add: fr_to_bytes_32_def ark_frD(4) Let_def)

lemmas ark_bytes = fr_to_bytes_32_ark ark_frD

lemma syscall_parityD:
  assumes "syscall_parity cr cp" and "xs \<noteq> []" and "length xs \<le> 12" and "\<forall>x\<in>set xs. x < fr_modulus"
  shows "cp xs < fr_modulus" and "poseidon_hashv cr (map (le_bytes 32) xs) = Some (le_bytes 32 (cp xs))"
  using assms unfolding syscall_parity_def by blast+

lemma amount_field: "u64_to_le_bytes amount @ replicate 24 0 = le_bytes 32 (unat amount)"
  using le_bytes_pad [of "u64_to_le_bytes amount" 24] unat_u64_bound [of amount]
  by (simp add: u64_to_le_bytes_def le_val_le_bytes)

lemma leaf_agrees:
  assumes "ark_fr_ok cr" and "ark_fr_ok rt" and "syscall_parity rt cp"
    and "canonical_bytes rt pk" and "canonical_bytes rt bl" and "canonical_bytes rt asset"
    and "commitment rt amount pk bl asset = Ok cm"
    and "ev_amount ev = amount" and "ev_recipient ev = pk" and "ev_randomness ev = bl"
    and "ev_asset_id ev = asset"
  shows "deposit_leaf cr cp ev = cm"
proof -
  note can = canonical_le_bytes [OF assms(2)]
  let ?xs = "[unat amount, le_val pk, le_val bl, le_val asset]"
  have small: "\<forall>x\<in>set ?xs. x < fr_modulus"
    using can(1) assms(4-6) u64_lt_fr_modulus by simp
  then have cp: "cp ?xs < fr_modulus" "poseidon_hashv rt (map (le_bytes 32) ?xs) = Some (le_bytes 32 (cp ?xs))"
    using syscall_parityD [OF assms(3), of ?xs] by simp_all
  have "map (le_bytes 32) ?xs = [u64_to_le_bytes amount @ replicate 24 0, pk, bl, asset]"
    using can(2) assms(4-6) amount_field by simp
  with cp(2) assms(7) have "cm = le_bytes 32 (cp ?xs)"
    by (simp add: commitment_def Let_def rust_simps)
  moreover have "deposit_leaf cr cp ev = le_bytes 32 (cp ?xs)"
    using assms(8-11) small cp(1)
    by (simp add: deposit_leaf_def v3_commit_def ark_bytes [OF assms(1)])
  ultimately show ?thesis by simp
qed

lemma native_canonical: "ark_fr_ok cr \<Longrightarrow> canonical_bytes cr native_asset_id"
proof -
  have "le_val (replicate n (0 :: u8)) = 0" for n by (induction n) simp_all
  then show "ark_fr_ok cr \<Longrightarrow> ?thesis"
    by (simp add: canonical_bytes_iff native_asset_id_def fr_modulus_def)
qed

lemma asset_agrees:
  assumes "ark_fr_ok cr" and "ark_fr_ok rt" and "syscall_parity rt cp" and "length mint = 32"
    and "mint_to_asset rt mint = Ok asset"
  shows "node_mint_to_asset cr cp mint = asset" and "canonical_bytes rt asset"
proof -
  let ?lo = "le_val (take 16 mint)" and ?hi = "le_val (drop 16 mint)"
  have "?lo < 256 ^ 16" "?hi < 256 ^ 16"
    using le_val_bound [of "take 16 mint"] le_val_bound [of "drop 16 mint"] assms(4) by simp_all
  then have small: "?lo < fr_modulus" "?hi < fr_modulus" by (simp_all add: fr_modulus_def)
  have pad: "take 16 mint @ replicate 16 0 = le_bytes 32 ?lo" "drop 16 mint @ replicate 16 0 = le_bytes 32 ?hi"
    using le_bytes_pad [of "take 16 mint" 16] le_bytes_pad [of "drop 16 mint" 16] assms(4) by simp_all
  have cp: "cp [?lo, ?hi] < fr_modulus"
    "poseidon_hashv rt [le_bytes 32 ?lo, le_bytes 32 ?hi] = Some (le_bytes 32 (cp [?lo, ?hi]))"
    using syscall_parityD [OF assms(3), of "[?lo, ?hi]"] small by simp_all
  then have asset: "asset = le_bytes 32 (cp [?lo, ?hi])"
    using assms(5) by (simp add: mint_to_asset_def poseidon2_def pad Let_def rust_simps)
  show "node_mint_to_asset cr cp mint = asset"
    using small cp(1)
    by (simp add: node_mint_to_asset_def v3_merkle_pair_def ark_bytes [OF assms(1)] asset Let_def)
  show "canonical_bytes rt asset"
    using cp(1) by (simp add: canonical_bytes_iff [OF assms(2)] asset le_val_le_bytes_field)
qed

lemma deposit_note_spl_canonical:
  assumes "deposit_note_spl rt clk depositor mint dta amount pk bl c = Ok r"
  shows "canonical_bytes rt pk" "canonical_bytes rt bl"
  using assms by (auto simp: deposit_note_spl_def and_then_eq_Ok rust_simps Let_def)

lemma process_credits:
  assumes "ev_fee event = 0"
  shows "process_deposit cr cp db event p store =
    (case credit_commitment db (deposit_leaf cr cp event)
            (Note_new (ev_recipient event) (ev_amount event) (ev_randomness event) (ev_asset_id event))
            (ev_amount event) (ev_asset_id event) p store of
       (p', store', Ok _) \<Rightarrow> (p', store', Ok ())
     | (p', store', Err e) \<Rightarrow> (p', store', Err (DepositFailed e)))"
proof -
  have "checked_sub (ev_amount event) 0 = Some (ev_amount event)" by (simp add: checked_sub_def)
  then show ?thesis
    using assms
    by (simp add: process_deposit_def DepositTx_new_asset_def DepositTx_verify_def Note_new_def Let_def)
qed

text \<open>The event the listener builds for a deposit instruction.\<close>

definition deposit_event ::
  "string \<Rightarrow> confirmed_tx \<Rightarrow> u64 \<Rightarrow> bytes32 \<Rightarrow> bytes32 \<Rightarrow> pubkey \<Rightarrow> bytes32 \<Rightarrow> DepositEvent" where
  "deposit_event sig tx amount pk bl depositor asset =
     build_event sig tx (deposit_decoded amount pk bl depositor asset)"

lemma deposit_event_simps [simp]:
  "ev_amount (deposit_event sig tx amount pk bl k asset) = amount"
  "ev_recipient (deposit_event sig tx amount pk bl k asset) = pk"
  "ev_randomness (deposit_event sig tx amount pk bl k asset) = bl"
  "ev_asset_id (deposit_event sig tx amount pk bl k asset) = asset"
  "ev_fee (deposit_event sig tx amount pk bl k asset) = 0"
  "ev_signature (deposit_event sig tx amount pk bl k asset) = sig"
  "ev_from (deposit_event sig tx amount pk bl k asset) = k"
  by (simp_all add: deposit_event_def build_event_def deposit_decoded_def)

text \<open>C34. The node credits the leaf the program appended: when \<open>deposit_note\<close> succeeds on chain, the
  decoder turns the client's instruction, as it appears in a confirmed transaction, into one event
  with the depositor and the amount, and \<open>process_deposit\<close> credits that amount of native value under
  exactly the commitment of the program's own event (given that the host Poseidon equals the
  syscall's).\<close>

theorem native_deposit_mirrored:
  assumes "ark_fr_ok cr" and "ark_fr_ok rt" and "syscall_parity rt cp"
    and "deposit_note rt clk depositor amount pk bl c = Ok (c', DepositNote e)"
    and "compiles cd keys (create_deposit_note_instruction rt (program_id rt) depositor
      (bridge_vault_key rt) amount pk bl) ci"
  shows "\<exists>dd. decode_compiled_deposit cr cp cd ci keys (program_id rt) = Some dd \<and>
    ev_from (build_event sig tx dd) = depositor \<and> ev_amount (build_event sig tx dd) = de_amount e \<and>
    process_deposit cr cp db (build_event sig tx dd) p store =
      (case credit_commitment db (de_commitment e) (Note_new pk amount bl native_asset_id)
              (de_amount e) native_asset_id p store of
         (p', store', Ok _) \<Rightarrow> (p', store', Ok ())
       | (p', store', Err x) \<Rightarrow> (p', store', Err (DepositFailed x)))"
proof -
  let ?ev = "deposit_event sig tx amount pk bl depositor native_asset_id"
  from assms(4) have e: "de_amount e = amount" "commitment rt amount pk bl native_asset_id = Ok (de_commitment e)"
    and can: "canonical_bytes rt pk" "canonical_bytes rt bl"
    by (auto elim!: deposit_note_OkE simp: NATIVE_SOL_ASSET_def native_asset_id_def zero32_def)
  have leaf: "deposit_leaf cr cp ?ev = de_commitment e"
    using assms(1-3) can native_canonical [OF assms(2)] e(2) by (rule leaf_agrees) simp_all
  have "decode_compiled_deposit cr cp cd ci keys (program_id rt) =
      Some (deposit_decoded amount pk bl depositor native_asset_id)"
    using assms(5) canonical_le_bytes(3) [OF assms(2)] can by (intro decode_deposit_note)
  then show ?thesis
    using process_credits [of ?ev cr cp db p store] leaf e(1)
    by (simp add: deposit_event_def [symmetric])
qed

text \<open>C35. The same for a token deposit: the event of \<open>deposit_note_spl\<close> and the decoded instruction
  give the same leaf under the same asset id.\<close>

theorem token_deposit_mirrored:
  assumes "ark_fr_ok cr" and "ark_fr_ok rt" and "syscall_parity rt cp" and "length mint = 32"
    and "deposit_note_spl rt clk depositor mint dta amount pk bl c = Ok (c', DepositNoteSpl e)"
    and "compiles cd keys ix ci" and "ix_program_id ix = program_id rt"
    and "ix_data ix = DEPOSIT_NOTE_SPL @ borsh_deposit_note
      \<lparr> dnd_amount = amount, dnd_pubkey = pk, dnd_blinding = bl \<rparr>"
    and "loads (DepositNoteSpl_context rt mint) ix" and "am_pubkey (ix_accounts ix ! 6) = depositor"
  shows "\<exists>dd asset. mint_to_asset rt mint = Ok asset \<and>
    decode_compiled_deposit cr cp cd ci keys (program_id rt) = Some dd \<and>
    ev_from (build_event sig tx dd) = depositor \<and> ev_amount (build_event sig tx dd) = ds_amount e \<and>
    process_deposit cr cp db (build_event sig tx dd) p store =
      (case credit_commitment db (ds_commitment e) (Note_new pk amount bl asset)
              (ds_amount e) asset p store of
         (p', store', Ok _) \<Rightarrow> (p', store', Ok ())
       | (p', store', Err x) \<Rightarrow> (p', store', Err (DepositFailed x)))"
proof -
  from assms(5) obtain asset where e: "ds_amount e = amount" "mint_to_asset rt mint = Ok asset"
    "commitment rt amount pk bl asset = Ok (ds_commitment e)"
    by (auto elim!: deposit_note_spl_OkE)
  note asset = asset_agrees [OF assms(1-4) e(2)]
  note can = deposit_note_spl_canonical [OF assms(5)]
  let ?ev = "deposit_event sig tx amount pk bl depositor asset"
  have leaf: "deposit_leaf cr cp ?ev = ds_commitment e"
    using assms(1-3) can asset(2) e(3) by (rule leaf_agrees) simp_all
  have "decode_compiled_deposit cr cp cd ci keys (program_id rt) =
      Some (deposit_decoded amount pk bl depositor asset)"
    using decode_deposit_note_spl [OF assms(6-10) canonical_le_bytes(3) [OF assms(2) can(1)]
        canonical_le_bytes(3) [OF assms(2) can(2)], where cr = cr and cp = cp]
    unfolding asset(1) .
  then show ?thesis
    using process_credits [of ?ev cr cp db p store] leaf e(1,2)
    by (simp add: deposit_event_def [symmetric])
qed

text \<open>C39. Equal notes break the mirror: when the same note is deposited twice, the program appends
  two leaves and takes the amount twice, and the node, which tells deposits apart by commitment,
  reports both as processed but holds one leaf and one amount, so from then on its leaves are not
  the program's.\<close>

theorem repeated_deposit_diverges:
  assumes "ark_fr_ok cr" and "ark_fr_ok rt" and "syscall_parity rt cp"
    and "deposit_note rt clk k amount pk bl c = Ok (c1, DepositNote e1)"
    and "deposit_note rt clk' k' amount pk bl c1 = Ok (c2, DepositNote e2)"
    and "de_commitment e1 \<notin> sp_deposited p"
    and "process_deposit cr cp db (deposit_event s1 tx1 amount pk bl k native_asset_id) p store =
      (p1, store1, Ok ())"
    and "process_deposit cr cp db (deposit_event s2 tx2 amount pk bl k' native_asset_id) p1 store1 =
      (p2, store2, r)"
  shows "r = Ok () \<and> p2 = p1 \<and> store2 = store1 \<and>
    pt_leaves (sp_tree p2) = pt_leaves (sp_tree p) @ [de_commitment e1] \<and>
    unat (supply_of native_asset_id p2) = unat (supply_of native_asset_id p) + unat amount \<and>
    (\<exists>t t2. merkle_tree c = Some t \<and> merkle_tree c2 = Some t2 \<and>
       unat (mt_next_index t2) = unat (mt_next_index t) + 2) \<and>
    (\<exists>bs bs2. bridge_state c = Some bs \<and> bridge_state c2 = Some bs2 \<and>
       unat (bs_total_deposited bs2) = unat (bs_total_deposited bs) + 2 * unat amount)"
proof -
  from assms(4) have e: "commitment rt amount pk bl native_asset_id = Ok (de_commitment e1)"
    and can: "canonical_bytes rt pk" "canonical_bytes rt bl"
    by (auto elim!: deposit_note_OkE simp: NATIVE_SOL_ASSET_def native_asset_id_def zero32_def)
  have leaf: "deposit_leaf cr cp (deposit_event s tx amount pk bl j native_asset_id) = de_commitment e1" for s tx j
    using assms(1-3) can native_canonical [OF assms(2)] e by (rule leaf_agrees) simp_all
  obtain x where "credit_commitment db (de_commitment e1) (Note_new pk amount bl native_asset_id)
      amount native_asset_id p store = (p1, store1, Ok x)"
    using assms(7) by (auto simp: process_credits leaf split: prod.splits result.splits)
  then obtain t u i s where p1: "tree_insert db (de_commitment e1) (sp_tree p) store = Ok (t, u, i)"
    "checked_add (supply_of native_asset_id p) amount = Some s"
    "p1 = p\<lparr>sp_tree := t, sp_deposited := insert (de_commitment e1) (sp_deposited p),
       sp_notes := (sp_notes p)(de_commitment e1 \<mapsto> Note_new pk amount bl native_asset_id),
       sp_supplies := (sp_supplies p)(native_asset_id \<mapsto> s)\<rparr>"
    unfolding credit_fresh_Ok [OF assms(6)] by blast
  then have "credit_commitment db (de_commitment e1) n amount native_asset_id p1 store1 =
      (p1, store1, Ok (de_commitment e1))" for n by (intro credit_seen) simp
  then have node: "r = Ok ()" "p2 = p1" "store2 = store1"
    using assms(8) by (simp_all add: process_credits leaf)
  have "pt_leaves (sp_tree p1) = pt_leaves (sp_tree p) @ [de_commitment e1]"
    "unat (supply_of native_asset_id p1) = unat (supply_of native_asset_id p) + unat amount"
    using p1 by (auto simp: tree_insert_Ok supply_of_def checked_simps)
  moreover have step: "\<exists>t t' bs bs'. merkle_tree x = Some t \<and> merkle_tree y = Some t' \<and>
      unat (mt_next_index t') = unat (mt_next_index t) + 1 \<and> bridge_state x = Some bs \<and>
      bridge_state y = Some bs' \<and> unat (bs_total_deposited bs') = unat (bs_total_deposited bs) + unat amount"
    if "deposit_note rt l j amount pk bl x = Ok (y, ev)" for l j x y ev
    using that by (auto elim!: deposit_note_OkE tree_append_OkD simp: checked_simps)
  ultimately show ?thesis
    using node step [OF assms(4)] step [OF assms(5)] by auto
qed

section \<open>Examples\<close>

definition ref_circom :: "nat list \<Rightarrow> nat" where
  "ref_circom xs = le_val (the (ref_poseidon (map (le_bytes 32) xs)))"

lemma ref_poseidon_canonical: "\<exists>z. ref_poseidon xs = Some z \<and> canonical z"
proof (cases "\<exists>a b. xs = [a, b]")
  case True
  then obtain a b where xs: "xs = [a, b]" by blast
  have "canonical z" if "map_of (zip (butlast ZERO_HASHES) (tl ZERO_HASHES)) a = Some z" for z
  proof -
    from that have "z \<in> set (tl ZERO_HASHES)" by (auto dest!: map_of_SomeD set_zip_rightD)
    then have "z \<in> set ZERO_HASHES" by (metis list.set_sel(2) tl_Nil)
    then show ?thesis by (auto simp: in_set_conv_nth ZERO_HASHES_canonical)
  qed
  then show ?thesis
    by (auto simp: xs ref_poseidon_def canonical_def le_val_le_bytes_field split: option.split)
next
  case False
  then have "ref_poseidon xs = Some (le_bytes 32 (sum_list (map le_val xs) mod fr_modulus))"
    by (auto simp: ref_poseidon_def split: list.split)
  then show ?thesis by (simp add: canonical_def le_val_le_bytes_field)
qed

lemma ref_syscall_parity: "syscall_parity ref_runtime ref_circom"
proof -
  have "ref_circom xs < fr_modulus \<and> ref_poseidon (map (le_bytes 32) xs) = Some (le_bytes 32 (ref_circom xs))" for xs
  proof -
    obtain z where z: "ref_poseidon (map (le_bytes 32) xs) = Some z" "canonical z"
      using ref_poseidon_canonical by blast
    then have "le_bytes 32 (le_val z) = z" using le_bytes_le_val [of z] by (simp add: canonical_def)
    then show ?thesis using z by (simp add: ref_circom_def canonical_def)
  qed
  then show ?thesis by (simp add: syscall_parity_def)
qed

lemma ref_node_ark: "ark_fr_ok ref_node_crypto"
  using ref_sponge_ok by (simp add: sponge_ok_def)

definition example_keys :: "Instruction \<Rightarrow> pubkey list" where
  "example_keys ix = ix_program_id ix # map am_pubkey (ix_accounts ix)"

definition example_compiled :: "Instruction \<Rightarrow> UiCompiledInstruction" where
  "example_compiled ix =
     \<lparr> ci_program_id_index = 0, ci_accounts = map Suc [0..<length (ix_accounts ix)], ci_data = ''d'' \<rparr>"

definition example_codec :: "Instruction \<Rightarrow> codec" where
  "example_codec ix = \<lparr> bs58_decode = (\<lambda>_. Some (ix_data ix)), parse_pubkey = (\<lambda>_. None) \<rparr>"

lemma example_compiles: "compiles (example_codec ix) (example_keys ix) ix (example_compiled ix)"
  by (simp add: compiles_def example_codec_def example_keys_def example_compiled_def get_def)

definition example_tx :: confirmed_tx where
  "example_tx = \<lparr> ct_slot = 5, ct_block_time = None, ct_transaction = OtherEncoding, ct_meta = None \<rparr>"

text \<open>A deposit on the reference runtime, from a chain with room in its tree and its cap.\<close>

definition roomy :: "chain \<Rightarrow> bool" where
  "roomy c \<longleftrightarrow>
     (\<exists>bs t. bridge_state c = Some bs \<and> merkle_tree c = Some t \<and> \<not> bs_paused bs \<and> tree_canonical t \<and>
        unat (mt_next_index t) < 2 \<and> account_owner c = (\<lambda>k. zero32) \<and>
        unat (lamports c (bridge_vault_key ref_runtime)) \<le> 1000100 \<and> bs_deposit_cap bs = 2000000 \<and>
        100 \<le> lamports c (replicate 32 4) \<and> unat (bs_total_deposited bs) \<le> 6000)"

lemma roomy_deposit:
  assumes "roomy c"
  obtains c' e where "deposit_note ref_runtime example_clock (replicate 32 4) 100 (le_bytes 32 1)
      (le_bytes 32 2) c = Ok (c', DepositNote e)"
    "mt_next_index (the (merkle_tree c)) = 0 \<Longrightarrow>
      unat (lamports c (bridge_vault_key ref_runtime)) \<le> 1000000 \<Longrightarrow>
      200 \<le> lamports c (replicate 32 4) \<Longrightarrow>
      unat (bs_total_deposited (the (bridge_state c))) \<le> 5900 \<Longrightarrow> roomy c'"
proof -
  let ?v = "bridge_vault_key ref_runtime"
  have ne: "?v \<noteq> replicate 32 4" using ref_signer_ok [of "replicate 32 4"] by simp
  obtain bs t where c: "bridge_state c = Some bs" "merkle_tree c = Some t" "\<not> bs_paused bs"
    "tree_canonical t" "unat (mt_next_index t) < 2" "account_owner c = (\<lambda>k. zero32)"
    "unat (lamports c ?v) \<le> 1000100" "bs_deposit_cap bs = 2000000" "100 \<le> lamports c (replicate 32 4)"
    "unat (bs_total_deposited bs) \<le> 6000"
    using assms by (auto simp: roomy_def)
  obtain cm where cm: "commitment ref_runtime 100 (le_bytes 32 1) (le_bytes 32 2)
      NATIVE_SOL_ASSET = Ok cm" "canonical cm" using ref_hash_commitment by blast
  obtain t' r where t': "tree_append ref_runtime t cm = Ok (t', r)" "tree_canonical t'"
    using tree_append_succeeds [OF ref_poseidon_ok c(4) cm(2)] c(5) by (auto simp: TREE_DEPTH_def)
  have "require_canonical_field ref_runtime (le_bytes 32 1) e = Ok ()"
    "require_canonical_field ref_runtime (le_bytes 32 2) e = Ok ()" for e
    by (simp_all add: rust_simps canonical_bytes_ref canonical_small)
  moreover obtain a b where add: "checked_add (lamports c ?v) 100 = Some a" "checked_add (bs_total_deposited bs) 100 = Some b"
    using c(7,10) by (simp add: checked_add_def)
  moreover have "a \<le> 2000000" using add(1) c(7) by (simp add: checked_simps word_le_nat_alt)
  moreover have "unat (lamports c ?v) + 100 < 2 ^ 64" using c(7) by simp
  ultimately obtain c' e where dep: "deposit_note ref_runtime example_clock (replicate 32 4) 100
      (le_bytes 32 1) (le_bytes 32 2) c = Ok (c', DepositNote e)"
    using c cm(1) t'(1) ne
    by (simp add: deposit_note_def DepositNote_accounts_def require_system_account_def
        transfer_lamports_def ref_system_transfer_def)
  then show thesis
  proof (rule that)
    assume low: "mt_next_index (the (merkle_tree c)) = 0" "unat (lamports c ?v) \<le> 1000000"
      "200 \<le> lamports c (replicate 32 4)" "unat (bs_total_deposited (the (bridge_state c))) \<le> 5900"
    from dep obtain lam cm' t1 r1 d where c': "system_transfer ref_runtime (replicate 32 4) ?v 100 (lamports c) = Some lam"
      "tree_append ref_runtime t cm' = Ok (t1, r1)" "commitment ref_runtime 100 (le_bytes 32 1) (le_bytes 32 2)
      NATIVE_SOL_ASSET = Ok cm'" "checked_add (bs_total_deposited bs) 100 = Some d"
      "c' = c\<lparr>lamports := lam, merkle_tree := Some t1,
            bridge_state := Some (bs\<lparr>bs_total_deposited := d,
              bs_deposit_count := saturating_add (bs_deposit_count bs) 1\<rparr>)\<rparr>"
      using c(1,2) by (auto elim!: deposit_note_OkE)
    have t1: "tree_canonical t1" using c'(2,3) cm(1) t' by simp
    have "unat (mt_next_index t1) = 1"
      using c'(2) low(1) c(2) by (auto elim: tree_append_OkD)
    moreover have "unat (lam ?v) = unat (lamports c ?v) + 100"
      "unat (lamports c (replicate 32 4)) = unat (lam (replicate 32 4)) + 100"
      using system_transfer_moved [OF runtime_okD(1) [OF ref_runtime_ok] c'(1)] ne
      by (simp_all add: moved_def)
    then have "unat (lam ?v) \<le> 1000100" "100 \<le> lam (replicate 32 4)"
      using low(2,3) by (simp_all add: word_le_nat_alt)
    moreover have "unat d \<le> 6000" using c'(4) low(4) c(1) by (simp add: checked_simps)
    ultimately show "roomy c'"
      using c t1 unfolding c'(5) roomy_def by simp
  qed
qed

lemma example_roomy: "roomy example_chain"
proof -
  have "mt_next_index initialize_tree = 0" by (simp add: initialize_tree_def)
  then show ?thesis
    by (simp add: roomy_def example_chain_def example_bridge_def tree_canonical_initialize)
qed

lemma credit_into_new:
  "\<exists>p. credit_commitment db cm n amount a new_pool None = (p, None, Ok cm) \<and>
     pt_leaves (sp_tree p) = [cm] \<and> sp_deposited p = {cm} \<and> supply_of a p = amount"
  by (simp add: credit_commitment_def new_pool_def tree_insert_def persist_def new_tree_def
      with_depth_def supply_of_def checked_add_def unat_bound [of amount, simplified] Let_def)

theorem native_deposit_mirrored_witness:
  "\<exists>c' e ix dd p. deposit_note ref_runtime example_clock (replicate 32 4) 100 (le_bytes 32 1)
       (le_bytes 32 2) example_chain = Ok (c', DepositNote e) \<and>
     ix = create_deposit_note_instruction ref_runtime (program_id ref_runtime) (replicate 32 4)
       (bridge_vault_key ref_runtime) 100 (le_bytes 32 1) (le_bytes 32 2) \<and>
     decode_compiled_deposit ref_node_crypto ref_circom (example_codec ix) (example_compiled ix)
       (example_keys ix) (program_id ref_runtime) = Some dd \<and>
     process_deposit ref_node_crypto ref_circom ref_rocksdb (build_event ''s'' example_tx dd) new_pool None
       = (p, None, Ok ()) \<and> pt_leaves (sp_tree p) = [de_commitment e]"
proof (rule roomy_deposit [OF example_roomy])
  fix c' e
  let ?ix = "create_deposit_note_instruction ref_runtime (program_id ref_runtime) (replicate 32 4)
       (bridge_vault_key ref_runtime) 100 (le_bytes 32 1) (le_bytes 32 2)"
  assume dep: "deposit_note ref_runtime example_clock (replicate 32 4) 100 (le_bytes 32 1)
       (le_bytes 32 2) example_chain = Ok (c', DepositNote e)"
  obtain p where p: "credit_commitment ref_rocksdb (de_commitment e)
      (Note_new (le_bytes 32 1) 100 (le_bytes 32 2) native_asset_id) (de_amount e) native_asset_id new_pool None
      = (p, None, Ok (de_commitment e))" "pt_leaves (sp_tree p) = [de_commitment e]"
    using credit_into_new by blast
  from native_deposit_mirrored [OF ref_node_ark ref_ark_fr_ok ref_syscall_parity dep example_compiles,
      of "''s''" example_tx ref_rocksdb new_pool None]
  show ?thesis using dep p by auto
qed

theorem repeated_deposit_diverges_witness:
  "\<exists>c1 c2 e1 e2 p1. deposit_note ref_runtime example_clock (replicate 32 4) 100 (le_bytes 32 1)
       (le_bytes 32 2) example_chain = Ok (c1, DepositNote e1) \<and>
     deposit_note ref_runtime example_clock (replicate 32 4) 100 (le_bytes 32 1) (le_bytes 32 2) c1
       = Ok (c2, DepositNote e2) \<and>
     process_deposit ref_node_crypto ref_circom ref_rocksdb
       (deposit_event ''b'' example_tx 100 (le_bytes 32 1) (le_bytes 32 2) (replicate 32 4) native_asset_id) p1 None
       = (p1, None, Ok ()) \<and> pt_leaves (sp_tree p1) = [de_commitment e1] \<and>
     unat (mt_next_index (the (merkle_tree c2))) = 2"
proof (rule roomy_deposit [OF example_roomy])
  let ?ev = "\<lambda>s. deposit_event s example_tx 100 (le_bytes 32 1) (le_bytes 32 2) (replicate 32 4) native_asset_id"
  fix c1 e1
  assume d1: "deposit_note ref_runtime example_clock (replicate 32 4) 100 (le_bytes 32 1)
       (le_bytes 32 2) example_chain = Ok (c1, DepositNote e1)"
    and "mt_next_index (the (merkle_tree example_chain)) = 0 \<Longrightarrow>
      unat (lamports example_chain (bridge_vault_key ref_runtime)) \<le> 1000000 \<Longrightarrow>
      200 \<le> lamports example_chain (replicate 32 4) \<Longrightarrow>
      unat (bs_total_deposited (the (bridge_state example_chain))) \<le> 5900 \<Longrightarrow> roomy c1"
  then have "roomy c1" by (simp add: example_chain_def example_bridge_def initialize_tree_def)
  then obtain c2 e2 where d2: "deposit_note ref_runtime example_clock (replicate 32 4) 100
      (le_bytes 32 1) (le_bytes 32 2) c1 = Ok (c2, DepositNote e2)" by (rule roomy_deposit)
  obtain p1 where "credit_commitment ref_rocksdb (deposit_leaf ref_node_crypto ref_circom (?ev ''a''))
      (Note_new (le_bytes 32 1) 100 (le_bytes 32 2) native_asset_id) 100 native_asset_id new_pool None
      = (p1, None, Ok (deposit_leaf ref_node_crypto ref_circom (?ev ''a'')))"
    using credit_into_new by blast
  then have p1: "process_deposit ref_node_crypto ref_circom ref_rocksdb (?ev ''a'') new_pool None = (p1, None, Ok ())"
    by (simp add: process_credits)
  obtain p2 s2 r where p2: "process_deposit ref_node_crypto ref_circom ref_rocksdb (?ev ''b'') p1 None = (p2, s2, r)"
    by (cases "process_deposit ref_node_crypto ref_circom ref_rocksdb (?ev ''b'') p1 None")
  have fresh: "de_commitment e1 \<notin> sp_deposited new_pool" by (simp add: new_pool_def)
  have "pt_leaves (sp_tree new_pool) = []" "mt_next_index (the (merkle_tree example_chain)) = 0"
    by (simp_all add: new_pool_def new_tree_def with_depth_def example_chain_def initialize_tree_def)
  then show ?thesis
    using repeated_deposit_diverges [OF ref_node_ark ref_ark_fr_ok ref_syscall_parity d1 d2 fresh p1 p2] d1 d2 p2
    by auto
qed

definition example_spl_ix :: Instruction where
  "example_spl_ix =
     \<lparr> ix_program_id = program_id ref_runtime,
       ix_accounts = [meta (bridge_state_key ref_runtime) False,
         meta (asset_config_key ref_runtime (replicate 32 3)) False, meta (replicate 32 3) False,
         meta (asset_vault_key ref_runtime (replicate 32 3)) False, meta (replicate 32 4) False,
         meta (merkle_tree_key ref_runtime) False, meta (replicate 32 9) True,
         meta SPL_TOKEN_PROGRAM_ID False],
       ix_data = DEPOSIT_NOTE_SPL @ borsh_deposit_note
         \<lparr> dnd_amount = 100, dnd_pubkey = le_bytes 32 1, dnd_blinding = le_bytes 32 2 \<rparr> \<rparr>"

theorem token_deposit_mirrored_witness:
  "\<exists>c' e dd p. deposit_note_spl ref_runtime example_clock (replicate 32 9) (replicate 32 3)
       (replicate 32 4) 100 (le_bytes 32 1) (le_bytes 32 2) example_spl_chain = Ok (c', DepositNoteSpl e) \<and>
     decode_compiled_deposit ref_node_crypto ref_circom (example_codec example_spl_ix)
       (example_compiled example_spl_ix) (example_keys example_spl_ix) (program_id ref_runtime) = Some dd \<and>
     process_deposit ref_node_crypto ref_circom ref_rocksdb (build_event ''s'' example_tx dd) new_pool None
       = (p, None, Ok ()) \<and> pt_leaves (sp_tree p) = [ds_commitment e]"
proof -
  obtain c' ev where dep: "deposit_note_spl ref_runtime example_clock (replicate 32 9) (replicate 32 3)
       (replicate 32 4) 100 (le_bytes 32 1) (le_bytes 32 2) example_spl_chain = Ok (c', ev)"
    using example_deposit_spl by blast
  then obtain e where ev: "ev = DepositNoteSpl e" by (rule deposit_note_spl_OkE)
  note dep = dep [unfolded ev]
  have ix: "ix_program_id example_spl_ix = program_id ref_runtime"
    "ix_data example_spl_ix = DEPOSIT_NOTE_SPL @ borsh_deposit_note
         \<lparr> dnd_amount = 100, dnd_pubkey = le_bytes 32 1, dnd_blinding = le_bytes 32 2 \<rparr>"
    "loads (DepositNoteSpl_context ref_runtime (replicate 32 3)) example_spl_ix"
    "am_pubkey (ix_accounts example_spl_ix ! 6) = replicate 32 9"
    by (simp_all add: example_spl_ix_def loads_def admits_simps DepositNoteSpl_context_def)
  have "length (replicate 32 (3 :: u8)) = 32" by simp
  from token_deposit_mirrored [OF ref_node_ark ref_ark_fr_ok ref_syscall_parity this dep example_compiles ix,
      of "''s''" example_tx ref_rocksdb new_pool None]
  obtain dd asset where dd: "decode_compiled_deposit ref_node_crypto ref_circom (example_codec example_spl_ix)
      (example_compiled example_spl_ix) (example_keys example_spl_ix) (program_id ref_runtime) = Some dd"
    "process_deposit ref_node_crypto ref_circom ref_rocksdb (build_event ''s'' example_tx dd) new_pool None =
      (case credit_commitment ref_rocksdb (ds_commitment e) (Note_new (le_bytes 32 1) 100 (le_bytes 32 2) asset)
              (ds_amount e) asset new_pool None of
         (p', store', Ok _) \<Rightarrow> (p', store', Ok ())
       | (p', store', Err x) \<Rightarrow> (p', store', Err (DepositFailed x)))" by blast
  obtain p where "credit_commitment ref_rocksdb (ds_commitment e) (Note_new (le_bytes 32 1) 100 (le_bytes 32 2) asset)
      (ds_amount e) asset new_pool None = (p, None, Ok (ds_commitment e))" "pt_leaves (sp_tree p) = [ds_commitment e]"
    using credit_into_new by blast
  with dd dep show ?thesis by auto
qed

end
