(* ===== verification/Listener.thy ===== *)
theory Listener
  imports Deposit_Events
begin

text \<open>
  The deposit listener (\<open>bridge/solana/listener.rs\<close>): one poll fetches the program's new
  signatures page by page, decodes their deposits, credits them to the pool and moves the scan
  cursor. The RPC is a parameter that answers one poll; the pool, its store and the outcome of the
  cursor write are parts of the state or arguments. A panic inside a poll ends the poller task and is
  the result \<open>None\<close>.
\<close>

section \<open>The RPC and the poller's state\<close>

type_synonym signature = bytes

definition MAX_SIGNATURE_PAGES :: nat where "MAX_SIGNATURE_PAGES = 50"

definition SIGNATURE_BATCH_LIMIT :: nat where "SIGNATURE_BATCH_LIMIT = 1000"

definition SEEN_SIGNATURE_CAP :: nat where "SEEN_SIGNATURE_CAP = 100000"

datatype rpc_error = SolanaRpc string | OtherRpcError

record signature_info =
  si_signature :: string
  si_err :: bool

record bridge_rpc =
  get_signatures ::
    "signature option \<Rightarrow> signature option \<Rightarrow> nat \<Rightarrow> (signature_info list, rpc_error) result"
  get_transaction :: "signature \<Rightarrow> (confirmed_tx, rpc_error) result"
  get_slot :: "(u64, rpc_error) result"

record signature_codec = codec +
  parse_signature :: "string \<Rightarrow> signature option"
  show_signature :: "signature \<Rightarrow> string"

record BridgeStats =
  bst_total_deposits :: u64
  bst_volume_deposited :: u64
  bst_last_block :: u64
  bst_event_lag_slots :: u64

text \<open>\<open>po_cursor_file\<close> is the cursor file, if a path is configured and the file is there.\<close>

record 'd poller =
  po_program_id :: pubkey
  po_pool :: shielded_pool
  po_store :: "'d option"
  po_stats :: BridgeStats
  po_last_signature :: "signature option"
  po_seen :: "signature set"
  po_last_processed_slot :: u64
  po_batch_limit :: nat
  po_cursor_file :: "string option option"

section \<open>The cursor\<close>

definition is_space :: "char \<Rightarrow> bool" where
  "is_space c \<longleftrightarrow> of_char c \<in> {9 :: nat, 10, 11, 12, 13, 32}"

definition trim_text :: "string \<Rightarrow> string" where
  "trim_text s = rev (dropWhile is_space (rev (dropWhile is_space s)))"

definition load_cursor :: "signature_codec \<Rightarrow> string option \<Rightarrow> signature option" where
  "load_cursor cd raw = Option.bind raw (\<lambda>text. parse_signature cd (trim_text text))"

text \<open>Starting resumes from the cursor file.\<close>

definition start_listener :: "signature_codec \<Rightarrow> 'd poller \<Rightarrow> 'd poller" where
  "start_listener cd s =
     (case Option.bind (po_cursor_file s) (load_cursor cd) of
        Some sig \<Rightarrow> s\<lparr>po_last_signature := Some sig\<rparr>
      | None \<Rightarrow> s)"

definition persist_cursor :: "signature_codec \<Rightarrow> bool \<Rightarrow> signature \<Rightarrow> 'd poller \<Rightarrow> 'd poller" where
  "persist_cursor cd written sig s =
     (case po_cursor_file s of
        Some _ \<Rightarrow> if written then s\<lparr>po_cursor_file := Some (Some (show_signature cd sig))\<rparr> else s
      | None \<Rightarrow> s)"

definition clear_cursor :: "bool \<Rightarrow> 'd poller \<Rightarrow> 'd poller" where
  "clear_cursor removed s =
     (let s1 = s\<lparr>po_last_signature := None\<rparr>
      in case po_cursor_file s1 of
           Some _ \<Rightarrow> if removed then s1\<lparr>po_cursor_file := Some None\<rparr> else s1
         | None \<Rightarrow> s1)"

fun contains_text :: "string \<Rightarrow> string \<Rightarrow> bool" where
  "contains_text pat [] = (pat = [])"
| "contains_text pat (c # cs) = (take (length pat) (c # cs) = pat \<or> contains_text pat cs)"

definition is_stale_until_cursor :: "rpc_error \<Rightarrow> bool" where
  "is_stale_until_cursor e =
     (case e of SolanaRpc msg \<Rightarrow> contains_text ''-32020'' msg | OtherRpcError \<Rightarrow> False)"

text \<open>The loop of \<open>contiguous_cursor\<close>.\<close>

fun cursor_loop ::
  "signature set \<Rightarrow> (signature \<times> bool) list \<Rightarrow> signature option \<Rightarrow> bool \<Rightarrow> signature list
     \<Rightarrow> signature option \<times> signature list" where
  "cursor_loop failed_sigs [] cursor frozen failed = (cursor, failed)"
| "cursor_loop failed_sigs ((sig, ok) # rest) cursor frozen failed =
     (let frozen' = (frozen \<or> sig \<in> failed_sigs) in
      if frozen' then cursor_loop failed_sigs rest cursor True (if ok then failed else failed @ [sig])
      else if ok then cursor_loop failed_sigs rest (Some sig) False failed
      else cursor_loop failed_sigs rest cursor False failed)"

definition contiguous_cursor ::
  "(signature \<times> bool) list \<Rightarrow> signature option \<times> signature list" where
  "contiguous_cursor outcomes =
     cursor_loop (set (map fst (filter (\<lambda>(_, ok). \<not> ok) outcomes))) outcomes None False []"

section \<open>Fetching\<close>

text \<open>The page loop. The first component says whether the cursor was dropped on the way.\<close>

function fetch_pages ::
  "bridge_rpc \<Rightarrow> signature_codec \<Rightarrow> nat \<Rightarrow> signature option \<Rightarrow> signature option \<Rightarrow> nat
     \<Rightarrow> signature_info list \<Rightarrow> bool \<Rightarrow> bool \<times> (signature_info list, rpc_error) result" where
  "fetch_pages rpc cd batch_limit effective_cursor before pages signatures cleared =
     (case get_signatures rpc before effective_cursor batch_limit of
        Err e \<Rightarrow>
          if effective_cursor \<noteq> None \<and> is_stale_until_cursor e
          then fetch_pages rpc cd batch_limit None None 0 [] True
          else (cleared, Err e)
      | Ok batch \<Rightarrow>
          if batch = [] then (cleared, Ok signatures)
          else if length batch < batch_limit \<or> effective_cursor = None \<or>
                  MAX_SIGNATURE_PAGES \<le> pages + 1
          then (cleared, Ok (signatures @ batch))
          else (case parse_signature cd (si_signature (last batch)) of
                  None \<Rightarrow> (cleared, Ok (signatures @ batch))
                | Some sig \<Rightarrow> fetch_pages rpc cd batch_limit effective_cursor (Some sig) (pages + 1)
                    (signatures @ batch) cleared))"
  by pat_completeness auto

termination
  by (relation "measures [\<lambda>(_, _, _, cursor, _). if cursor = None then 0 else 1,
      \<lambda>(_, _, _, _, _, pages, _). MAX_SIGNATURE_PAGES - pages]") auto

declare fetch_pages.simps [simp del]

definition to_fetch :: "signature_codec \<Rightarrow> signature set \<Rightarrow> signature_info list \<Rightarrow> signature list" where
  "to_fetch cd seen signatures =
     List.map_filter (\<lambda>s. case parse_signature cd (si_signature s) of
         None \<Rightarrow> None
       | Some sig \<Rightarrow> if si_err s \<or> sig \<in> seen then None else Some sig) (rev signatures)"

fun fetch_transactions ::
  "'z node_crypto_scheme \<Rightarrow> (nat list \<Rightarrow> nat) \<Rightarrow> signature_codec \<Rightarrow> bridge_rpc \<Rightarrow> pubkey
     \<Rightarrow> signature list \<Rightarrow> DepositEvent list \<Rightarrow> (DepositEvent list, rpc_error) result" where
  "fetch_transactions cr cp cd rpc pid [] events = Ok events"
| "fetch_transactions cr cp cd rpc pid (sig # sigs) events =
     and_then (get_transaction rpc sig) (\<lambda>confirmed.
     fetch_transactions cr cp cd rpc pid sigs
       (events @ extract_deposit_events cr cp (codec.truncate cd) (show_signature cd sig) confirmed pid))"

definition mark_seen :: "signature list \<Rightarrow> signature set \<Rightarrow> signature set" where
  "mark_seen newly_seen seen =
     foldl (\<lambda>seen sig. insert sig (if SEEN_SIGNATURE_CAP \<le> card seen then {} else seen)) seen newly_seen"

definition fetch_events ::
  "'z node_crypto_scheme \<Rightarrow> (nat list \<Rightarrow> nat) \<Rightarrow> signature_codec \<Rightarrow> bridge_rpc \<Rightarrow> bool
     \<Rightarrow> 'd poller \<Rightarrow> 'd poller \<times> (DepositEvent list, rpc_error) result" where
  "fetch_events cr cp cd rpc removed s =
     (let (cleared, fetched) =
            fetch_pages rpc cd (po_batch_limit s) (po_last_signature s) None 0 [] False;
          s1 = (if cleared then clear_cursor removed s else s)
      in case fetched of
           Err e \<Rightarrow> (s1, Err e)
         | Ok signatures \<Rightarrow>
             if signatures = [] then (s1, Ok [])
             else let sigs = to_fetch cd (po_seen s1) signatures
                  in case fetch_transactions cr cp cd rpc (po_program_id s1) sigs [] of
                       Err e \<Rightarrow> (s1, Err e)
                     | Ok events \<Rightarrow> (s1\<lparr>po_seen := mark_seen sigs (po_seen s1)\<rparr>, Ok events))"

section \<open>One poll\<close>

text \<open>Whether an error of \<open>process_deposit\<close> is a panic rather than a returned error.\<close>

definition panics :: "deposit_error \<Rightarrow> bool" where
  "panics e = (case e of DepositPanic \<Rightarrow> True | DepositFailed Overflow \<Rightarrow> True | _ \<Rightarrow> False)"

definition count_deposit :: "u64 \<Rightarrow> BridgeStats \<Rightarrow> BridgeStats option" where
  "count_deposit amount st =
     Option.bind (checked_add (bst_total_deposits st) 1) (\<lambda>n.
     Option.bind (checked_add (bst_volume_deposited st) amount) (\<lambda>v.
     Some (st\<lparr>bst_total_deposits := n, bst_volume_deposited := v\<rparr>)))"

definition note_outcome ::
  "signature_codec \<Rightarrow> DepositEvent \<Rightarrow> bool \<Rightarrow> (signature \<times> bool) list \<Rightarrow> (signature \<times> bool) list" where
  "note_outcome cd event ok outcomes =
     (case parse_signature cd (ev_signature event) of
        Some sig \<Rightarrow> outcomes @ [(sig, ok)]
      | None \<Rightarrow> outcomes)"

fun process_events ::
  "'z node_crypto_scheme \<Rightarrow> (nat list \<Rightarrow> nat) \<Rightarrow> 'd rocksdb \<Rightarrow> signature_codec \<Rightarrow> DepositEvent list
     \<Rightarrow> nat \<Rightarrow> u64 \<Rightarrow> (signature \<times> bool) list \<Rightarrow> 'd poller
     \<Rightarrow> (nat \<times> u64 \<times> (signature \<times> bool) list \<times> 'd poller) option" where
  "process_events cr cp db cd [] processed latest outcomes s = Some (processed, latest, outcomes, s)"
| "process_events cr cp db cd (event # events) processed latest outcomes s =
     (case process_deposit cr cp db event (po_pool s) (po_store s) of
        (p, store, Ok _) \<Rightarrow>
          Option.bind (count_deposit (ev_amount event) (po_stats s)) (\<lambda>st.
          process_events cr cp db cd events (processed + 1) (max latest (ev_block event))
            (note_outcome cd event True outcomes)
            (s\<lparr>po_pool := p, po_store := store, po_stats := st\<rparr>))
      | (p, store, Err e) \<Rightarrow>
          if panics e then None
          else process_events cr cp db cd events processed latest (note_outcome cd event False outcomes)
            (s\<lparr>po_pool := p, po_store := store\<rparr>))"

definition update_lag_metric :: "bridge_rpc \<Rightarrow> 'd poller \<Rightarrow> 'd poller" where
  "update_lag_metric rpc s =
     (case get_slot rpc of
        Err _ \<Rightarrow> s
      | Ok current_slot \<Rightarrow>
          let lag = saturating_sub current_slot (po_last_processed_slot s)
          in s\<lparr>po_stats := (po_stats s)\<lparr>bst_event_lag_slots := lag\<rparr>,
               po_last_processed_slot := current_slot\<rparr>)"

definition poll_events ::
  "'z node_crypto_scheme \<Rightarrow> (nat list \<Rightarrow> nat) \<Rightarrow> 'd rocksdb \<Rightarrow> signature_codec \<Rightarrow> bridge_rpc
     \<Rightarrow> bool \<Rightarrow> bool \<Rightarrow> 'd poller \<Rightarrow> ('d poller \<times> (nat, rpc_error) result) option" where
  "poll_events cr cp db cd rpc removed written s =
     (case fetch_events cr cp cd rpc removed s of
        (s1, Err e) \<Rightarrow> Some (s1, Err e)
      | (s1, Ok events) \<Rightarrow>
          Option.bind (process_events cr cp db cd events 0 0 [] s1)
            (\<lambda>(processed, latest_slot, outcomes, s2).
          let (cursor_advance, failed) = contiguous_cursor outcomes;
              s3 = s2\<lparr>po_seen := po_seen s2 - set failed\<rparr>;
              s4 = (case cursor_advance of
                      Some sig \<Rightarrow> persist_cursor cd written sig (s3\<lparr>po_last_signature := Some sig\<rparr>)
                    | None \<Rightarrow> s3);
              s5 = (if 0 < latest_slot
                    then s4\<lparr>po_stats := (po_stats s4)\<lparr>bst_last_block := latest_slot\<rparr>\<rparr> else s4)
          in Some (update_lag_metric rpc s5, Ok processed)))"

section \<open>Paging\<close>

text \<open>
  What the RPC documents, over a history of signatures and error flags, oldest first: the entries
  strictly between \<open>until\<close> and \<open>before\<close>, newest first, cut at the limit.
\<close>

definition listed ::
  "(signature \<times> bool) list \<Rightarrow> signature option \<Rightarrow> signature option \<Rightarrow> (signature \<times> bool) list" where
  "listed h before until =
     takeWhile (\<lambda>x. Some (fst x) \<noteq> before)
       (case until of None \<Rightarrow> h | Some c \<Rightarrow> tl (dropWhile (\<lambda>x. fst x \<noteq> c) h))"

definition info :: "signature_codec \<Rightarrow> signature \<times> bool \<Rightarrow> signature_info" where
  "info cd x = \<lparr> si_signature = show_signature cd (fst x), si_err = snd x \<rparr>"

definition serves :: "signature_codec \<Rightarrow> bridge_rpc \<Rightarrow> (signature \<times> bool) list \<Rightarrow> bool" where
  "serves cd rpc h \<longleftrightarrow>
     distinct (map fst h) \<and> (\<forall>s. parse_signature cd (show_signature cd s) = Some s) \<and>
     (\<forall>before until limit. (\<forall>c. until = Some c \<longrightarrow> c \<in> fst ` set h) \<longrightarrow>
        get_signatures rpc before until limit = Ok (take limit (rev (map (info cd) (listed h before until)))))"

definition newer :: "(signature \<times> bool) list \<Rightarrow> signature \<Rightarrow> (signature \<times> bool) list" where
  "newer h c = listed h None (Some c)"

lemma newer_eq: "newer h c = tl (dropWhile (\<lambda>x. fst x \<noteq> c) h)"
proof -
  have "takeWhile (\<lambda>x. True) xs = xs" for xs :: "'a list" by (simp add: takeWhile_eq_all_conv)
  then show ?thesis by (simp add: newer_def listed_def)
qed

lemma newer_distinct:
  assumes "distinct (map fst h)"
  shows "distinct (map fst (newer h c))"
proof -
  have "newer h c = drop (Suc (length (takeWhile (\<lambda>x. fst x \<noteq> c) h))) h"
    by (simp add: newer_eq dropWhile_eq_drop drop_Suc tl_drop)
  then show ?thesis using assms by (simp add: drop_map [symmetric])
qed

lemma takeWhile_fst_nth:
  assumes "distinct (map fst xs)" and "m < length xs"
  shows "takeWhile (\<lambda>x. fst x \<noteq> fst (xs ! m)) xs = take m xs"
proof (rule takeWhile_eq_take_P_nth)
  fix i
  assume "i < m" "i < length xs"
  then show "fst (xs ! i) \<noteq> fst (xs ! m)"
    using assms nth_eq_iff_index_eq [OF assms(1), of i m] by simp
qed (use assms in simp)

lemma older_page:
  assumes "distinct (map fst A)" and "0 < j" and "j \<le> length A"
  shows "rev (takeWhile (\<lambda>x. fst x \<noteq> fst (rev A ! (j - 1))) A) = drop j (rev A)"
proof -
  have "rev A ! (j - 1) = A ! (length A - j)" using assms(2,3) by (simp add: rev_nth)
  then show ?thesis
    using takeWhile_fst_nth [OF assms(1), of "length A - j"] assms(2,3) by (simp add: rev_take)
qed

definition page_mark :: "(signature \<times> bool) list \<Rightarrow> nat \<Rightarrow> signature option" where
  "page_mark A j = (if j = 0 then None else Some (fst (rev A ! (j - 1))))"

lemma serves_page:
  assumes "serves cd rpc h" and "c \<in> fst ` set h" and "j \<le> length (newer h c)"
  shows "get_signatures rpc (page_mark (newer h c) j) (Some c) limit =
    Ok (take limit (drop j (rev (map (info cd) (newer h c)))))"
proof -
  let ?A = "newer h c"
  have d: "distinct (map fst ?A)" using assms(1) by (auto simp: serves_def intro: newer_distinct)
  have "rev (listed h (page_mark ?A j) (Some c)) = drop j (rev ?A)"
  proof (cases "j = 0")
    case False
    then have "listed h (page_mark ?A j) (Some c) = takeWhile (\<lambda>x. fst x \<noteq> fst (rev ?A ! (j - 1))) ?A"
      by (simp add: listed_def newer_eq page_mark_def)
    then show ?thesis using older_page [OF d _ assms(3)] False by simp
  qed (simp add: page_mark_def newer_def)
  then show ?thesis
    using assms(1,2) by (auto simp: serves_def rev_map drop_map)
qed

lemma fetch_pages_exact:
  assumes "serves cd rpc h" and "c \<in> fst ` set h" and "0 < limit" and "k < MAX_SIGNATURE_PAGES"
    and "k * limit \<le> length (newer h c)"
  shows "fetch_pages rpc cd limit (Some c) (page_mark (newer h c) (k * limit)) k
      (take (k * limit) (rev (map (info cd) (newer h c)))) cleared =
    (cleared, Ok (take (MAX_SIGNATURE_PAGES * limit) (rev (map (info cd) (newer h c)))))"
  using assms(4,5)
proof (induction "MAX_SIGNATURE_PAGES - k" arbitrary: k)
  case (Suc n)
  let ?A = "newer h c" let ?R = "rev (map (info cd) ?A)"
  let ?batch = "take limit (drop (k * limit) ?R)"
  have batch: "get_signatures rpc (page_mark ?A (k * limit)) (Some c) limit = Ok ?batch"
    by (rule serves_page [OF assms(1,2) Suc.prems(2)])
  have acc: "take (k * limit) ?R @ ?batch = take (Suc k * limit) ?R"
    by (simp only: mult_Suc add.commute [of limit] take_add)
  have short: "take (Suc k * limit) ?R = take (MAX_SIGNATURE_PAGES * limit) ?R"
    if "length ?R < Suc k * limit"
  proof -
    have "Suc k * limit \<le> MAX_SIGNATURE_PAGES * limit" using Suc.prems(1) by (intro mult_le_mono1) simp
    then show ?thesis using that by simp
  qed
  show ?case
  proof (cases "length ?R < Suc k * limit \<or> Suc k = MAX_SIGNATURE_PAGES")
    case True
    then have all: "take (Suc k * limit) ?R = take (MAX_SIGNATURE_PAGES * limit) ?R"
      using short by metis
    have "?batch = [] \<Longrightarrow> take (k * limit) ?R = take (MAX_SIGNATURE_PAGES * limit) ?R"
      using acc all by (metis append_Nil2)
    moreover have "length ?batch < limit \<or> Suc k = MAX_SIGNATURE_PAGES"
      using True Suc.prems(2) assms(3) by auto
    ultimately show ?thesis
      by (subst fetch_pages.simps) (use batch acc all in auto)
  next
    case False
    then have full: "length ?batch = limit" "Suc k * limit \<le> length ?A" "Suc k < MAX_SIGNATURE_PAGES"
      using Suc.prems(1) by auto
    then have "?batch \<noteq> []" using assms(3) by auto
    moreover have "last ?batch = ?R ! (Suc k * limit - 1)"
      using full assms(3) by (simp add: last_conv_nth add.commute)
    then have "last ?batch = info cd (rev ?A ! (Suc k * limit - 1))"
      using full(2) assms(3) by (simp add: rev_map)
    then have "parse_signature cd (si_signature (last ?batch)) = page_mark ?A (Suc k * limit)"
      using assms(1,3) by (simp add: info_def page_mark_def serves_def)
    then obtain b where b: "parse_signature cd (si_signature (last ?batch)) = Some b"
      "page_mark ?A (Suc k * limit) = Some b" using assms(3) by (simp add: page_mark_def)
    ultimately have "fetch_pages rpc cd limit (Some c) (page_mark ?A (k * limit)) k (take (k * limit) ?R) cleared =
        fetch_pages rpc cd limit (Some c) (page_mark ?A (Suc k * limit)) (Suc k) (take (Suc k * limit) ?R) cleared"
      by (subst fetch_pages.simps) (use batch full acc in simp)
    then show ?thesis
      using Suc.hyps(1) [of "Suc k"] Suc.hyps(2) full(2,3) by simp
  qed
qed simp

section \<open>The cursor stops before a failure\<close>

lemma cursor_loop_frozen: "fst (cursor_loop F outs cur True failed) = cur"
  by (induction F outs cur True failed rule: cursor_loop.induct) simp_all

lemma cursor_loop_failed:
  assumes "{s. (s, False) \<in> set outs} \<subseteq> F"
  shows "set (snd (cursor_loop F outs cur frozen failed)) = set failed \<union> {s. (s, False) \<in> set outs}"
  using assms
proof (induction F outs cur frozen failed rule: cursor_loop.induct)
  case (2 F sig ok rest cur frozen failed)
  then show ?case by (cases ok; cases "frozen \<or> sig \<in> F") auto
qed simp

lemma cursor_loop_some:
  assumes "fst (cursor_loop F outs cur False failed) = Some sg"
  shows "cur = Some sg \<or> (\<exists>pre post. outs = pre @ (sg, True) # post \<and> sg \<notin> F \<and> (\<forall>x\<in>set pre. fst x \<notin> F))"
  using assms
proof (induction outs arbitrary: cur failed)
  case (Cons out outs)
  obtain s ok where o: "out = (s, ok)" by (cases out)
  show ?case
  proof (cases "s \<in> F")
    case True
    then show ?thesis using Cons.prems by (simp add: o cursor_loop_frozen)
  next
    case False
    then obtain cur' where run: "fst (cursor_loop F outs cur' False failed) = Some sg"
      and cur': "cur' = (if ok then Some s else cur)" using Cons.prems by (simp add: o split: if_splits)
    from Cons.IH [OF run] show ?thesis
    proof (elim disjE exE conjE)
      assume "cur' = Some sg"
      then show ?thesis
        using cur' False by (cases ok) (auto simp: o intro: exI [of _ "[]"])
    next
      fix pre post
      assume "outs = pre @ (sg, True) # post" "sg \<notin> F" "\<forall>x\<in>set pre. fst x \<notin> F"
      then show ?thesis using False by (intro disjI2 exI [of _ "out # pre"] exI [of _ post]) (simp add: o)
    qed
  qed
qed simp

lemma contiguous_failed: "set (snd (contiguous_cursor outs)) = {s. (s, False) \<in> set outs}"
  unfolding contiguous_cursor_def by (subst cursor_loop_failed) force+

lemma contiguous_some:
  assumes "fst (contiguous_cursor outs) = Some sg"
  obtains pre post where "outs = pre @ (sg, True) # post"
    "\<forall>x\<in>set (pre @ [(sg, True)]). (fst x, False) \<notin> set outs"
proof -
  let ?F = "set (map fst (filter (\<lambda>(_, ok). \<not> ok) outs))"
  have F: "(s, False) \<in> set outs \<Longrightarrow> s \<in> ?F" for s by force
  from cursor_loop_some [OF assms [unfolded contiguous_cursor_def]]
  obtain pre post where "outs = pre @ (sg, True) # post" "sg \<notin> ?F" "\<forall>x\<in>set pre. fst x \<notin> ?F"
    by blast
  then have pre: "outs = pre @ (sg, True) # post" "\<forall>x\<in>set (pre @ [(sg, True)]). fst x \<notin> ?F" by simp_all
  show thesis using pre F by (intro that [of pre post]) blast+
qed

lemma prefix_before:
  assumes "xs @ ys = pre @ y # post" and "y \<notin> set xs"
  shows "set xs \<subseteq> set pre"
  using assms
proof (induction xs arbitrary: pre)
  case (Cons x xs)
  then show ?case by (cases pre) auto
qed simp

text \<open>When the outcomes come in blocks, one block per signature, nothing up to the new cursor
  failed.\<close>

lemma cursor_covers:
  assumes "map fst outs = concat (map blk us) @ blk sg @ concat (map blk vs)"
    and "\<forall>s. set (blk s) \<subseteq> {s}" and "distinct (us @ sg # vs)"
    and "fst (contiguous_cursor outs) = Some sg" and "x \<in> set us \<union> {sg}"
  shows "(x, False) \<notin> set outs"
proof -
  obtain pre post where o: "outs = pre @ (sg, True) # post"
    "\<forall>x\<in>set (pre @ [(sg, True)]). (fst x, False) \<notin> set outs"
    using assms(4) by (rule contiguous_some)
  show ?thesis
  proof (cases "x = sg")
    case False
    then have x: "x \<in> set us" using assms(5) by simp
    have "map fst outs = map fst pre @ sg # map fst post" using o(1) by simp
    moreover have "sg \<notin> set (concat (map blk us))" using assms(2,3) by auto
    ultimately have sub: "set (concat (map blk us)) \<subseteq> fst ` set pre"
      using prefix_before [of "concat (map blk us)" "blk sg @ concat (map blk vs)" "map fst pre" sg "map fst post"]
        assms(1) by simp
    show ?thesis
    proof
      assume "(x, False) \<in> set outs"
      then have "x \<in> set (map fst outs)" by force
      then have "x \<in> fst ` set pre \<or> x \<in> set (concat (map blk vs)) \<or> x \<in> set (blk sg)"
        using sub unfolding assms(1) by auto
      moreover have "x \<notin> fst ` set pre" using o(2) \<open>(x, False) \<in> set outs\<close> by auto
      moreover have "x \<notin> set (blk sg)" using assms(2) False by blast
      ultimately have "x \<in> set (concat (map blk vs))" by blast
      then have "x \<in> set vs" using assms(2) by auto
      with x show False using assms(3) by auto
    qed
  qed (use o in auto)
qed

section \<open>No deposit below the cursor is missed\<close>

lemma credit_grows:
  assumes "credit_commitment db cm n amount a p store = (p', store', r)"
  shows "sp_deposited p \<subseteq> sp_deposited p'" and "r = Ok x \<Longrightarrow> cm \<in> sp_deposited p'"
  using assms
  by (auto simp: credit_commitment_def Let_def split: if_splits result.splits option.splits)

lemma process_deposit_cases:
  assumes "process_deposit cr cp db ev p store = (p', store', r)"
  obtains (refused) e where "p' = p" "store' = store" "r = Err e"
  | (credited) note' r' where "credit_commitment db (deposit_leaf cr cp ev) note' (ev_amount ev)
      (ev_asset_id ev) p store = (p', store', r')" "is_ok r = is_ok r'"
  using assms
  by (auto simp: process_deposit_def split: option.splits if_splits prod.splits result.splits)

lemma process_deposit_grows:
  assumes "process_deposit cr cp db ev p store = (p', store', r)"
  shows "sp_deposited p \<subseteq> sp_deposited p'" and "is_ok r \<Longrightarrow> deposit_leaf cr cp ev \<in> sp_deposited p'"
proof -
  have "sp_deposited p \<subseteq> sp_deposited p' \<and> (is_ok r \<longrightarrow> deposit_leaf cr cp ev \<in> sp_deposited p')"
    using assms
  proof (cases rule: process_deposit_cases)
    case (credited note' r')
    from credit_grows [OF credited(1)] credited(2) show ?thesis by (cases r') auto
  qed simp
  then show "sp_deposited p \<subseteq> sp_deposited p'" "is_ok r \<Longrightarrow> deposit_leaf cr cp ev \<in> sp_deposited p'" by auto
qed

text \<open>What a run over the events leaves: one outcome per event, in order, and the leaf of every
  event that succeeded.\<close>

definition settles ::
  "'z node_crypto_scheme \<Rightarrow> (nat list \<Rightarrow> nat) \<Rightarrow> signature_codec \<Rightarrow> DepositEvent list
     \<Rightarrow> (signature \<times> bool) list \<Rightarrow> 'd poller \<Rightarrow> 'd poller \<Rightarrow> bool" where
  "settles cr cp cd events outs s s' \<longleftrightarrow>
     list_all2 (\<lambda>ev x. parse_signature cd (ev_signature ev) = Some (fst x) \<and>
       (snd x \<longrightarrow> deposit_leaf cr cp ev \<in> sp_deposited (po_pool s'))) events outs \<and>
     sp_deposited (po_pool s) \<subseteq> sp_deposited (po_pool s') \<and> po_seen s' = po_seen s \<and>
     po_last_signature s' = po_last_signature s \<and> po_cursor_file s' = po_cursor_file s \<and>
     po_batch_limit s' = po_batch_limit s \<and> po_program_id s' = po_program_id s"

lemma process_events_settles:
  assumes "\<forall>ev\<in>set events. parse_signature cd (ev_signature ev) \<noteq> None"
    and "process_events cr cp db cd events n l outs s = Some (n', l', outs', s')"
  shows "\<exists>new. outs' = outs @ new \<and> settles cr cp cd events new s s'"
  using assms
proof (induction events arbitrary: n l outs s)
  case (Cons ev events)
  obtain p store r where pd: "process_deposit cr cp db ev (po_pool s) (po_store s) = (p, store, r)"
    by (cases "process_deposit cr cp db ev (po_pool s) (po_store s)")
  obtain sg where sg: "parse_signature cd (ev_signature ev) = Some sg" using Cons.prems(1) by auto
  note grows = process_deposit_grows [OF pd]
  obtain n1 l1 s1 where run: "process_events cr cp db cd events n1 l1 (outs @ [(sg, is_ok r)]) s1 =
      Some (n', l', outs', s')" and s1: "po_pool s1 = p" "po_seen s1 = po_seen s"
    "po_last_signature s1 = po_last_signature s" "po_cursor_file s1 = po_cursor_file s"
    "po_batch_limit s1 = po_batch_limit s" "po_program_id s1 = po_program_id s"
  proof (cases r)
    case (Ok u)
    then show ?thesis
      using Cons.prems(2) pd sg that
      by (auto simp: note_outcome_def bind_eq_Some_conv)
  next
    case (Err e)
    then show ?thesis
      using Cons.prems(2) pd sg that
      by (auto simp: note_outcome_def split: if_splits)
  qed
  from Cons.IH [OF _ run] Cons.prems(1) obtain new where
    new: "outs' = outs @ (sg, is_ok r) # new" "settles cr cp cd events new s1 s'" by auto
  have "settles cr cp cd (ev # events) ((sg, is_ok r) # new) s s'"
    using new(2) grows s1 sg by (cases r) (auto simp: settles_def)
  then show ?case using new(1) by blast
qed (simp add: settles_def)

text \<open>The finalized transactions: what \<open>getTransaction\<close> returns for a signature when it answers.\<close>

definition deposits_of ::
  "'z node_crypto_scheme \<Rightarrow> (nat list \<Rightarrow> nat) \<Rightarrow> signature_codec \<Rightarrow> pubkey \<Rightarrow> (signature \<Rightarrow> confirmed_tx)
     \<Rightarrow> signature \<Rightarrow> DepositEvent list" where
  "deposits_of cr cp cd pid txs sg =
     extract_deposit_events cr cp (codec.truncate cd) (show_signature cd sg) (txs sg) pid"

definition reads :: "bridge_rpc \<Rightarrow> (signature \<Rightarrow> confirmed_tx) \<Rightarrow> bool" where
  "reads rpc txs \<longleftrightarrow> (\<forall>s tx. get_transaction rpc s = Ok tx \<longrightarrow> tx = txs s)"

lemma extract_signature:
  "ev \<in> set (extract_deposit_events cr cp cd sig tx pid) \<Longrightarrow> ev_signature ev = sig"
  by (auto simp: extract_deposit_events_def List.map_filter_def build_event_def
      split: if_splits EncodedTransaction.splits UiMessage.splits option.splits)

lemma fetch_transactions_Ok:
  assumes "reads rpc txs" and "fetch_transactions cr cp cd rpc pid sigs events = Ok all"
  shows "all = events @ concat (map (deposits_of cr cp cd pid txs) sigs)"
  using assms(2)
proof (induction sigs arbitrary: events)
  case (Cons sg sigs)
  from Cons.prems obtain tx where tx: "get_transaction rpc sg = Ok tx"
    "fetch_transactions cr cp cd rpc pid sigs (events @
       extract_deposit_events cr cp (codec.truncate cd) (show_signature cd sg) tx pid) = Ok all"
    by (auto simp: and_then_eq_Ok)
  have "tx = txs sg" using assms(1) tx(1) by (simp add: reads_def)
  then show ?case using Cons.IH [OF tx(2)] by (simp add: deposits_of_def)
qed simp

lemma fetch_transactions_Err:
  assumes "fetch_transactions cr cp cd rpc pid sigs events = Err e"
  obtains sg where "get_transaction rpc sg = Err e"
  using assms
proof (induction sigs arbitrary: events)
  case (Cons sg sigs)
  then show ?case by (cases "get_transaction rpc sg") auto
qed simp

definition credited ::
  "'z node_crypto_scheme \<Rightarrow> (nat list \<Rightarrow> nat) \<Rightarrow> signature_codec \<Rightarrow> pubkey \<Rightarrow> (signature \<Rightarrow> confirmed_tx)
     \<Rightarrow> shielded_pool \<Rightarrow> signature \<Rightarrow> bool" where
  "credited cr cp cd pid txs p sg \<longleftrightarrow>
     (\<forall>ev\<in>set (deposits_of cr cp cd pid txs sg). deposit_leaf cr cp ev \<in> sp_deposited p)"

lemma credited_mono:
  "credited cr cp cd pid txs p sg \<Longrightarrow> sp_deposited p \<subseteq> sp_deposited q \<Longrightarrow> credited cr cp cd pid txs q sg"
  by (auto simp: credited_def)

lemma newer_append: "c \<in> fst ` set h \<Longrightarrow> newer (h @ h') c = newer h c @ h'"
proof -
  assume "c \<in> fst ` set h"
  then obtain x where x: "x \<in> set h" "\<not> fst x \<noteq> c" by auto
  then have "dropWhile (\<lambda>x. fst x \<noteq> c) h \<noteq> []" by (auto simp: dropWhile_eq_Nil_conv)
  then show ?thesis using dropWhile_append1 [of x h "\<lambda>x. fst x \<noteq> c" h'] x by (simp add: newer_eq)
qed

lemma newer_split:
  assumes "distinct (map fst (us @ (c, e) # vs))"
  shows "newer (us @ (c, e) # vs) c = vs"
proof -
  have "\<forall>x\<in>set us. fst x \<noteq> c" using assms by auto
  then have "dropWhile (\<lambda>x. fst x \<noteq> c) (us @ (c, e) # vs) = (c, e) # vs"
    by (simp add: dropWhile_append2)
  then show ?thesis by (simp add: newer_eq)
qed

text \<open>The invariant, for a listener that resumed at \<open>c0\<close>: every transaction between there and the
  cursor, and every one marked seen, is credited.\<close>

definition caught_up ::
  "'z node_crypto_scheme \<Rightarrow> (nat list \<Rightarrow> nat) \<Rightarrow> signature_codec \<Rightarrow> (signature \<Rightarrow> confirmed_tx)
     \<Rightarrow> signature \<Rightarrow> (signature \<times> bool) list \<Rightarrow> 'd poller \<Rightarrow> bool" where
  "caught_up cr cp cd txs c0 h s \<longleftrightarrow>
     (\<exists>c. po_last_signature s = Some c \<and> c \<in> fst ` set h \<and> c0 \<in> fst ` set h \<and>
        (\<forall>x\<in>set (newer h c0) - set (newer h c). \<not> snd x \<longrightarrow>
           credited cr cp cd (po_program_id s) txs (po_pool s) (fst x))) \<and>
     (\<forall>sg\<in>po_seen s. credited cr cp cd (po_program_id s) txs (po_pool s) sg)"

lemma caught_up_extend:
  assumes "caught_up cr cp cd txs c0 h s" and "distinct (map fst (h @ h'))"
  shows "caught_up cr cp cd txs c0 (h @ h') s"
proof -
  obtain c where c: "po_last_signature s = Some c" "c \<in> fst ` set h" "c0 \<in> fst ` set h"
    "\<forall>x\<in>set (newer h c0) - set (newer h c). \<not> snd x \<longrightarrow>
       credited cr cp cd (po_program_id s) txs (po_pool s) (fst x)"
    "\<forall>sg\<in>po_seen s. credited cr cp cd (po_program_id s) txs (po_pool s) sg"
    using assms(1) by (auto simp: caught_up_def)
  have "set (newer (h @ h') c0) - set (newer (h @ h') c) \<subseteq> set (newer h c0) - set (newer h c)"
    using newer_append [OF c(2)] newer_append [OF c(3)] by auto
  then show ?thesis using c unfolding caught_up_def by (intro conjI exI [of _ c]) auto
qed

lemma to_fetch_infos:
  assumes "\<forall>s. parse_signature cd (show_signature cd s) = Some s"
  shows "to_fetch cd seen (rev (map (info cd) A)) = map fst (filter (\<lambda>x. \<not> snd x \<and> fst x \<notin> seen) A)"
  unfolding to_fetch_def rev_rev_ident using assms
  by (induction A) (auto simp: List.map_filter_simps info_def)

lemma mark_seen_subset: "mark_seen sigs seen \<subseteq> seen \<union> set sigs"
  unfolding mark_seen_def by (induction sigs arbitrary: seen) (fastforce split: if_splits)+

definition fresh_signatures :: "(signature \<times> bool) list \<Rightarrow> signature set \<Rightarrow> signature list" where
  "fresh_signatures A seen = map fst (filter (\<lambda>x. \<not> snd x \<and> fst x \<notin> seen) A)"

text \<open>What one poll lists: the newest entries, up to the page cap.\<close>

definition recent :: "nat \<Rightarrow> (signature \<times> bool) list \<Rightarrow> (signature \<times> bool) list" where
  "recent limit A = drop (length A - MAX_SIGNATURE_PAGES * limit) A"

lemma recent_all: "length A \<le> MAX_SIGNATURE_PAGES * limit \<Longrightarrow> recent limit A = A"
  by (simp add: recent_def)

lemma fetch_events_exact:
  assumes "serves cd rpc h" and "reads rpc txs" and "po_last_signature s = Some c"
    and "c \<in> fst ` set h" and "0 < po_batch_limit s"
  obtains (failed) e sg where "fetch_events cr cp cd rpc removed s = (s, Err e)" "get_transaction rpc sg = Err e"
  | (fetched) sigs where "sigs = fresh_signatures (recent (po_batch_limit s) (newer h c)) (po_seen s)"
      "fetch_events cr cp cd rpc removed s = (s\<lparr>po_seen := mark_seen sigs (po_seen s)\<rparr>,
         Ok (concat (map (deposits_of cr cp cd (po_program_id s) txs) sigs)))"
proof -
  let ?A = "recent (po_batch_limit s) (newer h c)"
  let ?sigs = "fresh_signatures ?A (po_seen s)"
  have "0 < MAX_SIGNATURE_PAGES" by (simp add: MAX_SIGNATURE_PAGES_def)
  from fetch_pages_exact [OF assms(1,4,5) this, of False]
  have pages: "fetch_pages rpc cd (po_batch_limit s) (Some c) None 0 [] False =
      (False, Ok (rev (map (info cd) ?A)))" by (simp add: page_mark_def recent_def take_rev drop_map)
  have sigs: "to_fetch cd (po_seen s) (rev (map (info cd) ?A)) = ?sigs"
    using to_fetch_infos assms(1) by (auto simp: serves_def fresh_signatures_def)
  show thesis
  proof (cases "fetch_transactions cr cp cd rpc (po_program_id s) ?sigs []")
    case (Err e)
    then obtain sg where "get_transaction rpc sg = Err e" by (rule fetch_transactions_Err)
    then show ?thesis
      using pages sigs assms(3) Err
      by (intro failed [of e sg]) (auto simp: fetch_events_def fresh_signatures_def)
  next
    case (Ok events)
    then have "events = concat (map (deposits_of cr cp cd (po_program_id s) txs) ?sigs)"
      using fetch_transactions_Ok [OF assms(2)] by fastforce
    then have "fetch_events cr cp cd rpc removed s = (s\<lparr>po_seen := mark_seen ?sigs (po_seen s)\<rparr>,
         Ok (concat (map (deposits_of cr cp cd (po_program_id s) txs) ?sigs)))"
      using pages sigs assms(3) Ok by (auto simp: fetch_events_def fresh_signatures_def mark_seen_def)
    then show ?thesis by (rule fetched [OF refl])
  qed
qed

lemma settled_blocks:
  assumes "settles cr cp cd (concat (map D sigs)) outs s s'"
    and "\<forall>sg. \<forall>ev\<in>set (D sg). parse_signature cd (ev_signature ev) = Some sg"
  shows "map fst outs = concat (map (\<lambda>sg. map (\<lambda>_. sg) (D sg)) sigs)"
proof -
  have "map (\<lambda>x. Some (fst x)) outs = map (\<lambda>ev. parse_signature cd (ev_signature ev)) (concat (map D sigs))"
    using assms(1) unfolding settles_def
    by (auto simp: list_all2_conv_all_nth intro!: nth_equalityI)
  also have "\<dots> = map Some (concat (map (\<lambda>sg. map (\<lambda>_. sg) (D sg)) sigs))"
    using assms(2) by (induction sigs) auto
  finally have "map Some (map fst outs) = map Some (concat (map (\<lambda>sg. map (\<lambda>_. sg) (D sg)) sigs))"
    by (simp add: comp_def)
  then show ?thesis by (rule map_injective) (rule inj_Some)
qed

lemma settled_leaf:
  assumes "settles cr cp cd events outs s s'" and "ev \<in> set events"
    and "parse_signature cd (ev_signature ev) = Some sg" and "(sg, False) \<notin> set outs"
  shows "deposit_leaf cr cp ev \<in> sp_deposited (po_pool s')"
proof -
  obtain i where i: "i < length events" "events ! i = ev" using assms(2) by (auto simp: in_set_conv_nth)
  have all: "list_all2 (\<lambda>ev x. parse_signature cd (ev_signature ev) = Some (fst x) \<and>
       (snd x \<longrightarrow> deposit_leaf cr cp ev \<in> sp_deposited (po_pool s'))) events outs"
    using assms(1) by (simp add: settles_def)
  then have out: "outs ! i \<in> set outs" using i(1) by (simp add: list_all2_lengthD)
  have "fst (outs ! i) = sg" "snd (outs ! i) \<longrightarrow> deposit_leaf cr cp ev \<in> sp_deposited (po_pool s')"
    using list_all2_nthD [OF all i(1)] i(2) assms(3) by auto
  moreover from this(1) have "snd (outs ! i)" using out assms(4) by (metis prod.collapse)
  ultimately show ?thesis by blast
qed

lemma deposits_signature:
  assumes "serves cd rpc h"
  shows "\<forall>sg. \<forall>ev\<in>set (deposits_of cr cp cd pid txs sg). parse_signature cd (ev_signature ev) = Some sg"
  using assms by (auto simp: serves_def deposits_of_def dest: extract_signature)

lemma settled_credited:
  assumes "serves cd rpc h"
    and "settles cr cp cd (concat (map (deposits_of cr cp cd pid txs) sigs)) outs s s'"
    and "sg \<in> set sigs" and "(sg, False) \<notin> set outs"
  shows "credited cr cp cd pid txs (po_pool s') sg"
  unfolding credited_def
proof
  fix ev
  assume ev: "ev \<in> set (deposits_of cr cp cd pid txs sg)"
  then have "ev \<in> set (concat (map (deposits_of cr cp cd pid txs) sigs))" using assms(3) by auto
  with assms(2) show "deposit_leaf cr cp ev \<in> sp_deposited (po_pool s')"
    using deposits_signature [OF assms(1)] ev assms(4) by (rule_tac settled_leaf) blast+
qed

lemma newer_at:
  assumes "distinct (map fst h)" and "c \<in> fst ` set h"
  obtains us e where "h = us @ (c, e) # newer h c"
proof -
  from assms(2) obtain x where "x \<in> set h" "fst x = c" by auto
  then obtain us vs where h: "h = us @ (c, snd x) # vs" by (metis prod.collapse split_list)
  then have "newer h c = vs" using newer_split assms(1) by blast
  then show thesis using that h by blast
qed

lemma newer_of_newer:
  assumes "distinct (map fst h)" and "c \<in> fst ` set h" and "newer h c = ws @ (sg, e) # zs"
  shows "newer h sg = zs" and "sg \<in> fst ` set h"
proof -
  obtain us e' where h: "h = (us @ (c, e') # ws) @ (sg, e) # zs"
    using newer_at [OF assms(1,2)] assms(3) by auto
  then show "newer h sg = zs" using newer_split [of "us @ (c, e') # ws" sg e zs] assms(1) by simp
  show "sg \<in> fst ` set h" unfolding h by force
qed

lemma fresh_split:
  assumes "sg \<in> set (fresh_signatures A seen)"
  obtains ws zs where "A = ws @ (sg, False) # zs"
    "fresh_signatures A seen = fresh_signatures ws seen @ sg # fresh_signatures zs seen"
proof -
  from assms have "(sg, False) \<in> set A" "sg \<notin> seen" by (auto simp: fresh_signatures_def)
  then show thesis using that by (auto simp: fresh_signatures_def dest: split_list)
qed

lemma fresh_distinct: "distinct (map fst A) \<Longrightarrow> distinct (fresh_signatures A seen)"
  unfolding fresh_signatures_def by (rule distinct_map_filter)

lemma cursor_at:
  assumes "serves cd rpc h" and "c \<in> fst ` set h" and "newer h c = old @ A"
    and "settles cr cp cd (concat (map (deposits_of cr cp cd pid txs) (fresh_signatures A seen))) outs s s'"
    and "fst (contiguous_cursor outs) = Some sg"
  obtains ws zs where "A = ws @ (sg, False) # zs" "newer h sg = zs" "sg \<in> fst ` set h"
    "fresh_signatures A seen = fresh_signatures ws seen @ sg # fresh_signatures zs seen"
proof -
  have "map fst outs = concat (map (\<lambda>sg. map (\<lambda>_. sg) (deposits_of cr cp cd pid txs sg)) (fresh_signatures A seen))"
    by (rule settled_blocks [OF assms(4) deposits_signature [OF assms(1)]])
  moreover have "sg \<in> set (map fst outs)"
    using contiguous_some [OF assms(5)] by (metis in_set_conv_decomp fst_conv image_eqI set_map)
  ultimately have "sg \<in> set (fresh_signatures A seen)" by auto
  then obtain ws zs where A: "A = ws @ (sg, False) # zs"
    and F: "fresh_signatures A seen = fresh_signatures ws seen @ sg # fresh_signatures zs seen"
    by (rule fresh_split)
  have "distinct (map fst h)" "newer h c = (old @ ws) @ (sg, False) # zs"
    using assms(1,3) A by (simp_all add: serves_def)
  from that [OF A _ _ F] newer_of_newer [OF this(1) assms(2) this(2)] show thesis by simp
qed

lemma cursor_step:
  assumes "serves cd rpc h" and "c \<in> fst ` set h"
    and "settles cr cp cd (concat (map (deposits_of cr cp cd pid txs) (fresh_signatures (newer h c) seen))) outs s s'"
    and "fst (contiguous_cursor outs) = Some sg"
    and "\<forall>x\<in>seen. credited cr cp cd pid txs (po_pool s') x"
  shows "\<forall>x\<in>set (newer h c) - set (newer h sg). \<not> snd x \<longrightarrow> credited cr cp cd pid txs (po_pool s') (fst x)"
proof -
  let ?blk = "\<lambda>sg. map (\<lambda>_. sg) (deposits_of cr cp cd pid txs sg)"
  have d: "distinct (map fst h)" using assms(1) by (simp add: serves_def)
  have "newer h c = [] @ newer h c" by simp
  then obtain ws zs where A: "newer h c = ws @ (sg, False) # zs" and zs: "newer h sg = zs"
    and F: "fresh_signatures (newer h c) seen = fresh_signatures ws seen @ sg # fresh_signatures zs seen"
    by (rule cursor_at [OF assms(1,2) _ assms(3,4)])
  have ok: "(x, False) \<notin> set outs" if "x \<in> set (fresh_signatures ws seen) \<union> {sg}" for x
  proof (rule cursor_covers [OF _ _ _ assms(4) that])
    show "map fst outs = concat (map ?blk (fresh_signatures ws seen)) @ ?blk sg @
        concat (map ?blk (fresh_signatures zs seen))"
      using settled_blocks [OF assms(3) deposits_signature [OF assms(1)]] unfolding F by simp
    show "distinct (fresh_signatures ws seen @ sg # fresh_signatures zs seen)"
      using fresh_distinct [OF newer_distinct [OF d], of c seen] by (simp only: F)
  qed auto
  show ?thesis
  proof (intro ballI impI)
    fix x
    assume x: "x \<in> set (newer h c) - set (newer h sg)" "\<not> snd x"
    then have ws: "x \<in> set ws \<or> fst x = sg" unfolding zs A by auto
    show "credited cr cp cd pid txs (po_pool s') (fst x)"
    proof (cases "fst x \<in> seen")
      case False
      then have "fst x \<in> set (fresh_signatures ws seen) \<union> {sg}"
        using ws x(2) by (auto simp: fresh_signatures_def)
      then show ?thesis using settled_credited [OF assms(1,3) _ ok] F by auto
    qed (use assms(5) in blast)
  qed
qed

lemma caught_up_step:
  assumes "serves cd rpc h" and "caught_up cr cp cd txs c0 h s" and "po_last_signature s = Some c"
    and "sigs = fresh_signatures (newer h c) (po_seen s)"
    and "settles cr cp cd (concat (map (deposits_of cr cp cd (po_program_id s) txs) sigs)) outs
      (s\<lparr>po_seen := mark_seen sigs (po_seen s)\<rparr>) s2"
    and "po_pool s' = po_pool s2" and "po_program_id s' = po_program_id s"
    and "po_seen s' = po_seen s2 - set (snd (contiguous_cursor outs))"
    and "po_last_signature s' = (case fst (contiguous_cursor outs) of Some sg \<Rightarrow> Some sg | None \<Rightarrow> Some c)"
  shows "caught_up cr cp cd txs c0 h s'"
proof -
  let ?cr = "credited cr cp cd (po_program_id s) txs (po_pool s2)"
  have inv: "c \<in> fst ` set h" "c0 \<in> fst ` set h"
    "\<forall>x\<in>set (newer h c0) - set (newer h c). \<not> snd x \<longrightarrow>
       credited cr cp cd (po_program_id s) txs (po_pool s) (fst x)"
    "\<forall>sg\<in>po_seen s. credited cr cp cd (po_program_id s) txs (po_pool s) sg"
    using assms(2,3) by (auto simp: caught_up_def)
  have grows: "sp_deposited (po_pool s) \<subseteq> sp_deposited (po_pool s2)" and seen2: "po_seen s2 = mark_seen sigs (po_seen s)"
    using assms(5) by (simp_all add: settles_def)
  have seen: "\<forall>x\<in>po_seen s. ?cr x" using inv(4) grows by (blast intro: credited_mono)
  have seen': "\<forall>x\<in>po_seen s'. ?cr x"
  proof
    fix x
    assume "x \<in> po_seen s'"
    then have "x \<in> po_seen s \<or> x \<in> set sigs" "(x, False) \<notin> set outs"
      using mark_seen_subset [of sigs "po_seen s"] unfolding assms(8) seen2 contiguous_failed by auto
    then show "?cr x" using seen settled_credited [OF assms(1,5)] by blast
  qed
  obtain c' where c': "po_last_signature s' = Some c'" "c' \<in> fst ` set h"
    "\<forall>x\<in>set (newer h c) - set (newer h c'). \<not> snd x \<longrightarrow> ?cr (fst x)"
  proof (cases "fst (contiguous_cursor outs)")
    case (Some sg)
    have "newer h c = [] @ newer h c" by simp
    then have "sg \<in> fst ` set h"
      by (rule cursor_at [OF assms(1) inv(1) _ assms(5) [unfolded assms(4)] Some])
    with that [of sg] cursor_step [OF assms(1) inv(1) assms(5) [unfolded assms(4)] Some seen] assms(9) Some
    show ?thesis by simp
  qed (use that [of c] inv(1) assms(9) in simp)
  have "\<forall>x\<in>set (newer h c0) - set (newer h c'). \<not> snd x \<longrightarrow> ?cr (fst x)"
    using inv(3) grows c'(3) by (blast intro: credited_mono)
  then show ?thesis
    using c'(1,2) inv(2) seen' unfolding caught_up_def assms(6,7) by blast
qed

section \<open>Runs of the listener\<close>

text \<open>What a poll that fetched leaves of the poller.\<close>

lemma poll_fetched:
  assumes "serves cd rpc h"
    and "fetch_events cr cp cd rpc removed s = (s\<lparr>po_seen := mark_seen sigs (po_seen s)\<rparr>,
      Ok (concat (map (deposits_of cr cp cd (po_program_id s) txs) sigs)))"
    and "poll_events cr cp db cd rpc removed written s = Some (s', r)"
  obtains outs s2 where
    "settles cr cp cd (concat (map (deposits_of cr cp cd (po_program_id s) txs) sigs)) outs
      (s\<lparr>po_seen := mark_seen sigs (po_seen s)\<rparr>) s2"
    "po_pool s' = po_pool s2" "po_program_id s' = po_program_id s"
    "po_seen s' = po_seen s2 - set (snd (contiguous_cursor outs))"
    "po_last_signature s' = (case fst (contiguous_cursor outs) of Some sg \<Rightarrow> Some sg
       | None \<Rightarrow> po_last_signature s)"
    "po_cursor_file s' = po_cursor_file s \<or>
     (\<exists>sg. fst (contiguous_cursor outs) = Some sg \<and> po_cursor_file s' = Some (Some (show_signature cd sg)))"
proof -
  let ?events = "concat (map (deposits_of cr cp cd (po_program_id s) txs) sigs)"
  let ?s1 = "s\<lparr>po_seen := mark_seen sigs (po_seen s)\<rparr>"
  obtain n l outs s2 where run: "process_events cr cp db cd ?events 0 0 [] ?s1 = Some (n, l, outs, s2)"
    using assms(3) by (auto simp: poll_events_def assms(2) bind_eq_Some_conv)
  have "\<forall>ev\<in>set ?events. parse_signature cd (ev_signature ev) \<noteq> None"
    using deposits_signature [OF assms(1)] by fastforce
  from process_events_settles [OF this run]
  have set: "settles cr cp cd ?events outs ?s1 s2" by simp
  obtain cur failed where cc: "contiguous_cursor outs = (cur, failed)" by (cases "contiguous_cursor outs")
  have "s' = update_lag_metric rpc s'' \<and> po_pool s'' = po_pool s2 \<and> po_program_id s'' = po_program_id s2 \<and>
      po_seen s'' = po_seen s2 - set failed \<and>
      po_last_signature s'' = (case cur of Some sg \<Rightarrow> Some sg | None \<Rightarrow> po_last_signature s2) \<and>
      (po_cursor_file s'' = po_cursor_file s2 \<or>
       (\<exists>sg. cur = Some sg \<and> po_cursor_file s'' = Some (Some (show_signature cd sg))))"
    if "s'' = (let s3 = s2\<lparr>po_seen := po_seen s2 - set failed\<rparr>;
              s4 = (case cur of
                      Some sig \<Rightarrow> persist_cursor cd written sig (s3\<lparr>po_last_signature := Some sig\<rparr>)
                    | None \<Rightarrow> s3)
          in (if 0 < l
              then s4\<lparr>po_stats := (po_stats s4)\<lparr>bst_last_block := l\<rparr>\<rparr> else s4))" for s''
    using assms(3) that
    by (auto simp: poll_events_def assms(2) run cc Let_def persist_cursor_def split: option.splits)
  then obtain s'' where "s' = update_lag_metric rpc s''" "po_pool s'' = po_pool s2"
    "po_program_id s'' = po_program_id s2" "po_seen s'' = po_seen s2 - set failed"
    "po_last_signature s'' = (case cur of Some sg \<Rightarrow> Some sg | None \<Rightarrow> po_last_signature s2)"
    "po_cursor_file s'' = po_cursor_file s2 \<or>
       (\<exists>sg. cur = Some sg \<and> po_cursor_file s'' = Some (Some (show_signature cd sg)))" by blast
  then show thesis
    using set by (intro that [of outs s2])
      (auto simp: cc settles_def update_lag_metric_def Let_def split: result.splits option.splits)
qed

text \<open>The invariant of a run: nothing up to the cursor is missing, and the cursor file, if it can be
  read, is not ahead of the cursor.\<close>

definition file_behind :: "signature_codec \<Rightarrow> (signature \<times> bool) list \<Rightarrow> 'd poller \<Rightarrow> bool" where
  "file_behind cd h s \<longleftrightarrow>
     (\<forall>cf. Option.bind (po_cursor_file s) (load_cursor cd) = Some cf \<longrightarrow>
        (\<exists>c. po_last_signature s = Some c \<and> cf \<in> fst ` set h \<and> set (newer h c) \<subseteq> set (newer h cf)))"

lemma poll_step:
  assumes "serves cd rpc h" and "reads rpc txs" and "caught_up cr cp cd txs c0 h s" and "file_behind cd h s"
    and "po_last_signature s = Some c" and "0 < po_batch_limit s"
    and "length (newer h c) \<le> MAX_SIGNATURE_PAGES * po_batch_limit s"
    and "\<forall>sg. trim_text (show_signature cd sg) = show_signature cd sg"
    and "poll_events cr cp db cd rpc removed written s = Some (s', r)"
  shows "caught_up cr cp cd txs c0 h s' \<and> file_behind cd h s' \<and> po_program_id s' = po_program_id s"
proof -
  have c: "c \<in> fst ` set h" using assms(3,5) by (auto simp: caught_up_def)
  from assms(1,2,5) c assms(6) show ?thesis
  proof (cases rule: fetch_events_exact [where removed = removed and cr = cr and cp = cp])
    case (failed e sg)
    then show ?thesis using assms(3,4,9) by (auto simp: poll_events_def)
  next
    case (fetched sigs)
    note sigs = fetched(1) [unfolded recent_all [OF assms(7)]]
    from poll_fetched [OF assms(1) fetched(2) assms(9)] obtain outs s2 where o:
      "settles cr cp cd (concat (map (deposits_of cr cp cd (po_program_id s) txs) sigs)) outs
         (s\<lparr>po_seen := mark_seen sigs (po_seen s)\<rparr>) s2"
      "po_pool s' = po_pool s2" "po_program_id s' = po_program_id s"
      "po_seen s' = po_seen s2 - set (snd (contiguous_cursor outs))"
      "po_last_signature s' = (case fst (contiguous_cursor outs) of Some sg \<Rightarrow> Some sg | None \<Rightarrow> Some c)"
      and path: "po_cursor_file s' = po_cursor_file s \<or>
        (\<exists>sg. fst (contiguous_cursor outs) = Some sg \<and> po_cursor_file s' = Some (Some (show_signature cd sg)))"
      unfolding assms(5) by blast
    have up: "caught_up cr cp cd txs c0 h s'" by (rule caught_up_step [OF assms(1,3,5) sigs o])
    obtain c' where c': "po_last_signature s' = Some c'" "c' \<in> fst ` set h" using up by (auto simp: caught_up_def)
    have "set (newer h sg) \<subseteq> set (newer h c)" if "fst (contiguous_cursor outs) = Some sg" for sg
    proof (rule cursor_at [OF assms(1) c _ o(1) [unfolded sigs] that])
      show "newer h c = [] @ newer h c" by simp
    qed auto
    then have "set (newer h c') \<subseteq> set (newer h c)" using c' o(5) by (auto split: option.splits)
    moreover have "load_cursor cd (Some (show_signature cd sg)) = Some sg" for sg
      using assms(1,8) by (simp add: load_cursor_def serves_def)
    moreover have "po_cursor_file s' = Some (Some (show_signature cd c'))"
      if "po_cursor_file s' \<noteq> po_cursor_file s" using path that c'(1) o(5) by auto
    ultimately have "file_behind cd h s'"
      using assms(4,5) c' unfolding file_behind_def
      by (cases "po_cursor_file s' = po_cursor_file s") (simp, blast, simp)
    then show ?thesis using up o(3) by blast
  qed
qed

text \<open>
  A run, over the history of finalized transactions at the bridge: the history grows; a poll is
  answered from the current history, with any transaction lookup failing; an RPC outage fails the
  signature listing; the node restarts from the cursor file with a pool that still holds what was
  credited.
\<close>

inductive listens ::
  "'z node_crypto_scheme \<Rightarrow> (nat list \<Rightarrow> nat) \<Rightarrow> 'd rocksdb \<Rightarrow> signature_codec \<Rightarrow> (signature \<Rightarrow> confirmed_tx)
     \<Rightarrow> (signature \<times> bool) list \<Rightarrow> 'd poller \<Rightarrow> (signature \<times> bool) list \<Rightarrow> 'd poller \<Rightarrow> bool"
  for cr cp db cd txs h0 s0 where
  start: "listens cr cp db cd txs h0 s0 h0 s0"
| grow: "listens cr cp db cd txs h0 s0 h s \<Longrightarrow> distinct (map fst (h @ h')) \<Longrightarrow>
    listens cr cp db cd txs h0 s0 (h @ h') s"
| poll: "listens cr cp db cd txs h0 s0 h s \<Longrightarrow> serves cd rpc h \<Longrightarrow> reads rpc txs \<Longrightarrow>
    0 < po_batch_limit s \<Longrightarrow> po_last_signature s = Some c \<Longrightarrow>
    length (newer h c) \<le> MAX_SIGNATURE_PAGES * po_batch_limit s \<Longrightarrow>
    poll_events cr cp db cd rpc removed written s = Some (s', r) \<Longrightarrow>
    listens cr cp db cd txs h0 s0 h s'"
| outage: "listens cr cp db cd txs h0 s0 h s \<Longrightarrow>
    \<forall>before until limit. \<exists>e. get_signatures rpc before until limit = Err e \<and> \<not> is_stale_until_cursor e \<Longrightarrow>
    poll_events cr cp db cd rpc removed written s = Some (s', r) \<Longrightarrow>
    listens cr cp db cd txs h0 s0 h s'"
| restart: "listens cr cp db cd txs h0 s0 h s \<Longrightarrow>
    Option.bind (po_cursor_file s) (load_cursor cd) \<noteq> None \<Longrightarrow> po_cursor_file s1 = po_cursor_file s \<Longrightarrow>
    po_program_id s1 = po_program_id s \<Longrightarrow> po_seen s1 = {} \<Longrightarrow>
    sp_deposited (po_pool s) \<subseteq> sp_deposited (po_pool s1) \<Longrightarrow>
    listens cr cp db cd txs h0 s0 h (start_listener cd s1)"

lemma file_behind_grow:
  assumes "file_behind cd h s" and "po_last_signature s = Some c" and "c \<in> fst ` set h"
  shows "file_behind cd (h @ h') s"
  unfolding file_behind_def
proof (intro allI impI exI conjI)
  fix cf
  assume "Option.bind (po_cursor_file s) (load_cursor cd) = Some cf"
  then have cf: "cf \<in> fst ` set h" "set (newer h c) \<subseteq> set (newer h cf)"
    using assms(1,2) by (auto simp: file_behind_def)
  show "cf \<in> fst ` set (h @ h')" using cf(1) by (simp add: image_Un)
  show "set (newer (h @ h') c) \<subseteq> set (newer (h @ h') cf)"
    using cf newer_append assms(3) by auto
qed (rule assms(2))

lemma outage_poll:
  assumes "\<forall>before until limit. \<exists>e. get_signatures rpc before until limit = Err e \<and> \<not> is_stale_until_cursor e"
    and "poll_events cr cp db cd rpc removed written s = Some (s', r)"
  shows "s' = s"
proof -
  obtain e where e: "get_signatures rpc None (po_last_signature s) (po_batch_limit s) = Err e"
    "\<not> is_stale_until_cursor e" using assms(1) by blast
  have "fetch_pages rpc cd (po_batch_limit s) (po_last_signature s) None 0 [] False = (False, Err e)"
    by (subst fetch_pages.simps) (simp add: e)
  then show ?thesis using assms(2) by (simp add: poll_events_def fetch_events_def)
qed

lemma restart_step:
  assumes "caught_up cr cp cd txs c0 h s" and "file_behind cd h s"
    and "Option.bind (po_cursor_file s) (load_cursor cd) = Some cf" and "po_cursor_file s1 = po_cursor_file s"
    and "po_program_id s1 = po_program_id s" and "po_seen s1 = {}"
    and "sp_deposited (po_pool s) \<subseteq> sp_deposited (po_pool s1)"
  shows "caught_up cr cp cd txs c0 h (start_listener cd s1) \<and> file_behind cd h (start_listener cd s1)"
proof -
  obtain c where c: "po_last_signature s = Some c" "cf \<in> fst ` set h" "set (newer h c) \<subseteq> set (newer h cf)"
    using assms(2,3) by (auto simp: file_behind_def)
  have s': "start_listener cd s1 = s1\<lparr>po_last_signature := Some cf\<rparr>"
    using assms(3,4) by (simp add: start_listener_def)
  have "caught_up cr cp cd txs c0 h (start_listener cd s1)"
    using assms(1,5,6,7) c unfolding s' caught_up_def by (auto intro: credited_mono)
  moreover have "file_behind cd h (start_listener cd s1)"
    using assms(3,4) c(2) unfolding s' file_behind_def by simp
  ultimately show ?thesis ..
qed

lemma listens_invariant:
  assumes "listens cr cp db cd txs h0 s0 h s" and "caught_up cr cp cd txs c0 h0 s0" and "file_behind cd h0 s0"
    and "\<forall>sg. trim_text (show_signature cd sg) = show_signature cd sg"
  shows "caught_up cr cp cd txs c0 h s \<and> file_behind cd h s \<and> po_program_id s = po_program_id s0"
  using assms(1)
proof induction
  case (grow h s h')
  then have "file_behind cd (h @ h') s" using file_behind_grow by (metis caught_up_def)
  then show ?case using grow caught_up_extend by blast
next
  case (poll h s rpc c removed written s' r)
  from poll.IH have "caught_up cr cp cd txs c0 h s" "file_behind cd h s" "po_program_id s = po_program_id s0"
    by blast+
  then show ?case using poll_step [OF poll.hyps(2,3) _ _ poll.hyps(5,4,6) assms(4) poll.hyps(7), of c0] by simp
next
  case (outage h s rpc removed written s' r)
  then show ?case using outage_poll by blast
next
  case (restart h s s1)
  then obtain cf where "Option.bind (po_cursor_file s) (load_cursor cd) = Some cf" by blast
  moreover have "po_program_id (start_listener cd s1) = po_program_id s1"
    by (simp add: start_listener_def split: option.splits)
  ultimately show ?case using restart restart_step by metis
qed (use assms in simp)


section \<open>The page cap and the volume counter\<close>

lemma credit_adds_one:
  "credit_commitment db cm n amount a p store = (p', store', r) \<Longrightarrow> sp_deposited p' \<subseteq> insert cm (sp_deposited p)"
  by (auto simp: credit_commitment_def Let_def split: if_splits result.splits option.splits)

lemma process_deposit_adds_one:
  assumes "process_deposit cr cp db ev p store = (p', store', r)"
  shows "sp_deposited p' \<subseteq> insert (deposit_leaf cr cp ev) (sp_deposited p)"
  using assms by (cases rule: process_deposit_cases) (auto dest: credit_adds_one)

lemma process_events_adds:
  assumes "process_events cr cp db cd events n l outs s = Some (n', l', outs', s')"
  shows "sp_deposited (po_pool s') \<subseteq> sp_deposited (po_pool s) \<union> deposit_leaf cr cp ` set events"
  using assms
proof (induction events arbitrary: n l outs s)
  case (Cons ev events)
  obtain p store r where pd: "process_deposit cr cp db ev (po_pool s) (po_store s) = (p, store, r)"
    by (cases "process_deposit cr cp db ev (po_pool s) (po_store s)")
  obtain n1 l1 o1 s1 where run: "process_events cr cp db cd events n1 l1 o1 s1 = Some (n', l', outs', s')"
    and s1: "po_pool s1 = p"
    using Cons.prems pd by (cases r) (auto simp: bind_eq_Some_conv split: if_splits)
  show ?case
    using Cons.IH [OF run] process_deposit_adds_one [OF pd] unfolding s1 by auto
qed simp

lemma poll_adds:
  assumes "fetch_events cr cp cd rpc removed s = (s\<lparr>po_seen := seen\<rparr>, Ok events)"
    and "poll_events cr cp db cd rpc removed written s = Some (s', r)"
  shows "sp_deposited (po_pool s') \<subseteq> sp_deposited (po_pool s) \<union> deposit_leaf cr cp ` set events"
proof -
  obtain n l outs s2 where run: "process_events cr cp db cd events 0 0 [] (s\<lparr>po_seen := seen\<rparr>) = Some (n, l, outs, s2)"
    using assms(2) by (auto simp: poll_events_def assms(1) bind_eq_Some_conv)
  have "po_pool s' = po_pool s2"
    using assms(2)
    by (auto simp: poll_events_def assms(1) run Let_def persist_cursor_def update_lag_metric_def
        split: option.splits result.splits prod.splits if_splits)
  then show ?thesis using process_events_adds [OF run] by simp
qed

lemma recent_suffix: "newer h c = take (length (newer h c) - MAX_SIGNATURE_PAGES * limit) (newer h c) @ recent limit (newer h c)"
  by (simp add: recent_def)

text \<open>C40. A gap longer than the page cap loses deposits: when more transactions than fifty pages hold
  have arrived since the cursor, the older ones are not listed, the poll credits nothing but deposits
  of the listed ones, and once the poll has moved the cursor no later poll lists the older ones
  either.\<close>

theorem page_cap_loses_deposits:
  assumes "serves cd rpc h" and "reads rpc txs" and "po_last_signature s = Some c" and "c \<in> fst ` set h"
    and "0 < po_batch_limit s" and "poll_events cr cp db cd rpc removed written s = Some (s', r)"
    and "po_last_signature s' = Some c'" and "c' \<noteq> c"
    and "x \<in> set (newer h c) - set (recent (po_batch_limit s) (newer h c))"
  shows "x \<notin> set (newer h c') \<and> sp_deposited (po_pool s') \<subseteq> sp_deposited (po_pool s) \<union>
      (\<Union>y\<in>set (recent (po_batch_limit s) (newer h c)).
         deposit_leaf cr cp ` set (deposits_of cr cp cd (po_program_id s) txs (fst y)))"
  using assms(1-5)
proof (cases rule: fetch_events_exact [where removed = removed and cr = cr and cp = cp])
  case (failed e sg)
  then show ?thesis using assms(3,6-8) by (auto simp: poll_events_def)
next
  case (fetched sigs)
  let ?A = "recent (po_batch_limit s) (newer h c)"
  let ?D = "deposits_of cr cp cd (po_program_id s) txs"
  from poll_fetched [OF assms(1) fetched(2) assms(6)] obtain outs s2 where o:
    "settles cr cp cd (concat (map ?D sigs)) outs (s\<lparr>po_seen := mark_seen sigs (po_seen s)\<rparr>) s2"
    "po_last_signature s' = (case fst (contiguous_cursor outs) of Some sg \<Rightarrow> Some sg | None \<Rightarrow> Some c)"
    unfolding assms(3) by blast
  then have moved: "fst (contiguous_cursor outs) = Some c'" using assms(7,8) by (auto split: option.splits)
  obtain ws zs where "?A = ws @ (c', False) # zs" "newer h c' = zs"
    by (rule cursor_at [OF assms(1,4) recent_suffix o(1) [unfolded fetched(1)] moved])
  then have "x \<notin> set (newer h c')" using assms(9) by auto
  moreover have "set sigs \<subseteq> fst ` set ?A" unfolding fetched(1) fresh_signatures_def by auto
  then have "deposit_leaf cr cp ` set (concat (map ?D sigs)) \<subseteq> (\<Union>y\<in>set ?A. deposit_leaf cr cp ` set (?D (fst y)))"
    by fastforce
  with poll_adds [OF fetched(2) assms(6)]
  have "sp_deposited (po_pool s') \<subseteq> sp_deposited (po_pool s) \<union>
      (\<Union>y\<in>set ?A. deposit_leaf cr cp ` set (?D (fst y)))" by (rule subset_trans [OF _ Un_mono [OF subset_refl]])
  ultimately show ?thesis ..
qed

text \<open>The volume counter stops the poller: \<open>volume_deposited\<close> adds lamports and token amounts into
  one 64-bit counter with a checked addition, so a poll whose first deposit is credited but takes the
  counter past its range panics, and the task that polls ends.\<close>

theorem volume_overflow_stops_poller:
  assumes "fetch_events cr cp cd rpc removed s = (s1, Ok (ev # events))"
    and "process_deposit cr cp db ev (po_pool s1) (po_store s1) = (p, store, Ok u)"
    and "2 ^ 64 \<le> unat (bst_volume_deposited (po_stats s1)) + unat (ev_amount ev)"
  shows "poll_events cr cp db cd rpc removed written s = None"
proof -
  have "count_deposit (ev_amount ev) (po_stats s1) = None"
    using assms(3) by (auto simp: count_deposit_def checked_add_def bind_eq_None_conv)
  then show ?thesis by (simp add: poll_events_def assms(1,2))
qed

section \<open>Examples\<close>

text \<open>A wire format of two letters per byte, for keys, data and signatures.\<close>

definition wire :: "bytes \<Rightarrow> string" where
  "wire bs = concat (map (\<lambda>b. [char_of (65 + unat b div 16), char_of (65 + unat b mod 16)]) bs)"

fun unwire :: "string \<Rightarrow> bytes" where
  "unwire (a # b # cs) = of_nat ((of_char a - 65) * 16 + (of_char b - 65)) # unwire cs"
| "unwire _ = []"

lemma unwire_wire [simp]: "unwire (wire bs) = bs"
proof (induction bs)
  case (Cons b bs)
  have "unat b < 256" using unat_bound [of b] by simp
  then have "(65 + unat b div 16) mod 256 = 65 + unat b div 16" "(65 + unat b mod 16) mod 256 = 65 + unat b mod 16"
    by auto
  then show ?case using Cons by (simp add: wire_def)
qed (simp add: wire_def)

lemma wire_no_space: "c \<in> set (wire bs) \<Longrightarrow> \<not> is_space c"
proof -
  assume "c \<in> set (wire bs)"
  then obtain b :: u8 where "c = char_of (65 + unat b div 16) \<or> c = char_of (65 + unat b mod 16)"
    by (auto simp: wire_def)
  moreover have "unat b < 256" using unat_bound [of b] by simp
  then have "(65 + unat b div 16) mod 256 = 65 + unat b div 16" "(65 + unat b mod 16) mod 256 = 65 + unat b mod 16"
    by auto
  ultimately have "65 \<le> (of_char c :: nat)" by auto
  then show ?thesis by (auto simp: is_space_def)
qed

lemma trim_wire: "trim_text (wire bs) = wire bs"
proof -
  have "dropWhile is_space xs = xs" if "\<forall>c\<in>set xs. \<not> is_space c" for xs
    using that by (cases xs) auto
  from this [of "wire bs"] this [of "rev (wire bs)"] show ?thesis
    by (simp add: trim_text_def wire_no_space)
qed

definition wire_codec :: signature_codec where
  "wire_codec =
     \<lparr> bs58_decode = (\<lambda>s. Some (unwire s)), parse_pubkey = (\<lambda>s. Some (unwire s)),
       parse_signature = (\<lambda>s. Some (unwire s)), show_signature = wire \<rparr>"

definition example_ix :: "u64 \<Rightarrow> Instruction" where
  "example_ix amount = create_deposit_note_instruction ref_runtime (program_id ref_runtime) (replicate 32 4)
     (bridge_vault_key ref_runtime) amount (le_bytes 32 1) (le_bytes 32 2)"

definition deposit_tx :: "u64 \<Rightarrow> confirmed_tx" where
  "deposit_tx amount =
     \<lparr> ct_slot = 5, ct_block_time = None,
       ct_transaction = Json (Raw (map wire (example_keys (example_ix amount)))
         [(example_compiled (example_ix amount))\<lparr>ci_data := wire (ix_data (example_ix amount))\<rparr>]),
       ct_meta = None \<rparr>"

definition example_event :: "u64 \<Rightarrow> signature \<Rightarrow> DepositEvent" where
  "example_event amount sg = deposit_event (wire sg) (deposit_tx amount) amount (le_bytes 32 1) (le_bytes 32 2)
     (replicate 32 4) native_asset_id"

lemma deposits_of_example:
  assumes "txs sg = deposit_tx amount"
  shows "deposits_of cr cp wire_codec (program_id ref_runtime) txs sg = [example_event amount sg]"
proof -
  let ?ix = "example_ix amount" let ?cd = "codec.truncate wire_codec"
  let ?ci = "(example_compiled ?ix)\<lparr>ci_data := wire (ix_data ?ix)\<rparr>"
  have keys: "parse_account_keys ?cd (map wire (example_keys ?ix)) = Some (example_keys ?ix)"
  proof -
    have "those (map (\<lambda>x. Some (unwire x)) (map wire xs)) = Some xs" for xs by (induction xs) simp_all
    then show ?thesis by (simp add: parse_account_keys_def wire_codec_def codec.defs comp_def)
  qed
  have "compiles ?cd (example_keys ?ix) ?ix ?ci"
    by (simp add: compiles_def example_keys_def example_compiled_def get_def wire_codec_def codec.defs)
  from decode_deposit_note [OF this [unfolded example_ix_def]]
  have "decode_compiled_deposit cr cp ?cd ?ci (example_keys ?ix) (program_id ref_runtime) =
      Some (deposit_decoded amount (le_bytes 32 1) (le_bytes 32 2) (replicate 32 4) native_asset_id)"
    by (simp add: example_ix_def)
  then show ?thesis
    using keys assms
    by (simp add: deposits_of_def extract_deposit_events_def deposit_tx_def inner_compiled_def
        List.map_filter_simps example_event_def deposit_event_def wire_codec_def)
qed

definition example_rpc :: "(signature \<times> bool) list \<Rightarrow> (signature \<Rightarrow> confirmed_tx) \<Rightarrow> bridge_rpc" where
  "example_rpc h txs =
     \<lparr> get_signatures = (\<lambda>before until limit. Ok (take limit (rev (map (info wire_codec) (listed h before until))))),
       get_transaction = (\<lambda>s. Ok (txs s)), get_slot = Ok 9 \<rparr>"

lemma example_serves: "distinct (map fst h) \<Longrightarrow> serves wire_codec (example_rpc h txs) h"
  by (simp add: serves_def example_rpc_def wire_codec_def)

lemma example_reads: "reads (example_rpc h txs) txs"
  by (simp add: reads_def example_rpc_def)

definition example_poller :: "u64 \<Rightarrow> signature \<Rightarrow> ref_db poller" where
  "example_poller volume c =
     \<lparr> po_program_id = program_id ref_runtime, po_pool = new_pool, po_store = None,
       po_stats = \<lparr> bst_total_deposits = 0, bst_volume_deposited = volume, bst_last_block = 0,
         bst_event_lag_slots = 0 \<rparr>,
       po_last_signature = Some c, po_seen = {}, po_last_processed_slot = 0, po_batch_limit = 1,
       po_cursor_file = None \<rparr>"

text \<open>A poll that finds one deposit.\<close>

lemma example_fetch:
  assumes "distinct (map fst h)" and "c \<in> fst ` set h" and "fresh_signatures (recent 1 (newer h c)) {} = [sg]"
    and "txs sg = deposit_tx 100"
  shows "fetch_events ref_node_crypto ref_circom wire_codec (example_rpc h txs) True (example_poller volume c) =
    ((example_poller volume c)\<lparr>po_seen := {sg}\<rparr>, Ok [example_event 100 sg])"
proof -
  let ?s = "example_poller volume c"
  have s: "po_last_signature ?s = Some c" "0 < po_batch_limit ?s" "po_batch_limit ?s = 1" "po_seen ?s = {}"
    "po_program_id ?s = program_id ref_runtime" by (simp_all add: example_poller_def)
  from example_serves [OF assms(1), of txs] example_reads [of h txs] s(1) assms(2) s(2) show ?thesis
  proof (cases rule: fetch_events_exact
      [where removed = True and cr = ref_node_crypto and cp = ref_circom])
    case (failed e sg)
    then show ?thesis by (simp add: example_rpc_def)
  next
    case (fetched sigs)
    then have "sigs = [sg]" using assms(3) s by simp
    moreover have "mark_seen [sg] {} = {sg}" by (simp add: mark_seen_def SEEN_SIGNATURE_CAP_def)
    ultimately show ?thesis
      using fetched(2) deposits_of_example [of txs sg 100, OF assms(4)] s by simp
  qed
qed

lemma example_credited:
  "\<exists>p. process_deposit ref_node_crypto ref_circom ref_rocksdb (example_event 100 sg) new_pool None = (p, None, Ok ()) \<and>
     sp_deposited p = {deposit_leaf ref_node_crypto ref_circom (example_event 100 sg)}"
proof -
  obtain p where "credit_commitment ref_rocksdb (deposit_leaf ref_node_crypto ref_circom (example_event 100 sg))
      (Note_new (le_bytes 32 1) 100 (le_bytes 32 2) native_asset_id) 100 native_asset_id new_pool None
      = (p, None, Ok (deposit_leaf ref_node_crypto ref_circom (example_event 100 sg)))"
    "sp_deposited p = {deposit_leaf ref_node_crypto ref_circom (example_event 100 sg)}"
    using credit_into_new by blast
  then show ?thesis by (simp add: process_credits example_event_def)
qed

lemma example_poll:
  assumes "distinct (map fst h)" and "c \<in> fst ` set h" and "fresh_signatures (recent 1 (newer h c)) {} = [sg]"
    and "txs sg = deposit_tx 100"
  shows "\<exists>s'. poll_events ref_node_crypto ref_circom ref_rocksdb wire_codec (example_rpc h txs) True True
      (example_poller 0 c) = Some (s', Ok 1) \<and> po_last_signature s' = Some sg"
proof -
  obtain p where p: "process_deposit ref_node_crypto ref_circom ref_rocksdb (example_event 100 sg) new_pool None =
      (p, None, Ok ())" using example_credited by blast
  have "parse_signature wire_codec (ev_signature (example_event 100 sg)) = Some sg"
    "ev_amount (example_event 100 sg) = 100" "ev_block (example_event 100 sg) = 5"
    by (simp_all add: wire_codec_def example_event_def)
       (simp add: deposit_event_def build_event_def deposit_tx_def)
  moreover have "contiguous_cursor [(sg, True)] = (Some sg, [])" by (simp add: contiguous_cursor_def)
  ultimately show ?thesis
    unfolding poll_events_def example_fetch [where txs = txs, OF assms]
    by (simp add: example_poller_def p count_deposit_def checked_add_def
        note_outcome_def update_lag_metric_def example_rpc_def persist_cursor_def Let_def)
qed


theorem volume_overflow_stops_poller_witness:
  "poll_events ref_node_crypto ref_circom ref_rocksdb wire_codec
     (example_rpc [([0], False), ([1], False)] (\<lambda>_. deposit_tx 100)) True True (example_poller 18446744073709551600 [0]) = None"
proof -
  let ?h = "[([0], False), ([1], False)] :: (signature \<times> bool) list" and ?txs = "\<lambda>_. deposit_tx 100"
  have h: "distinct (map fst ?h)" "[0] \<in> fst ` set ?h" "fresh_signatures (recent 1 (newer ?h [0])) {} = [[1]]"
    by (simp_all add: newer_eq recent_def fresh_signatures_def MAX_SIGNATURE_PAGES_def)
  let ?s = "(example_poller 18446744073709551600 [0])\<lparr>po_seen := {[1]}\<rparr>"
  obtain p where "process_deposit ref_node_crypto ref_circom ref_rocksdb (example_event 100 [1]) (po_pool ?s) (po_store ?s)
      = (p, None, Ok ())" using example_credited by (auto simp: example_poller_def)
  moreover have "2 ^ 64 \<le> unat (bst_volume_deposited (po_stats ?s)) + unat (ev_amount (example_event 100 [1]))"
    by (simp add: example_poller_def example_event_def)
  ultimately show ?thesis
    by (rule volume_overflow_stops_poller [OF example_fetch [OF h, of ?txs, OF refl]])
qed

definition gap_history :: "(signature \<times> bool) list" where
  "gap_history = ([0], False) # ([1], False) # map (\<lambda>n. ([of_nat n], True)) [2..<51] @ [([51], False)]"

lemma gap_history_distinct: "distinct (map fst gap_history)"
proof -
  have "map fst gap_history = map (\<lambda>n. [of_nat n :: u8]) [0..<52]"
    by (simp add: gap_history_def upt_rec)
  moreover have "inj_on (\<lambda>n. [of_nat n :: u8]) (set [0..<52])"
    by (auto simp: inj_on_def word_unat_eq_iff unat_of_nat take_bit_nat_eq_self)
  ultimately show ?thesis by (simp add: distinct_map)
qed

lemma gap_newer: "newer gap_history [0] = ([1], False) # map (\<lambda>n. ([of_nat n], True)) [2..<51] @ [([51], False)]"
  by (simp add: newer_eq gap_history_def)

lemma gap_recent: "recent 1 (newer gap_history [0]) = map (\<lambda>n. ([of_nat n], True)) [2..<51] @ [([51], False)]"
  by (simp add: gap_newer recent_def MAX_SIGNATURE_PAGES_def)

theorem page_cap_loses_deposits_witness:
  "\<exists>s'. poll_events ref_node_crypto ref_circom ref_rocksdb wire_codec (example_rpc gap_history (\<lambda>_. deposit_tx 100))
      True True (example_poller 0 [0]) = Some (s', Ok 1) \<and> po_last_signature s' = Some [51] \<and>
    ([1], False) \<in> set (newer gap_history [0]) \<and> ([1], False) \<notin> set (newer gap_history [51])"
proof -
  let ?txs = "\<lambda>_. deposit_tx 100"
  have h: "[0] \<in> fst ` set gap_history" by (simp add: gap_history_def)
  have "filter (\<lambda>x. \<not> snd x \<and> fst x \<notin> {}) (map (\<lambda>n. ([of_nat n], True)) xs) = []" for xs :: "nat list"
    by (induction xs) simp_all
  then have "fresh_signatures (recent 1 (newer gap_history [0])) {} = [[51]]"
    unfolding gap_recent fresh_signatures_def by simp
  from example_poll [OF gap_history_distinct h this, of ?txs, OF refl]
  obtain s' where poll: "poll_events ref_node_crypto ref_circom ref_rocksdb wire_codec
      (example_rpc gap_history ?txs) True True (example_poller 0 [0]) = Some (s', Ok 1)"
    "po_last_signature s' = Some [51]" by blast
  have s: "po_last_signature (example_poller 0 [0]) = Some [0]" "0 < po_batch_limit (example_poller 0 [0])"
    "po_batch_limit (example_poller 0 [0]) = 1" by (simp_all add: example_poller_def)
  have "([1], False) \<in> set (newer gap_history [0]) - set (recent (po_batch_limit (example_poller 0 [0])) (newer gap_history [0]))"
    unfolding s(3) gap_recent by (auto simp: gap_newer)
  from page_cap_loses_deposits [OF example_serves [OF gap_history_distinct] example_reads s(1) h s(2) poll _ this]
  show ?thesis using poll by (auto simp: gap_newer)
qed

end
