(* ===== verification/Spec2Isabelle.thy ===== *)
theory Spec2Isabelle
  imports Chain_Governance Consensus_Safety Listener
begin

text \<open>
  A verification development for paraloom-core: a shielded pool on Solana.

  \<^item> \<open>Prelude\<close>: Rust integers, results, byte strings.
  \<^item> \<open>Program_Types\<close>, \<open>Runtime\<close>, \<open>Reference_Runtime\<close>: the data of the on-chain program, the
    runtime it is parameterised by, and an executable instance of that runtime.
  \<^item> \<open>Field_Encoding\<close>, \<open>Groth16\<close>: encodings and the proof check.
  \<^item> \<open>Merkle_Hash\<close>, \<open>Incremental_Tree\<close>: Merkle trees and the on-chain commitment tree.
\<close>

end
